(* ===== verification/Prelude.thy ===== *)
theory Prelude
  imports Complex_Main "HOL-Library.Word" "HOL-Library.AList" "HOL-Library.Sublist"
begin

text \<open>
  What every component of the engine model shares.

  \<^item> Results. Fallible Rust code returns \<open>anyhow::Result\<close>; a \<open>panic!\<close>, a failed
    \<open>expect\<close> or \<open>assert!\<close> unwinds the worker. Both are values of \<open>failure\<close>, and
    \<open>'a res\<close> is a result. An error is the text its \<open>to_string\<close> shows, which for an
    error wrapped by \<open>context\<close> is the outermost text. \<open>res_bind\<close> is the \<open>?\<close> operator,
    \<open>ensure\<close> the macro of that name.
  \<^item> Machine integers. Identifiers are \<open>u64\<close> words. Amounts are computed in \<open>i128\<close>;
    the checked operations of the source are \<open>checked_add_i128\<close> and \<open>checked_mul_i128\<close>.
  \<^item> Strings are UTF-8 byte lists: \<open>str::len\<close> is \<open>length\<close>, \<open>trim\<close> is \<open>str::trim\<close>.
  \<^item> \<open>HashMap\<close> is an association list (type \<open>('k, 'v) hashmap\<close>) whose \<open>insert\<close> and
    \<open>remove\<close> are those of \<open>HOL-Library.AList\<close>; no operation of the model depends on the
    order of its entries.
\<close>

named_theorems res_simps \<open>equations that run the result monad\<close>
named_theorems res_elims \<open>inversion of successful results\<close>

section \<open>Results, errors and panics\<close>

datatype failure = Error string | Panic string

type_synonym 'a res = "failure + 'a"

definition res_bind :: "'a res \<Rightarrow> ('a \<Rightarrow> 'b res) \<Rightarrow> 'b res" where
  "res_bind m f = (case m of Inl e \<Rightarrow> Inl e | Inr x \<Rightarrow> f x)"

definition ensure :: "bool \<Rightarrow> string \<Rightarrow> 'a res \<Rightarrow> 'a res" where
  "ensure c msg k = (if c then k else Inl (Error msg))"

definition with_context :: "string \<Rightarrow> 'a res \<Rightarrow> 'a res" where
  "with_context msg m = (case m of Inl (Error _) \<Rightarrow> Inl (Error msg) | _ \<Rightarrow> m)"

definition ok_or :: "string \<Rightarrow> 'a option \<Rightarrow> 'a res" where
  "ok_or msg x = (case x of None \<Rightarrow> Inl (Error msg) | Some v \<Rightarrow> Inr v)"

definition expect :: "string \<Rightarrow> 'a option \<Rightarrow> 'a res" where
  "expect msg x = (case x of None \<Rightarrow> Inl (Panic msg) | Some v \<Rightarrow> Inr v)"

definition is_ok :: "'a res \<Rightarrow> bool" where
  "is_ok m = (case m of Inl _ \<Rightarrow> False | Inr _ \<Rightarrow> True)"

lemma is_ok_iff: "is_ok m \<longleftrightarrow> (\<exists>x. m = Inr x)"
  by (cases m) (simp_all add: is_ok_def)

lemma is_ok_Inr [simp]: "is_ok (Inr x)"
  by (simp add: is_ok_def)

text \<open>
  For evaluation by the kernel the monad is unfolded to case distinctions, so that the
  continuation is evaluated only after the result it consumes.
\<close>

lemma res_bind_code [code_unfold]: "res_bind m f = (case m of Inl e \<Rightarrow> Inl e | Inr x \<Rightarrow> f x)"
  by (rule res_bind_def)

lemma ensure_code [code_unfold]: "ensure c msg k = (if c then k else Inl (Error msg))"
  by (rule ensure_def)

lemma res_bind_simps [simp, res_simps]:
  "res_bind (Inl e) f = Inl e"
  "res_bind (Inr x) f = f x"
  by (simp_all add: res_bind_def)

lemma res_bind_Inr_iff [res_elims]:
  "res_bind m f = Inr y \<longleftrightarrow> (\<exists>x. m = Inr x \<and> f x = Inr y)"
  by (cases m) simp_all

lemma res_bind_Panic_iff:
  "res_bind m f = Inl (Panic p) \<longleftrightarrow> m = Inl (Panic p) \<or> (\<exists>x. m = Inr x \<and> f x = Inl (Panic p))"
  by (cases m) simp_all

lemma res_bind_assoc: "res_bind (res_bind m f) g = res_bind m (\<lambda>x. res_bind (f x) g)"
  by (cases m) simp_all

lemma res_bind_cong [fundef_cong]:
  "m = m' \<Longrightarrow> (\<And>x. m' = Inr x \<Longrightarrow> f x = f' x) \<Longrightarrow> res_bind m f = res_bind m' f'"
  by (cases m') simp_all

lemma ensure_Inr_iff [res_elims]: "ensure c msg k = Inr y \<longleftrightarrow> c \<and> k = Inr y"
  by (simp add: ensure_def)

lemma ensure_Panic_iff: "ensure c msg k = Inl (Panic p) \<longleftrightarrow> c \<and> k = Inl (Panic p)"
  by (simp add: ensure_def)

lemma ensure_simps [simp, res_simps]:
  "ensure True msg k = k"
  "ensure False msg k = Inl (Error msg)"
  by (simp_all add: ensure_def)

lemma ensure_cong [fundef_cong]:
  "c = c' \<Longrightarrow> msg = msg' \<Longrightarrow> (c' \<Longrightarrow> k = k') \<Longrightarrow> ensure c msg k = ensure c' msg' k'"
  by (simp add: ensure_def)

lemma with_context_Inr_iff [res_elims]: "with_context msg m = Inr y \<longleftrightarrow> m = Inr y"
  by (auto simp: with_context_def split: sum.splits failure.splits)

lemma with_context_simps [simp, res_simps]:
  "with_context msg (Inr y) = Inr y"
  "with_context msg (Inl (Error e)) = Inl (Error msg)"
  "with_context msg (Inl (Panic e)) = Inl (Panic e)"
  by (simp_all add: with_context_def)

lemma with_context_Panic_iff:
  "with_context msg m = Inl (Panic p) \<longleftrightarrow> m = Inl (Panic p)"
  by (auto simp: with_context_def split: sum.splits failure.splits)

lemma ok_or_Inr_iff [res_elims]: "ok_or msg x = Inr y \<longleftrightarrow> x = Some y"
  by (auto simp: ok_or_def split: option.splits)

lemma ok_or_simps [simp, res_simps]:
  "ok_or msg (Some v) = Inr v"
  "ok_or msg None = Inl (Error msg)"
  by (simp_all add: ok_or_def)

lemma ok_or_not_Panic [simp]: "ok_or msg x \<noteq> Inl (Panic p)"
  by (auto simp: ok_or_def split: option.splits)

lemma expect_Inr_iff [res_elims]: "expect msg x = Inr y \<longleftrightarrow> x = Some y"
  by (auto simp: expect_def split: option.splits)

lemma expect_simps [simp, res_simps]:
  "expect msg (Some v) = Inr v"
  "expect msg None = Inl (Panic msg)"
  by (simp_all add: expect_def)

lemma Inr_not_Inl_conv: "(\<forall>e. m \<noteq> Inl e) \<longleftrightarrow> (\<exists>x. m = Inr x)"
  by (cases m) auto

text \<open>The loop \<open>for x in xs { body(x)?; }\<close> over a state that the body replaces.\<close>

fun res_fold :: "('a \<Rightarrow> 's \<Rightarrow> 's res) \<Rightarrow> 'a list \<Rightarrow> 's \<Rightarrow> 's res" where
  "res_fold f [] s = Inr s"
| "res_fold f (x # xs) s = res_bind (f x s) (res_fold f xs)"

lemma res_fold_append:
  "res_fold f (xs @ ys) s = res_bind (res_fold f xs s) (res_fold f ys)"
  by (induction xs arbitrary: s) (auto simp: res_bind_assoc intro: res_bind_cong)

lemma res_fold_invariant:
  assumes "res_fold f xs s = Inr t" and "P s"
    and "\<And>x u v. x \<in> set xs \<Longrightarrow> P u \<Longrightarrow> f x u = Inr v \<Longrightarrow> P v"
  shows "P t"
  using assms
proof (induction xs arbitrary: s)
  case Nil
  then show ?case by simp
next
  case (Cons x xs)
  from Cons.prems(1) obtain u where u: "f x s = Inr u" and rest: "res_fold f xs u = Inr t"
    by (auto simp: res_bind_Inr_iff)
  have "P u"
    using Cons.prems(3) [of x s u] Cons.prems(2) u by simp
  with rest Cons.prems(3) show ?case
    by (intro Cons.IH) auto
qed

text \<open>\<open>iter.map(f).collect::<Result<Vec<_>>>()\<close>: the first error stops the traversal.\<close>

fun res_map :: "('a \<Rightarrow> 'b res) \<Rightarrow> 'a list \<Rightarrow> 'b list res" where
  "res_map f [] = Inr []"
| "res_map f (x # xs) = res_bind (f x) (\<lambda>y. res_bind (res_map f xs) (\<lambda>ys. Inr (y # ys)))"

lemma res_map_Inr_iff:
  "res_map f xs = Inr ys \<longleftrightarrow> list_all2 (\<lambda>x y. f x = Inr y) xs ys"
  by (induction xs arbitrary: ys) (auto simp: res_bind_Inr_iff list_all2_Cons1)

lemma res_map_not_Panic:
  "(\<And>x. x \<in> set xs \<Longrightarrow> f x \<noteq> Inl (Panic p)) \<Longrightarrow> res_map f xs \<noteq> Inl (Panic p)"
  by (induction xs) (auto simp: res_bind_Panic_iff)

section \<open>Machine integers\<close>

type_synonym u64 = "64 word"

definition i64_max :: u64 where
  "i64_max = 9223372036854775807"

definition i128_max :: int where
  "i128_max = 2 ^ 127 - 1"

definition i128_min :: int where
  "i128_min = - (2 ^ 127)"

definition in_i128 :: "int \<Rightarrow> bool" where
  "in_i128 x \<longleftrightarrow> i128_min \<le> x \<and> x \<le> i128_max"

definition checked_add_i128 :: "int \<Rightarrow> int \<Rightarrow> int option" where
  "checked_add_i128 a b = (if in_i128 (a + b) then Some (a + b) else None)"

definition checked_mul_i128 :: "int \<Rightarrow> int \<Rightarrow> int option" where
  "checked_mul_i128 a b = (if in_i128 (a * b) then Some (a * b) else None)"

text \<open>\<open>i128::try_from\<close> of a big integer.\<close>

definition i128_try_from :: "int \<Rightarrow> int option" where
  "i128_try_from x = (if in_i128 x then Some x else None)"

text \<open>Integer division and remainder of Rust (and of \<open>BigInt\<close>) truncate towards zero.\<close>

definition tdiv :: "int \<Rightarrow> int \<Rightarrow> int" where
  "tdiv a b = sgn a * sgn b * (\<bar>a\<bar> div \<bar>b\<bar>)"

definition tmod :: "int \<Rightarrow> int \<Rightarrow> int" where
  "tmod a b = a - b * tdiv a b"

lemma tdiv_nonneg [simp]: "0 \<le> a \<Longrightarrow> 0 < b \<Longrightarrow> tdiv a b = a div b"
  by (cases "a = 0") (simp_all add: tdiv_def)

lemma tmod_nonneg [simp]: "0 \<le> a \<Longrightarrow> 0 < b \<Longrightarrow> tmod a b = a mod b"
  by (simp add: tmod_def minus_mult_div_eq_mod)

section \<open>Strings\<close>

text \<open>\<open>char::to_digit\<close> and the decimal value of a digit string.\<close>

definition is_ascii_digit :: "char \<Rightarrow> bool" where
  "is_ascii_digit c \<longleftrightarrow> of_char c \<ge> (48::int) \<and> of_char c \<le> (57::int)"

definition digit_char :: "int \<Rightarrow> char" where
  "digit_char n = char_of (48 + n)"

definition digit_val :: "char \<Rightarrow> int" where
  "digit_val c = of_char c - 48"

definition digits_val :: "string \<Rightarrow> int" where
  "digits_val s = foldl (\<lambda>v c. 10 * v + digit_val c) 0 s"

text \<open>\<open>Display\<close> of an unsigned and of a signed integer, and the format \<open>{:0w}\<close>.\<close>

function nat_str :: "int \<Rightarrow> string" where
  "nat_str n = (if n < 10 then [digit_char n] else nat_str (n div 10) @ [digit_char (n mod 10)])"
  by pat_completeness auto
termination
  by (relation "measure nat") auto

declare nat_str.simps [simp del]

definition int_str :: "int \<Rightarrow> string" where
  "int_str x = (if x < 0 then CHR ''-'' # nat_str (- x) else nat_str x)"

definition zero_padded :: "nat \<Rightarrow> int \<Rightarrow> string" where
  "zero_padded w x =
     (if x < 0 then CHR ''-'' # replicate (w - Suc (length (nat_str (- x)))) (CHR ''0'') @
                    nat_str (- x)
      else replicate (w - length (nat_str x)) (CHR ''0'') @ nat_str x)"

text \<open>\<open>str::trim_end_matches(c)\<close>.\<close>

definition trim_end_matches :: "char \<Rightarrow> string \<Rightarrow> string" where
  "trim_end_matches c s = rev (dropWhile (\<lambda>x. x = c) (rev s))"

text \<open>
  \<open>str::trim\<close>: the UTF-8 encodings of the characters with the Unicode property
  \<open>White_Space\<close> are removed at both ends.
\<close>

definition white_space :: "string list" where
  "white_space =
     [[CHR 0x09], [CHR 0x0A], [CHR 0x0B], [CHR 0x0C], [CHR 0x0D], [CHR 0x20],
      [CHR 0xC2, CHR 0x85], [CHR 0xC2, CHR 0xA0], [CHR 0xE1, CHR 0x9A, CHR 0x80],
      [CHR 0xE2, CHR 0x80, CHR 0x80], [CHR 0xE2, CHR 0x80, CHR 0x81],
      [CHR 0xE2, CHR 0x80, CHR 0x82], [CHR 0xE2, CHR 0x80, CHR 0x83],
      [CHR 0xE2, CHR 0x80, CHR 0x84], [CHR 0xE2, CHR 0x80, CHR 0x85],
      [CHR 0xE2, CHR 0x80, CHR 0x86], [CHR 0xE2, CHR 0x80, CHR 0x87],
      [CHR 0xE2, CHR 0x80, CHR 0x88], [CHR 0xE2, CHR 0x80, CHR 0x89],
      [CHR 0xE2, CHR 0x80, CHR 0x8A], [CHR 0xE2, CHR 0x80, CHR 0xA8],
      [CHR 0xE2, CHR 0x80, CHR 0xA9], [CHR 0xE2, CHR 0x80, CHR 0xAF],
      [CHR 0xE2, CHR 0x81, CHR 0x9F], [CHR 0xE3, CHR 0x80, CHR 0x80]]"

function strip_prefixes :: "string list \<Rightarrow> string \<Rightarrow> string" where
  "strip_prefixes ws s =
     (case find (\<lambda>w. w \<noteq> [] \<and> prefix w s) ws of None \<Rightarrow> s
      | Some w \<Rightarrow> strip_prefixes ws (drop (length w) s))"
  by pat_completeness auto
termination
  by (relation "measure (\<lambda>(ws, s). length s)")
    (auto simp: find_Some_iff prefix_def)

declare strip_prefixes.simps [simp del]

definition trim :: "string \<Rightarrow> string" where
  "trim s = rev (strip_prefixes (map rev white_space) (rev (strip_prefixes white_space s)))"

lemma digit_val_digit_char [simp]: "0 \<le> n \<Longrightarrow> n < 10 \<Longrightarrow> digit_val (digit_char n) = n"
  by (simp add: digit_val_def digit_char_def)

lemma is_ascii_digit_digit_char [simp]: "0 \<le> n \<Longrightarrow> n < 10 \<Longrightarrow> is_ascii_digit (digit_char n)"
  by (simp add: is_ascii_digit_def digit_char_def)

lemma digits_val_Nil [simp]: "digits_val [] = 0"
  by (simp add: digits_val_def)

lemma digits_val_snoc [simp]: "digits_val (s @ [c]) = 10 * digits_val s + digit_val c"
  by (simp add: digits_val_def)

lemma digits_val_append: "digits_val (s @ t) = digits_val s * 10 ^ length t + digits_val t"
proof (induction t rule: rev_induct)
  case Nil
  then show ?case by simp
next
  case (snoc c t)
  have "digits_val (s @ t @ [c]) = 10 * digits_val (s @ t) + digit_val c"
    using digits_val_snoc [of "s @ t" c] by simp
  with snoc.IH show ?case by (simp add: algebra_simps)
qed

lemma digits_val_nonneg: "list_all is_ascii_digit s \<Longrightarrow> 0 \<le> digits_val s"
  by (induction s rule: rev_induct) (auto simp: is_ascii_digit_def digit_val_def)

lemma digits_val_zeros [simp]: "digits_val (replicate k (CHR ''0'')) = 0"
proof (induction k)
  case 0
  then show ?case by simp
next
  case (Suc k)
  have "replicate (Suc k) (CHR ''0'') = replicate k (CHR ''0'') @ [CHR ''0'']"
    by (simp add: replicate_append_same)
  with Suc show ?case by (simp add: digit_val_def del: replicate_Suc)
qed

lemma digits_val_nat_str [simp]: "0 \<le> n \<Longrightarrow> digits_val (nat_str n) = n"
proof (induction n rule: nat_str.induct)
  case (1 n)
  show ?case
  proof (cases "n < 10")
    case True
    with 1 show ?thesis
      using digits_val_snoc [of "[]" "digit_char n"] by (simp add: nat_str.simps [of n])
  next
    case False
    with 1 show ?thesis by (simp add: nat_str.simps [of n])
  qed
qed

lemma nat_str_digits: "0 \<le> n \<Longrightarrow> list_all is_ascii_digit (nat_str n)"
proof (induction n rule: nat_str.induct)
  case (1 n)
  then show ?case
    by (cases "n < 10") (simp_all add: nat_str.simps [of n])
qed

lemma nat_str_nonempty [simp]: "nat_str n \<noteq> []"
  by (subst nat_str.simps) simp

lemma length_nat_str: "n < 10 ^ w \<Longrightarrow> 0 < w \<Longrightarrow> length (nat_str n) \<le> w"
proof (induction w arbitrary: n)
  case 0
  then show ?case by simp
next
  case (Suc w)
  show ?case
  proof (cases "n < 10")
    case True
    then show ?thesis by (simp add: nat_str.simps [of n])
  next
    case False
    with Suc.prems have "n div 10 < 10 ^ w" and "0 < w"
      by (auto intro: Nat.gr0I)
    then have "length (nat_str (n div 10)) \<le> w"
      by (rule Suc.IH)
    with False show ?thesis by (simp add: nat_str.simps [of n])
  qed
qed

lemma is_ascii_digit_zero [simp]: "is_ascii_digit (CHR ''0'')"
  by (simp add: is_ascii_digit_def)

lemma not_is_ascii_digit_dot [simp]: "\<not> is_ascii_digit (CHR ''.'')"
  by (simp add: is_ascii_digit_def)

lemma length_zero_padded: "0 \<le> x \<Longrightarrow> x < 10 ^ w \<Longrightarrow> 0 < w \<Longrightarrow> length (zero_padded w x) = w"
  using length_nat_str [of x w] by (simp add: zero_padded_def)

lemma digits_val_zero_padded: "0 \<le> x \<Longrightarrow> digits_val (zero_padded w x) = x"
  by (simp add: zero_padded_def digits_val_append)

lemma zero_padded_digits: "0 \<le> x \<Longrightarrow> list_all is_ascii_digit (zero_padded w x)"
  using nat_str_digits by (auto simp: zero_padded_def list_all_iff)

lemma nat_str_zero: "nat_str 0 = [CHR ''0'']"
  by code_simp

lemma zero_padded_snoc:
  assumes "0 \<le> x" "0 < k"
  shows "zero_padded (Suc k) x = zero_padded k (x div 10) @ [digit_char (x mod 10)]"
proof (cases "x < 10")
  case True
  obtain j where "k = Suc j" using assms(2) by (cases k) auto
  moreover have "x div 10 = 0" "x mod 10 = x" using True assms(1) by simp_all
  moreover have "nat_str x = [digit_char x]" using True by (simp add: nat_str.simps [of x])
  ultimately show ?thesis using assms(1) by (simp add: zero_padded_def nat_str_zero replicate_append_same)
next
  case False
  then have "nat_str x = nat_str (x div 10) @ [digit_char (x mod 10)]" by (simp add: nat_str.simps [of x])
  moreover have "\<not> x div 10 < 0" using assms(1) by simp
  ultimately show ?thesis using assms(1) by (simp add: zero_padded_def)
qed

lemma nat_str_split: "10 ^ Suc k \<le> n \<Longrightarrow> nat_str n = nat_str (n div 10 ^ Suc k) @ zero_padded (Suc k) (n mod 10 ^ Suc k)"
proof (induction k arbitrary: n)
  case 0
  then have "nat_str (n mod 10) = [digit_char (n mod 10)]" by (simp add: nat_str.simps [of "n mod 10"])
  moreover have "\<not> n mod 10 < 0" by (simp add: not_less)
  ultimately show ?case using 0 by (simp add: nat_str.simps [of n] zero_padded_def)
next
  case (Suc k)
  define p where "p = (10 :: int) ^ Suc k"
  have "0 < p" by (simp add: p_def)
  then have p: "1 \<le> p" "10 ^ Suc (Suc k) = 10 * p" by (linarith, simp add: p_def)
  have n: "10 * p \<le> n" using Suc.prems by (simp only: p)
  then have ten: "10 \<le> n" "p \<le> n div 10" using p(1) by linarith+
  have m: "n mod (10 * p) = 10 * (n div 10 mod p) + n mod 10" using p(1) by (simp add: zmod_zmult2_eq)
  have "zero_padded (Suc (Suc k)) (n mod (10 * p)) = zero_padded (Suc k) (n div 10 mod p) @ [digit_char (n mod 10)]"
    using zero_padded_snoc [of "n mod (10 * p)" "Suc k"] p(1) by (simp add: m)
  moreover have "nat_str n = nat_str (n div 10) @ [digit_char (n mod 10)]" using ten(1) by (simp add: nat_str.simps [of n])
  moreover have "n div (10 * p) = n div 10 div p" using p(1) by (simp add: zdiv_zmult2_eq)
  ultimately show ?case using Suc.IH [OF ten(2) [unfolded p_def]] by (simp only: p p_def [symmetric] append_assoc)
qed

lemma trim_end_matches_zeros:
  obtains k where "s = trim_end_matches (CHR ''0'') s @ replicate k (CHR ''0'')"
proof -
  define k where "k = length (takeWhile (\<lambda>x. x = CHR ''0'') (rev s))"
  have "takeWhile (\<lambda>x. x = CHR ''0'') (rev s) = replicate k (CHR ''0'')"
    by (rule replicate_eqI) (auto simp: k_def dest: set_takeWhileD)
  then have "rev s = replicate k (CHR ''0'') @ dropWhile (\<lambda>x. x = CHR ''0'') (rev s)"
    using takeWhile_dropWhile_id [of "\<lambda>x. x = CHR ''0''" "rev s"] by simp
  then have "s = trim_end_matches (CHR ''0'') s @ replicate k (CHR ''0'')"
    unfolding trim_end_matches_def by (metis rev_append rev_replicate rev_rev_ident)
  then show thesis by (rule that)
qed

lemma trim_end_matches_append:
  "trim_end_matches c (s @ t) =
     (if trim_end_matches c t = [] then trim_end_matches c s else s @ trim_end_matches c t)"
  by (auto simp: trim_end_matches_def dropWhile_append dropWhile_eq_Nil_conv
      simp del: rev_is_Nil_conv)

lemma trim_end_matches_id: "s = [] \<or> last s \<noteq> c \<Longrightarrow> trim_end_matches c s = s"
  by (cases s rule: rev_cases) (simp_all add: trim_end_matches_def)

lemma last_trim_end_matches: "trim_end_matches c s \<noteq> [] \<Longrightarrow> last (trim_end_matches c s) \<noteq> c"
  using hd_dropWhile [of "\<lambda>x. x = c" "rev s"] by (auto simp: trim_end_matches_def last_rev)

lemma last_digit_not_dot: "list_all is_ascii_digit s \<Longrightarrow> s \<noteq> [] \<Longrightarrow> last s \<noteq> CHR ''.''"
  by (cases s rule: rev_cases) auto

lemma abs_tmod_less: "b \<noteq> 0 \<Longrightarrow> \<bar>tmod a b\<bar> < \<bar>b\<bar>"
proof -
  assume b: "b \<noteq> 0"
  have "tmod a b = sgn a * (\<bar>a\<bar> - \<bar>b\<bar> * (\<bar>a\<bar> div \<bar>b\<bar>))"
    by (simp add: tmod_def tdiv_def algebra_simps abs_sgn)
  also have "\<dots> = sgn a * (\<bar>a\<bar> mod \<bar>b\<bar>)"
    by (simp add: minus_mult_div_eq_mod)
  finally show ?thesis using b by (simp add: abs_mult abs_sgn_eq)
qed

section \<open>Hash maps\<close>

type_synonym ('k, 'v) hashmap = "('k \<times> 'v) list"

abbreviation hm_get :: "('k, 'v) hashmap \<Rightarrow> 'k \<Rightarrow> 'v option" where
  "hm_get m k \<equiv> map_of m k"

abbreviation hm_insert :: "'k \<Rightarrow> 'v \<Rightarrow> ('k, 'v) hashmap \<Rightarrow> ('k, 'v) hashmap" where
  "hm_insert k v m \<equiv> AList.update k v m"

abbreviation hm_remove :: "'k \<Rightarrow> ('k, 'v) hashmap \<Rightarrow> ('k, 'v) hashmap" where
  "hm_remove k m \<equiv> AList.delete k m"

lemma hm_get_insert [simp]: "hm_get (hm_insert k v m) k' = (if k' = k then Some v else hm_get m k')"
  by (simp add: update_conv)

text \<open>What a client may rely on in a map whose keys are compared by an equivalence.\<close>

locale keyed_map =
  fixes get :: "'k \<Rightarrow> 'm \<Rightarrow> 'v option"
    and put :: "'k \<Rightarrow> 'v \<Rightarrow> 'm \<Rightarrow> 'm"
    and del :: "'k \<Rightarrow> 'm \<Rightarrow> 'm"
    and same :: "'k \<Rightarrow> 'k \<Rightarrow> bool"
    and invar :: "'m \<Rightarrow> bool"
  assumes same_refl: "same k k"
    and same_sym: "same k k' \<Longrightarrow> same k' k"
    and same_trans: "same k k' \<Longrightarrow> same k' k'' \<Longrightarrow> same k k''"
    and get_put: "invar m \<Longrightarrow> get k' (put k v m) = (if same k' k then Some v else get k' m)"
    and get_del: "invar m \<Longrightarrow> get k' (del k m) = (if same k' k then None else get k' m)"
    and invar_put: "invar m \<Longrightarrow> invar (put k v m)"
    and invar_del: "invar m \<Longrightarrow> invar (del k m)"
begin

lemma put_get_same: "invar m \<Longrightarrow> get k (put k v m) = Some v"
  by (simp add: get_put same_refl)

lemma put_put_other:
  "invar m \<Longrightarrow> \<not> same k k' \<Longrightarrow> get q (put k v (put k' v' m)) = get q (put k' v' (put k v m))"
  by (auto simp: get_put invar_put) (metis same_sym same_trans)

lemma del_put: "invar m \<Longrightarrow> get q (del k (put k v m)) = get q (del k m)"
  by (simp add: get_put get_del invar_put)

end

interpretation hm: keyed_map "\<lambda>k m. hm_get m k" AList.update AList.delete "(=)" "\<lambda>m. True"
  by unfold_locales (auto simp: update_conv delete_conv)

text \<open>
  A sum over the entries of a map changes at an insertion by the difference of the new and
  the replaced entry.
\<close>

definition hm_sum :: "('k \<Rightarrow> 'v \<Rightarrow> int) \<Rightarrow> ('k, 'v) hashmap \<Rightarrow> int" where
  "hm_sum f m = sum_list (map (\<lambda>(k, v). f k v) m)"

definition hm_old :: "('k \<Rightarrow> 'v \<Rightarrow> int) \<Rightarrow> ('k, 'v) hashmap \<Rightarrow> 'k \<Rightarrow> int" where
  "hm_old f m k = (case hm_get m k of None \<Rightarrow> 0 | Some v \<Rightarrow> f k v)"

lemma hm_sum_Nil [simp]: "hm_sum f [] = 0"
  by (simp add: hm_sum_def)

lemma hm_sum_Cons [simp]: "hm_sum f ((k, v) # m) = f k v + hm_sum f m"
  by (simp add: hm_sum_def)

lemma hm_sum_insert: "hm_sum f (hm_insert k v m) = hm_sum f m - hm_old f m k + f k v"
  by (induction m) (auto simp: hm_old_def)

text \<open>The loop that inserts every entry of one map into another.\<close>

lemma hm_get_fold_insert:
  "distinct (map fst ps) \<Longrightarrow>
   hm_get (fold (\<lambda>(k, v). hm_insert k v) ps m) k = (case hm_get ps k of None \<Rightarrow> hm_get m k | Some v \<Rightarrow> Some v)"
proof (induction ps arbitrary: m)
  case Nil
  then show ?case by simp
next
  case (Cons p ps)
  obtain q v where p: "p = (q, v)" by force
  have "hm_get ps q = None" using Cons.prems by (simp add: p map_of_eq_None_iff)
  with Cons show ?case by (auto simp: p split: option.split)
qed

lemma distinct_fold_insert:
  "distinct (map fst m) \<Longrightarrow> distinct (map fst (fold (\<lambda>(k, v). hm_insert k v) ps m))"
  by (induction ps arbitrary: m) (auto simp: distinct_update)

lemma list_all_hm_insert:
  "list_all (\<lambda>(k, v). P v) m \<Longrightarrow> P v \<Longrightarrow> list_all (\<lambda>(k, v). P v) (hm_insert k v m)"
  by (induction m) auto

lemma list_all_fold_insert:
  "list_all (\<lambda>(k, v). P v) m \<Longrightarrow> list_all (\<lambda>(k, v). P v) ps \<Longrightarrow>
   list_all (\<lambda>(k, v). P v) (fold (\<lambda>(k, v). hm_insert k v) ps m)"
  by (induction ps arbitrary: m) (auto simp: list_all_hm_insert)

lemma hm_sum_as_sum:
  assumes "distinct (map fst m)" "finite K" "fst ` set m \<subseteq> K"
  shows "hm_sum f m = (\<Sum>k \<in> K. case hm_get m k of None \<Rightarrow> 0 | Some v \<Rightarrow> f k v)"
  using assms(1,3)
proof (induction m)
  case Nil
  then show ?case by simp
next
  case (Cons x m)
  obtain k v where x: "x = (k, v)" by force
  have fresh: "hm_get m k = None" using Cons.prems by (simp add: x map_of_eq_None_iff)
  have "(\<Sum>k' \<in> K. case hm_get (x # m) k' of None \<Rightarrow> 0 | Some v \<Rightarrow> f k' v) =
      (\<Sum>k' \<in> K. (if k' = k then f k v else 0) + (case hm_get m k' of None \<Rightarrow> 0 | Some v \<Rightarrow> f k' v))"
    by (intro sum.cong) (auto simp: x fresh)
  with Cons assms(2) show ?case by (simp add: x sum.distrib)
qed

lemma hm_sum_insert_other: "(\<And>v. f k v = 0) \<Longrightarrow> hm_sum f (hm_insert k v m) = hm_sum f m"
  by (simp add: hm_sum_insert hm_old_def split: option.splits)

end
