(* ===== verification/Decimal_Lib.thy ===== *)
theory Decimal_Lib
  imports Prelude
begin

text \<open>
  The interface of the third-party crates whose values the engine computes with, above all
  \<open>rust_decimal\<close>. Their code is not part of the repository, so every definition of the model
  takes the operations as an argument \<open>L\<close>, a record \<open>'d decimal_lib\<close> over an arbitrary type
  \<open>'d\<close> of decimals, and the locale \<open>decimal_library\<close> states what the crate documents about them:

  \<^item> a \<open>Decimal\<close> is a 96-bit integer mantissa with a sign and a scale of at most 28, and
    stands for the number \<open>mantissa / 10 ^ scale\<close> (\<open>dec_val\<close>);
  \<^item> \<open>==\<close>, \<open><\<close> and \<open>is_zero\<close> compare these numbers, so \<open>1.0 == 1.00\<close>;
  \<^item> \<open>normalize\<close> keeps the number and strips trailing zeros;
  \<^item> \<open>bigint_range_error\<close> is the text of the conversion error of \<open>num_bigint\<close> (big integers
    themselves are the type \<open>int\<close>) and \<open>uuid_is_nil\<close> the test \<open>Uuid::is_nil\<close> on the 128 bits of
    a UUID; nothing is assumed of them;
  \<^item> \<open>from_str_exact\<close> of a plain decimal numeral with at most 28 fractional digits returns its
    exact value, and an error when the digits need more than 96 bits.

  \<open>ref_decimal\<close> is an executable decimal type that satisfies the locale; it interprets it
  and supplies the concrete inputs of the witnesses.
\<close>

record 'd decimal_lib =
  dec_zero :: 'd
  dec_one :: 'd
  dec_mantissa :: "'d \<Rightarrow> int"
  dec_scale :: "'d \<Rightarrow> nat"
  dec_normalize :: "'d \<Rightarrow> 'd"
  dec_le :: "'d \<Rightarrow> 'd \<Rightarrow> bool"
  dec_is_zero :: "'d \<Rightarrow> bool"
  dec_abs :: "'d \<Rightarrow> 'd"
  dec_from_str_exact :: "string \<Rightarrow> 'd option"
  bigint_range_error :: string
  uuid_is_nil :: "128 word \<Rightarrow> bool"

text \<open>The comparison operators and \<open>Ord::min\<close>, all given by the crate's \<open>Ord\<close> instance.\<close>

definition dec_lt :: "'d decimal_lib \<Rightarrow> 'd \<Rightarrow> 'd \<Rightarrow> bool" where
  "dec_lt L a b \<longleftrightarrow> \<not> dec_le L b a"

definition dec_eq :: "'d decimal_lib \<Rightarrow> 'd \<Rightarrow> 'd \<Rightarrow> bool" where
  "dec_eq L a b \<longleftrightarrow> dec_le L a b \<and> dec_le L b a"

definition dec_min :: "'d decimal_lib \<Rightarrow> 'd \<Rightarrow> 'd \<Rightarrow> 'd" where
  "dec_min L a b = (if dec_le L a b then a else b)"

definition dec_eq_opt :: "'d decimal_lib \<Rightarrow> 'd option \<Rightarrow> 'd option \<Rightarrow> bool" where
  "dec_eq_opt L x y =
     (case (x, y) of (None, None) \<Rightarrow> True | (Some a, Some b) \<Rightarrow> dec_eq L a b | _ \<Rightarrow> False)"

text \<open>The number a decimal stands for.\<close>

definition dec_val :: "'d decimal_lib \<Rightarrow> 'd \<Rightarrow> rat" where
  "dec_val L d = of_int (dec_mantissa L d) / 10 ^ dec_scale L d"

text \<open>A plain numeral: digits, optionally followed by a point and more digits.\<close>

definition numeral_text :: "string \<Rightarrow> string \<Rightarrow> string" where
  "numeral_text i f = (if f = [] then i else i @ CHR ''.'' # f)"

definition is_numeral :: "string \<Rightarrow> string \<Rightarrow> bool" where
  "is_numeral i f \<longleftrightarrow> i \<noteq> [] \<and> list_all is_ascii_digit i \<and> list_all is_ascii_digit f"

locale decimal_library =
  fixes L :: "'d decimal_lib"
  assumes mantissa_bound: "\<bar>dec_mantissa L d\<bar> < 2 ^ 96"
    and scale_bound: "dec_scale L d \<le> 28"
    and zero_val: "dec_val L (dec_zero L) = 0"
    and one_val: "dec_val L (dec_one L) = 1"
    and le_val: "dec_le L a b \<longleftrightarrow> dec_val L a \<le> dec_val L b"
    and is_zero_val: "dec_is_zero L a \<longleftrightarrow> dec_val L a = 0"
    and abs_val: "dec_val L (dec_abs L a) = \<bar>dec_val L a\<bar>"
    and normalize_val: "dec_val L (dec_normalize L a) = dec_val L a"
    and normalize_minimal:
      "dec_scale L (dec_normalize L a) = 0 \<or> \<not> 10 dvd dec_mantissa L (dec_normalize L a)"
    and from_str_exact_val:
      "is_numeral i f \<Longrightarrow> length f \<le> 28 \<Longrightarrow> dec_from_str_exact L (numeral_text i f) = Some d \<Longrightarrow>
       dec_val L d = of_int (digits_val (i @ f)) / 10 ^ length f"
    and from_str_exact_defined:
      "is_numeral i f \<Longrightarrow> length f \<le> 28 \<Longrightarrow>
       (\<exists>d. dec_from_str_exact L (numeral_text i f) = Some d) \<longleftrightarrow> digits_val (i @ f) < 2 ^ 96"
begin

lemma lt_val: "dec_lt L a b \<longleftrightarrow> dec_val L a < dec_val L b"
  by (auto simp: dec_lt_def le_val)

lemma eq_val: "dec_eq L a b \<longleftrightarrow> dec_val L a = dec_val L b"
  by (auto simp: dec_eq_def le_val)

lemma min_val: "dec_val L (dec_min L a b) = min (dec_val L a) (dec_val L b)"
  by (auto simp: dec_min_def le_val)

lemma eq_opt_val: "dec_eq_opt L x y \<longleftrightarrow> map_option (dec_val L) x = map_option (dec_val L) y"
  by (auto simp: dec_eq_opt_def eq_val split: option.splits)

lemmas dec_simps = le_val lt_val eq_val min_val eq_opt_val is_zero_val abs_val zero_val one_val

end

section \<open>An executable instance\<close>

datatype refdec = RefDec int nat

definition ref_wf :: "int \<Rightarrow> nat \<Rightarrow> bool" where
  "ref_wf m s \<longleftrightarrow> \<bar>m\<bar> < 2 ^ 96 \<and> s \<le> 28"

fun ref_mantissa :: "refdec \<Rightarrow> int" where
  "ref_mantissa (RefDec m s) = (if ref_wf m s then m else 0)"

fun ref_scale :: "refdec \<Rightarrow> nat" where
  "ref_scale (RefDec m s) = (if ref_wf m s then s else 0)"

fun ref_strip :: "int \<Rightarrow> nat \<Rightarrow> refdec" where
  "ref_strip m 0 = RefDec m 0"
| "ref_strip m (Suc s) = (if m mod 10 = 0 then ref_strip (m div 10) s else RefDec m (Suc s))"

definition ref_le :: "refdec \<Rightarrow> refdec \<Rightarrow> bool" where
  "ref_le a b \<longleftrightarrow>
     ref_mantissa a * 10 ^ ref_scale b \<le> ref_mantissa b * 10 ^ ref_scale a"

definition ref_parse :: "string \<Rightarrow> string \<Rightarrow> refdec option" where
  "ref_parse i f =
     (if i \<noteq> [] \<and> list_all is_ascii_digit i \<and> list_all is_ascii_digit f \<and>
         ref_wf (digits_val (i @ f)) (length f)
      then Some (RefDec (digits_val (i @ f)) (length f)) else None)"

definition ref_from_str_exact :: "string \<Rightarrow> refdec option" where
  "ref_from_str_exact s =
     ref_parse (takeWhile (\<lambda>c. c \<noteq> CHR ''.'') s) (drop 1 (dropWhile (\<lambda>c. c \<noteq> CHR ''.'') s))"

definition ref_decimal :: "refdec decimal_lib" where
  "ref_decimal =
     \<lparr>dec_zero = RefDec 0 0, dec_one = RefDec 1 0, dec_mantissa = ref_mantissa,
      dec_scale = ref_scale, dec_normalize = (\<lambda>d. ref_strip (ref_mantissa d) (ref_scale d)),
      dec_le = ref_le, dec_is_zero = (\<lambda>d. ref_mantissa d = 0),
      dec_abs = (\<lambda>d. RefDec \<bar>ref_mantissa d\<bar> (ref_scale d)),
      dec_from_str_exact = ref_from_str_exact,
      bigint_range_error = ''out of range conversion regarding big integer attempted'',
      uuid_is_nil = (\<lambda>u. u = 0)\<rparr>"

lemma ref_decimal_sel [simp]:
  "dec_zero ref_decimal = RefDec 0 0"
  "dec_one ref_decimal = RefDec 1 0"
  "dec_mantissa ref_decimal = ref_mantissa"
  "dec_scale ref_decimal = ref_scale"
  "dec_normalize ref_decimal = (\<lambda>d. ref_strip (ref_mantissa d) (ref_scale d))"
  "dec_le ref_decimal = ref_le"
  "dec_is_zero ref_decimal = (\<lambda>d. ref_mantissa d = 0)"
  "dec_abs ref_decimal = (\<lambda>d. RefDec \<bar>ref_mantissa d\<bar> (ref_scale d))"
  "dec_from_str_exact ref_decimal = ref_from_str_exact"
  "uuid_is_nil ref_decimal = (\<lambda>u. u = 0)"
  by (simp_all add: ref_decimal_def)

lemma ref_wf_sel: "ref_wf (ref_mantissa d) (ref_scale d)"
  by (cases d) (simp add: ref_wf_def)

lemma ref_wf_div10: "ref_wf m (Suc s) \<Longrightarrow> ref_wf (m div 10) s"
  by (auto simp: ref_wf_def)

lemma ref_strip_wf:
  "ref_wf m s \<Longrightarrow> ref_wf (ref_mantissa (ref_strip m s)) (ref_scale (ref_strip m s))"
  by (rule ref_wf_sel)

lemma ref_strip_val:
  "ref_wf m s \<Longrightarrow>
   (of_int (ref_mantissa (ref_strip m s)) :: rat) / 10 ^ ref_scale (ref_strip m s) =
   of_int m / 10 ^ s"
proof (induction m s rule: ref_strip.induct)
  case (1 m)
  then show ?case by simp
next
  case (2 m s)
  show ?case
  proof (cases "m mod 10 = 0")
    case True
    with 2 have "(of_int (ref_mantissa (ref_strip (m div 10) s)) :: rat) /
        10 ^ ref_scale (ref_strip (m div 10) s) = of_int (m div 10) / 10 ^ s"
      by (simp add: ref_wf_div10)
    moreover from True obtain k where "m = 10 * k"
      by (metis mod_0_imp_dvd dvdE)
    ultimately show ?thesis using True by simp
  next
    case False
    with 2 show ?thesis by simp
  qed
qed

lemma ref_strip_minimal:
  "ref_wf m s \<Longrightarrow> ref_scale (ref_strip m s) = 0 \<or> \<not> 10 dvd ref_mantissa (ref_strip m s)"
proof (induction m s rule: ref_strip.induct)
  case (1 m)
  then show ?case by simp
next
  case (2 m s)
  then show ?case
    by (cases "m mod 10 = 0") (simp_all add: ref_wf_div10 dvd_eq_mod_eq_0)
qed

lemma ref_from_str_exact_numeral:
  assumes "is_numeral i f"
  shows "ref_from_str_exact (numeral_text i f) = ref_parse i f"
proof -
  have nodot: "\<forall>c \<in> set i. c \<noteq> CHR ''.''"
    using assms by (auto simp: is_numeral_def list_all_iff)
  then have whole: "takeWhile (\<lambda>c. c \<noteq> CHR ''.'') i = i" "dropWhile (\<lambda>c. c \<noteq> CHR ''.'') i = []"
    by (simp_all add: takeWhile_eq_all_conv dropWhile_eq_Nil_conv)
  from nodot show ?thesis
    by (simp add: ref_from_str_exact_def numeral_text_def whole)
qed

lemma ref_parse_iff:
  "is_numeral i f \<Longrightarrow> length f \<le> 28 \<Longrightarrow>
   ref_parse i f = (if digits_val (i @ f) < 2 ^ 96
     then Some (RefDec (digits_val (i @ f)) (length f)) else None)"
  using digits_val_nonneg [of "i @ f"]
  by (auto simp: ref_parse_def is_numeral_def ref_wf_def)

interpretation refd: decimal_library ref_decimal
proof (unfold_locales, goal_cases)
  case (1 d)
  then show ?case using ref_wf_sel [of d] by (simp add: ref_wf_def)
next
  case (2 d)
  then show ?case using ref_wf_sel [of d] by (simp add: ref_wf_def)
next
  case 3
  then show ?case by (simp add: dec_val_def ref_wf_def)
next
  case 4
  then show ?case by (simp add: dec_val_def ref_wf_def)
next
  case (5 a b)
  have "(of_int (ref_mantissa a * 10 ^ ref_scale b) :: rat) \<le> of_int (ref_mantissa b * 10 ^ ref_scale a)
      \<longleftrightarrow> dec_val ref_decimal a \<le> dec_val ref_decimal b"
    by (simp add: dec_val_def field_simps)
  then show ?case by (simp only: ref_decimal_sel ref_le_def of_int_le_iff)
next
  case (6 a)
  then show ?case by (simp add: dec_val_def)
next
  case (7 a)
  then show ?case using ref_wf_sel [of a] by (simp add: dec_val_def ref_wf_def abs_divide)
next
  case (8 a)
  then show ?case
    using ref_strip_val [OF ref_wf_sel [of a]] by (simp add: dec_val_def)
next
  case (9 a)
  then show ?case using ref_strip_minimal [OF ref_wf_sel [of a]] by simp
next
  case (10 i f d)
  moreover have "ref_wf (digits_val (i @ f)) (length f)" if "digits_val (i @ f) < 2 ^ 96"
    using that 10(1,2) digits_val_nonneg [of "i @ f"] by (simp add: ref_wf_def is_numeral_def)
  ultimately show ?case
    by (auto simp: ref_from_str_exact_numeral ref_parse_iff dec_val_def split: if_splits)
next
  case (11 i f)
  then show ?case by (auto simp: ref_from_str_exact_numeral ref_parse_iff)
qed

end
