(* ===== verification/Amount.thy ===== *)
theory Amount
  imports Decimal_Lib
begin

text \<open>
  The exact amount arithmetic of \<open>engine/amount.rs\<close>: values of the store type
  \<open>NUMERIC(30,9)\<close>, computed as integer counts of \<open>10 ^ -9\<close> and never rounded (only \<open>fee\<close>
  rounds, downwards). The definitions follow the source; the lemmas of the locale
  \<open>decimal_library\<close> read every successful operation as an equation between integers, which
  is the only view the later components use.
\<close>

section \<open>Definitions\<close>

definition SCALE :: nat where
  "SCALE = 9"

definition FACTOR :: int where
  "FACTOR = 1000000000"

definition MAX_UNITS :: int where
  "MAX_UNITS = 999999999999999999999999999999"

definition units :: "'d decimal_lib \<Rightarrow> 'd \<Rightarrow> int res" where
  "units L value =
     (let v = dec_normalize L value in
      ensure (dec_le L (dec_zero L) v \<and> dec_scale L v \<le> SCALE)
        ''Invalid settlement precision or negative balance''
        (res_bind (ok_or ''Settlement value exceeds integer range''
                    (checked_mul_i128 (dec_mantissa L v) (10 ^ (SCALE - dec_scale L v))))
           (\<lambda>amount. ensure (amount \<le> MAX_UNITS) ''Settlement value exceeds NUMERIC(30,9)''
              (Inr amount))))"

definition decimal_text :: "int \<Rightarrow> string" where
  "decimal_text amount =
     (let text = int_str (tdiv amount FACTOR) @ CHR ''.'' # zero_padded 9 (tmod amount FACTOR)
      in trim_end_matches (CHR ''.'') (trim_end_matches (CHR ''0'') text))"

definition decimal :: "'d decimal_lib \<Rightarrow> int \<Rightarrow> 'd res" where
  "decimal L amount =
     ok_or ''Settlement balance is not exactly representable as Decimal''
       (dec_from_str_exact L (decimal_text amount))"

definition quote :: "'d decimal_lib \<Rightarrow> 'd \<Rightarrow> 'd \<Rightarrow> 'd res" where
  "quote L price amount =
     res_bind (units L price) (\<lambda>p. res_bind (units L amount) (\<lambda>a.
       let product = p * a in
       ensure (tmod product FACTOR = 0) ''Quote value requires rounding''
         (res_bind (ok_or ''Quote value exceeds settlement range''
                     (i128_try_from (tdiv product FACTOR)))
            (\<lambda>value. ensure (value \<le> MAX_UNITS) ''Quote exceeds NUMERIC(30,9)''
               (decimal L value)))))"

definition add :: "'d decimal_lib \<Rightarrow> 'd \<Rightarrow> 'd \<Rightarrow> 'd res" where
  "add L left right =
     res_bind (units L left) (\<lambda>l. res_bind (units L right) (\<lambda>r.
       res_bind (ok_or ''Amount addition overflow'' (checked_add_i128 l r)) (\<lambda>value.
         ensure (value \<le> MAX_UNITS) ''Amount exceeds NUMERIC(30,9)'' (decimal L value))))"

definition subtract :: "'d decimal_lib \<Rightarrow> 'd \<Rightarrow> 'd \<Rightarrow> 'd res" where
  "subtract L left right =
     res_bind (units L left) (\<lambda>l. res_bind (units L right) (\<lambda>r.
       ensure (0 \<le> l - r) ''Amount would become negative'' (decimal L (l - r))))"

text \<open>The loop \<open>while a != 0 { let r = b % a; b = a; a = r; }\<close>, which leaves \<open>b\<close>.\<close>

function euclid :: "int \<Rightarrow> int \<Rightarrow> int" where
  "euclid a b = (if a \<noteq> 0 then euclid (tmod b a) a else b)"
  by pat_completeness auto
termination
  by (relation "measure (\<lambda>(a, b). nat \<bar>a\<bar>)") (auto simp: abs_tmod_less)

declare euclid.simps [simp del]

definition quantity_for_budget :: "'d decimal_lib \<Rightarrow> 'd \<Rightarrow> 'd \<Rightarrow> 'd \<Rightarrow> 'd res" where
  "quantity_for_budget L budget price remaining =
     res_bind (units L price) (\<lambda>p. ensure (0 < p) ''Invalid maker price''
       (res_bind (units L budget) (\<lambda>b. res_bind (units L remaining) (\<lambda>r.
          res_bind (ok_or (bigint_range_error L) (i128_try_from (min (tdiv (b * FACTOR) p) r)))
            (\<lambda>maximum.
              let step = tdiv FACTOR (euclid (tmod p FACTOR) FACTOR)
              in decimal L (tdiv maximum step * step))))))"

definition fee :: "'d decimal_lib \<Rightarrow> 'd \<Rightarrow> 'd \<Rightarrow> 'd res" where
  "fee L received rate =
     ensure (dec_lt L rate (dec_one L) \<and> dec_scale L (dec_normalize L rate) \<le> 6)
       ''Invalid fee rate''
       (res_bind (units L received) (\<lambda>u. res_bind (units L rate) (\<lambda>r.
          res_bind (ok_or (bigint_range_error L) (i128_try_from (tdiv (u * r) FACTOR)))
            (decimal L))))"

section \<open>The decimal text of an amount\<close>

lemma FACTOR_pos [simp]: "0 < FACTOR" "0 \<le> FACTOR" "FACTOR \<noteq> 0" "\<not> FACTOR < 0" "\<not> FACTOR \<le> 0"
  by (simp_all add: FACTOR_def)

lemma FACTOR_pow: "FACTOR = 10 ^ 9"
  by (simp add: FACTOR_def)

lemma trim_numeral:
  assumes "list_all is_ascii_digit i" "i \<noteq> []" "list_all is_ascii_digit F"
  shows "trim_end_matches (CHR ''.'') (trim_end_matches (CHR ''0'') (i @ CHR ''.'' # F)) =
         numeral_text i (trim_end_matches (CHR ''0'') F)"
proof -
  define f where "f = trim_end_matches (CHR ''0'') F"
  obtain k where "F = f @ replicate k (CHR ''0'')"
    unfolding f_def by (rule trim_end_matches_zeros)
  with assms(3) have f: "list_all is_ascii_digit f" by (auto simp: list_all_iff)
  have step: "trim_end_matches (CHR ''0'') ((i @ [CHR ''.'']) @ F) =
      (if f = [] then i @ [CHR ''.''] else (i @ [CHR ''.'']) @ f)"
    by (subst trim_end_matches_append) (simp add: f_def [symmetric] trim_end_matches_id)
  have dot: "trim_end_matches (CHR ''.'') (i @ [CHR ''.'']) = i"
    using last_digit_not_dot [OF assms(1,2)]
    by (subst trim_end_matches_append) (simp add: trim_end_matches_id, simp add: trim_end_matches_def)
  show ?thesis
  proof (cases "f = []")
    case True
    with step dot show ?thesis by (simp add: numeral_text_def f_def [symmetric])
  next
    case False
    then have "trim_end_matches (CHR ''.'') ((i @ [CHR ''.'']) @ f) = (i @ [CHR ''.'']) @ f"
      using last_digit_not_dot [OF f] by (intro trim_end_matches_id) simp
    with step False show ?thesis by (simp add: numeral_text_def f_def [symmetric])
  qed
qed

lemma trimmed_last_digit:
  assumes "list_all is_ascii_digit F" "trim_end_matches (CHR ''0'') F \<noteq> []"
  shows "\<not> 10 dvd digits_val (i @ trim_end_matches (CHR ''0'') F)"
proof -
  define f where "f = trim_end_matches (CHR ''0'') F"
  obtain k where F: "F = f @ replicate k (CHR ''0'')"
    unfolding f_def by (rule trim_end_matches_zeros)
  from assms(2) obtain g c where g: "f = g @ [c]"
    by (cases f rule: rev_cases) (auto simp: f_def)
  have "c \<noteq> CHR ''0''"
    using last_trim_end_matches [OF assms(2)] g by (simp add: f_def [symmetric])
  moreover have "is_ascii_digit c"
    using assms(1) F g by simp
  ultimately have "digit_val c \<noteq> 0" "0 \<le> digit_val c" "digit_val c < 10"
    using of_char_eq_iff [of c "CHR ''0''", where 'a = int]
    by (auto simp: is_ascii_digit_def digit_val_def)
  moreover have "digits_val (i @ f) = 10 * digits_val (i @ g) + digit_val c"
    using digits_val_snoc [of "i @ g" c] by (simp add: g)
  ultimately show ?thesis
    by (simp add: f_def [symmetric]) presburger
qed

lemma decimal_text_numeral:
  assumes "0 \<le> n"
  obtains i f k where "decimal_text n = numeral_text i f" "is_numeral i f" "length f + k = 9"
    "digits_val (i @ f) * 10 ^ k = n" "f \<noteq> [] \<Longrightarrow> \<not> 10 dvd digits_val (i @ f)"
proof -
  define i where "i = nat_str (n div FACTOR)"
  define F where "F = zero_padded 9 (n mod FACTOR)"
  define f where "f = trim_end_matches (CHR ''0'') F"
  obtain k where F: "F = f @ replicate k (CHR ''0'')"
    unfolding f_def by (rule trim_end_matches_zeros)
  have rest: "0 \<le> n mod FACTOR" "n mod FACTOR < 10 ^ 9"
    by (simp_all add: FACTOR_def)
  have digits: "list_all is_ascii_digit i" "i \<noteq> []" "list_all is_ascii_digit F"
    using assms nat_str_digits zero_padded_digits [OF rest(1)]
    by (simp_all add: i_def F_def pos_imp_zdiv_nonneg_iff)
  have txteq: "decimal_text n = numeral_text i f"
    using trim_numeral [OF digits] assms
    by (simp add: decimal_text_def int_str_def i_def F_def f_def pos_imp_zdiv_neg_iff)
  have len: "length f + k = 9"
    using length_zero_padded [OF rest] F by (simp add: F_def)
  have "digits_val (i @ F) = n"
    using assms length_zero_padded [OF rest]
    by (simp add: digits_val_append i_def F_def digits_val_zero_padded
        pos_imp_zdiv_nonneg_iff FACTOR_def)
  moreover have "digits_val (i @ F) = digits_val (i @ f) * 10 ^ k"
    using digits_val_append [of "i @ f" "replicate k (CHR ''0'')"] by (simp add: F)
  ultimately have val: "digits_val (i @ f) * 10 ^ k = n" by simp
  have "is_numeral i f"
    using digits F by (simp add: is_numeral_def)
  then show thesis
    using that txteq len val trimmed_last_digit [OF digits(3), of i] by (simp add: f_def)
qed

section \<open>Amounts as integers\<close>

lemma in_i128_amount: "0 \<le> x \<Longrightarrow> x \<le> 2 * MAX_UNITS \<Longrightarrow> in_i128 x"
  by (simp add: in_i128_def i128_min_def i128_max_def MAX_UNITS_def)

lemma euclid_gcd: "0 \<le> a \<Longrightarrow> 0 < b \<Longrightarrow> euclid a b = gcd a b"
proof (induction a b rule: euclid.induct)
  case (1 a b)
  show ?case
  proof (cases "a = 0")
    case True
    with 1 show ?thesis by (simp add: euclid.simps)
  next
    case False
    with 1 have "euclid (b mod a) a = gcd (b mod a) a" by simp
    with False 1 show ?thesis
      by (subst euclid.simps) (simp add: gcd_red_int [of b a] gcd.commute [of a])
  qed
qed

text \<open>
  The step of \<open>quantity_for_budget\<close>: a count \<open>n\<close> makes \<open>p * n\<close> a whole number of quote units
  exactly when it is a multiple of \<open>FACTOR / gcd p FACTOR\<close>.
\<close>

lemma dvd_mult_step:
  fixes p F n :: int
  assumes "0 < F"
  shows "F dvd p * n \<longleftrightarrow> (F div gcd p F) dvd n"
proof -
  define g where "g = gcd p F"
  have g: "g > 0" "g dvd p" "g dvd F"
    using assms by (simp_all add: g_def)
  then obtain p' F' where eq: "p = g * p'" "F = g * F'"
    by (auto elim!: dvdE)
  have "coprime p' F'"
    using g(1) by (metis eq g_def gcd_mult_distrib_int abs_of_pos mult_cancel_left2 mult.right_neutral
        less_irrefl coprime_iff_gcd_eq_1)
  then have "F' dvd p' * n \<longleftrightarrow> F' dvd n"
    by (simp add: coprime_commute coprime_dvd_mult_right_iff)
  moreover have "F div gcd p F = F'"
    unfolding g_def [symmetric] using g(1) eq(2) by simp
  ultimately show ?thesis using g(1) eq by (simp add: mult.assoc)
qed

context decimal_library
begin

lemma val_mantissa: "dec_val L v * 10 ^ dec_scale L v = of_int (dec_mantissa L v)"
  by (simp add: dec_val_def)

lemma normalize_scale_iff:
  "dec_scale L (dec_normalize L v) \<le> k \<longleftrightarrow> (\<exists>z::int. dec_val L v * 10 ^ k = of_int z)"
proof -
  define m where "m = dec_mantissa L (dec_normalize L v)"
  define s where "s = dec_scale L (dec_normalize L v)"
  have v: "dec_val L v * 10 ^ s = of_int m"
    using val_mantissa [of "dec_normalize L v"] by (simp add: normalize_val m_def s_def)
  have minimal: "s = 0 \<or> \<not> 10 dvd m"
    unfolding m_def s_def by (rule normalize_minimal)
  show ?thesis unfolding s_def [symmetric]
  proof
    assume "s \<le> k"
    then have "dec_val L v * 10 ^ k = (dec_val L v * 10 ^ s) * 10 ^ (k - s)"
      by (simp add: power_add [symmetric] mult.assoc)
    also have "\<dots> = of_int (m * 10 ^ (k - s))" by (simp add: v)
    finally show "\<exists>z::int. dec_val L v * 10 ^ k = of_int z" ..
  next
    assume "\<exists>z::int. dec_val L v * 10 ^ k = of_int z"
    then obtain z :: int where z: "dec_val L v * 10 ^ k = of_int z" ..
    show "s \<le> k"
    proof (rule ccontr)
      assume "\<not> s \<le> k"
      then obtain j where j: "s = k + Suc j" by (metis add_Suc_right less_iff_Suc_add not_le)
      have "(of_int m :: rat) = (dec_val L v * 10 ^ k) * 10 ^ Suc j"
        by (simp add: v [symmetric] j power_add)
      also have "\<dots> = of_int (z * 10 ^ Suc j)" by (simp add: z)
      finally have "m = z * 10 ^ Suc j" by (simp only: of_int_eq_iff)
      with minimal j show False by simp
    qed
  qed
qed

lemma scaled_mantissa_range: "in_i128 (dec_mantissa L w * 10 ^ (9 - dec_scale L w))"
proof -
  have "(10::int) ^ (9 - dec_scale L w) \<le> 10 ^ 9" by (rule power_increasing) simp_all
  then have "\<bar>dec_mantissa L w * 10 ^ (9 - dec_scale L w)\<bar> \<le> 2 ^ 96 * 10 ^ 9"
    unfolding abs_mult using mantissa_bound [of w] by (intro mult_mono) simp_all
  then show ?thesis by (simp add: in_i128_def i128_min_def i128_max_def abs_le_iff)
qed

lemma units_Inr_iff:
  "units L v = Inr n \<longleftrightarrow> dec_val L v * of_int FACTOR = of_int n \<and> 0 \<le> n \<and> n \<le> MAX_UNITS"
proof -
  define w where "w = dec_normalize L v"
  have w: "dec_val L w = dec_val L v"
    by (simp add: w_def normalize_val)
  define a where "a = dec_mantissa L w * 10 ^ (9 - dec_scale L w)"
  have val: "dec_val L v * of_int FACTOR = of_int a" if "dec_scale L w \<le> 9"
  proof -
    have "dec_val L v * of_int FACTOR =
        (dec_val L w * 10 ^ dec_scale L w) * 10 ^ (9 - dec_scale L w)"
      using that by (simp only: w FACTOR_pow of_int_power of_int_numeral mult.assoc
          flip: power_add) simp
    then show ?thesis by (simp add: val_mantissa a_def)
  qed
  have bound: "in_i128 a"
    unfolding a_def by (rule scaled_mantissa_range)
  have units_eq: "units L v = Inr n \<longleftrightarrow>
      0 \<le> dec_val L v \<and> dec_scale L w \<le> 9 \<and> a = n \<and> a \<le> MAX_UNITS"
    using bound
    by (auto simp: units_def w_def [symmetric] SCALE_def le_val zero_val w checked_mul_i128_def
        a_def [symmetric] ensure_Inr_iff)
  have nonneg: "0 \<le> dec_val L v \<longleftrightarrow> 0 \<le> dec_val L v * of_int FACTOR" by (simp add: zero_le_mult_iff)
  show ?thesis
  proof
    assume "units L v = Inr n"
    with units_eq have sc: "dec_scale L w \<le> 9" and n: "a = n" "a \<le> MAX_UNITS" "0 \<le> dec_val L v"
      by auto
    with val [OF sc] nonneg show "dec_val L v * of_int FACTOR = of_int n \<and> 0 \<le> n \<and> n \<le> MAX_UNITS"
      by simp
  next
    assume *: "dec_val L v * of_int FACTOR = of_int n \<and> 0 \<le> n \<and> n \<le> MAX_UNITS"
    then have sc: "dec_scale L w \<le> 9"
      unfolding w_def normalize_scale_iff by (auto simp: FACTOR_pow)
    with * val [OF sc] have "a = n" by simp
    with * sc nonneg units_eq show "units L v = Inr n" by simp
  qed
qed

lemma units_bounds: "units L v = Inr n \<Longrightarrow> 0 \<le> n \<and> n \<le> MAX_UNITS"
  by (simp add: units_Inr_iff)

lemma units_eq_val: "dec_val L a = dec_val L b \<Longrightarrow> units L a = Inr n \<longleftrightarrow> units L b = Inr n"
  by (simp add: units_Inr_iff)

lemma val_of_units: "units L v = Inr n \<Longrightarrow> dec_val L v = of_int n / of_int FACTOR"
  by (simp add: units_Inr_iff eq_divide_eq)

lemma units_compare:
  assumes "units L a = Inr x" "units L b = Inr y"
  shows "dec_val L a \<le> dec_val L b \<longleftrightarrow> x \<le> y" "dec_val L a < dec_val L b \<longleftrightarrow> x < y"
    "dec_val L a = dec_val L b \<longleftrightarrow> x = y"
  using assms by (simp_all add: val_of_units divide_le_cancel divide_less_cancel)

lemma units_sign:
  assumes "units L a = Inr x"
  shows "dec_val L a \<le> 0 \<longleftrightarrow> x \<le> 0" "0 < dec_val L a \<longleftrightarrow> 0 < x" "dec_val L a = 0 \<longleftrightarrow> x = 0"
  using assms by (simp_all add: val_of_units zero_less_divide_iff divide_le_0_iff)

lemma units_not_Panic [simp]: "units L v \<noteq> Inl (Panic p)"
  by (auto simp: units_def Let_def ensure_def res_bind_Panic_iff)

lemma decimal_not_Panic [simp]: "decimal L n \<noteq> Inl (Panic p)"
  by (simp add: decimal_def)

lemma zero_units [simp]: "units L (dec_zero L) = Inr 0"
  by (simp add: units_Inr_iff zero_val MAX_UNITS_def)

lemma decimal_val:
  assumes "0 \<le> n" "decimal L n = Inr d"
  shows "dec_val L d * of_int FACTOR = of_int n"
proof -
  obtain i f k where t: "decimal_text n = numeral_text i f" "is_numeral i f" "length f + k = 9"
    "digits_val (i @ f) * 10 ^ k = n"
    using assms(1) by (rule decimal_text_numeral)
  then have "dec_val L d = of_int (digits_val (i @ f)) / 10 ^ length f"
    using assms(2) by (intro from_str_exact_val) (auto simp: decimal_def ok_or_Inr_iff)
  then have "dec_val L d * 10 ^ (length f + k) = of_int (digits_val (i @ f)) * 10 ^ k"
    by (simp add: power_add)
  also have "\<dots> = of_int (digits_val (i @ f) * 10 ^ k)" by simp
  finally show ?thesis by (simp only: t(3,4) FACTOR_pow of_int_power of_int_numeral)
qed

lemma decimal_units:
  "0 \<le> n \<Longrightarrow> n \<le> MAX_UNITS \<Longrightarrow> decimal L n = Inr d \<Longrightarrow> units L d = Inr n"
  by (simp add: units_Inr_iff decimal_val)

text \<open>The decimals an amount can be converted to: those whose digits fit 96 bits.\<close>

lemma decimal_defined:
  assumes "0 \<le> n"
  shows "(\<exists>d. decimal L n = Inr d) \<longleftrightarrow> (\<exists>k \<le> 9. 10 ^ k dvd n \<and> n div 10 ^ k < 2 ^ 96)"
proof -
  obtain i f k where t: "decimal_text n = numeral_text i f" "is_numeral i f" "length f + k = 9"
    "digits_val (i @ f) * 10 ^ k = n" and last: "f \<noteq> [] \<Longrightarrow> \<not> 10 dvd digits_val (i @ f)"
    using assms by (rule decimal_text_numeral) blast
  define m where "m = digits_val (i @ f)"
  have n: "n = m * 10 ^ k" using t(4) by (simp add: m_def)
  have m: "0 \<le> m" using t(2) by (simp add: m_def is_numeral_def digits_val_nonneg)
  have defd: "(\<exists>d. decimal L n = Inr d) \<longleftrightarrow> m < 2 ^ 96"
    using from_str_exact_defined [of i f] t
    by (simp add: decimal_def ok_or_Inr_iff m_def)
  have "m < 2 ^ 96" if j: "j \<le> 9" "10 ^ j dvd n" "n div 10 ^ j < 2 ^ 96" for j
  proof (cases "j \<le> k")
    case True
    then have "n div 10 ^ j = m * 10 ^ (k - j)"
      by (simp add: n power_diff div_mult_swap le_imp_power_dvd)
    moreover have "m * 1 \<le> m * 10 ^ (k - j)" using m by (intro mult_left_mono) simp_all
    ultimately show ?thesis using j(3) by simp
  next
    case False
    then obtain r where r: "j = Suc r + k" by (metis add_Suc less_iff_Suc_add not_le add.commute)
    with j(2) n have "10 ^ Suc r dvd m" by (simp only: power_add) simp
    then have "10 dvd m" by (meson dvd_trans dvd_power zero_less_Suc)
    with last have "f = []" by (auto simp: m_def)
    with t(3) False j(1) show ?thesis by simp
  qed
  moreover have "\<exists>j \<le> 9. 10 ^ j dvd n \<and> n div 10 ^ j < 2 ^ 96" if "m < 2 ^ 96"
    using that t(3) by (intro exI [of _ k]) (auto simp: n)
  ultimately show ?thesis using defd by blast
qed

lemma decimal_exists: "0 \<le> n \<Longrightarrow> n < 2 ^ 96 \<Longrightarrow> \<exists>d. decimal L n = Inr d"
  by (subst decimal_defined) (auto intro!: exI [of _ "0::nat"])

section \<open>Successful operations as integer equations\<close>

lemma add_InrE:
  assumes "add L a b = Inr c"
  obtains x y where "units L a = Inr x" "units L b = Inr y" "units L c = Inr (x + y)"
proof -
  from assms obtain x y where xy: "units L a = Inr x" "units L b = Inr y" "x + y \<le> MAX_UNITS"
    and c: "decimal L (x + y) = Inr c"
    by (auto simp: add_def res_bind_Inr_iff ensure_Inr_iff ok_or_Inr_iff checked_add_i128_def
        split: if_splits)
  moreover have "units L c = Inr (x + y)"
    using xy c units_bounds [OF xy(1)] units_bounds [OF xy(2)] by (intro decimal_units) auto
  ultimately show thesis by (intro that)
qed

lemma subtract_InrE:
  assumes "subtract L a b = Inr c"
  obtains x y where "units L a = Inr x" "units L b = Inr y" "units L c = Inr (x - y)" "y \<le> x"
proof -
  from assms obtain x y where xy: "units L a = Inr x" "units L b = Inr y" "y \<le> x"
    and c: "decimal L (x - y) = Inr c"
    by (auto simp: subtract_def res_bind_Inr_iff ensure_Inr_iff)
  moreover have "units L c = Inr (x - y)"
    using xy c units_bounds [OF xy(1)] units_bounds [OF xy(2)] by (intro decimal_units) auto
  ultimately show thesis by (intro that)
qed

lemma quote_InrE:
  assumes "quote L p a = Inr q"
  obtains x y z where "units L p = Inr x" "units L a = Inr y" "units L q = Inr z"
    "x * y = z * FACTOR"
proof -
  from assms obtain x y where xy: "units L p = Inr x" "units L a = Inr y"
    and *: "tmod (x * y) FACTOR = 0" "tdiv (x * y) FACTOR \<le> MAX_UNITS"
      "decimal L (tdiv (x * y) FACTOR) = Inr q"
    by (auto simp: quote_def Let_def res_bind_Inr_iff ensure_Inr_iff ok_or_Inr_iff i128_try_from_def
        split: if_splits)
  have pos: "0 \<le> x * y" using units_bounds xy by (blast intro: mult_nonneg_nonneg)
  with * have "(x * y) div FACTOR * FACTOR = x * y" "units L q = Inr ((x * y) div FACTOR)"
    by (auto simp: pos_imp_zdiv_nonneg_iff intro: decimal_units)
  with xy that show thesis by metis
qed

lemma quote_cong:
  assumes "dec_val L p = dec_val L p'" "dec_val L a = dec_val L a'" "quote L p a = Inr q"
  shows "quote L p' a' = Inr q"
  using assms(3) unfolding quote_def
  by (auto simp: res_bind_Inr_iff units_eq_val [OF assms(1)] units_eq_val [OF assms(2)])

lemma fee_InrE:
  assumes "fee L v r = Inr c"
  obtains x y where "units L v = Inr x" "units L r = Inr y" "y < FACTOR"
    "units L c = Inr (x * y div FACTOR)" "x * y div FACTOR \<le> x"
proof -
  from assms obtain x y where xy: "units L v = Inr x" "units L r = Inr y"
    and r: "dec_val L r < 1" and c: "decimal L (tdiv (x * y) FACTOR) = Inr c"
    by (auto simp: fee_def dec_simps res_bind_Inr_iff ensure_Inr_iff ok_or_Inr_iff
        i128_try_from_def split: if_splits)
  have b: "0 \<le> x" "x \<le> MAX_UNITS" "0 \<le> y" using units_bounds xy by blast+
  have "(of_int y :: rat) < of_int FACTOR"
    using r val_of_units [OF xy(2)] by (simp add: divide_less_eq)
  then have y: "y < FACTOR" by (simp only: of_int_less_iff)
  have "x * y \<le> x * FACTOR" using b y by (intro mult_left_mono) auto
  then have le: "x * y div FACTOR \<le> x" using zdiv_mono1 [of "x * y" "x * FACTOR" FACTOR] by simp
  have "units L c = Inr (x * y div FACTOR)"
    using c b le by (intro decimal_units) (auto simp: pos_imp_zdiv_nonneg_iff)
  with xy y le show thesis by (intro that)
qed

lemma quantity_for_budget_InrE:
  assumes "quantity_for_budget L b p r = Inr q"
  obtains x y z w where "units L b = Inr x" "units L p = Inr y" "units L r = Inr z" "0 < y"
    "units L q = Inr w" "w \<le> z" "y * w \<le> x * FACTOR" "FACTOR dvd y * w"
    "\<And>n. n \<le> z \<Longrightarrow> y * n \<le> x * FACTOR \<Longrightarrow> FACTOR dvd y * n \<Longrightarrow> n \<le> w"
proof -
  from assms obtain x y z where u: "units L b = Inr x" "units L p = Inr y" "units L r = Inr z"
    and y: "0 < y" and q: "decimal L (tdiv (min (tdiv (x * FACTOR) y) z)
        (tdiv FACTOR (euclid (tmod y FACTOR) FACTOR)) *
        tdiv FACTOR (euclid (tmod y FACTOR) FACTOR)) = Inr q"
    by (auto simp: quantity_for_budget_def Let_def res_bind_Inr_iff ensure_Inr_iff ok_or_Inr_iff
        i128_try_from_def split: if_splits)
  have b: "0 \<le> x" "0 \<le> z" "z \<le> MAX_UNITS" using units_bounds u by blast+
  define g where "g = gcd y FACTOR"
  have loop: "euclid (tmod y FACTOR) FACTOR = g"
    using y by (simp add: euclid_gcd g_def gcd_red_int [of y FACTOR]
        gcd.commute [of FACTOR])
  have g: "0 < g" "g dvd FACTOR" by (simp_all add: g_def)
  define step where "step = FACTOR div g"
  define m where "m = min (x * FACTOR div y) z"
  define w where "w = m div step * step"
  have step: "0 < step" using g by (simp add: step_def pos_imp_zdiv_pos_iff zdvd_imp_le)
  have m: "0 \<le> m" "m \<le> z" "y * m \<le> x * FACTOR"
  proof -
    have "y * (x * FACTOR div y) \<le> x * FACTOR"
      using y by (simp add: minus_mod_eq_mult_div [symmetric])
    moreover have "y * m \<le> y * (x * FACTOR div y)" using y by (simp add: m_def)
    ultimately show "y * m \<le> x * FACTOR" by simp
  qed (use b y in \<open>auto simp: m_def pos_imp_zdiv_nonneg_iff\<close>)
  have w: "0 \<le> w" "w \<le> m"
    using m(1) step zmod_le_nonneg_dividend [of m step]
    by (simp_all add: w_def pos_imp_zdiv_nonneg_iff minus_mod_eq_div_mult [symmetric])
  have "decimal L w = Inr q"
    using q y m(1) step loop b g
    by (simp add: w_def m_def step_def pos_imp_zdiv_nonneg_iff)
  then have qw: "units L q = Inr w" using w m b by (intro decimal_units) auto
  have budget: "y * w \<le> x * FACTOR"
    using w(2) y m(3) by (meson mult_left_mono order.trans less_imp_le)
  have exact: "FACTOR dvd y * w"
    by (simp add: dvd_mult_step g_def [symmetric] step_def [symmetric] w_def)
  have maximal: "n \<le> w" if n: "n \<le> z" "y * n \<le> x * FACTOR" "FACTOR dvd y * n" for n
  proof -
    from n(3) have "step dvd n" by (simp add: dvd_mult_step g_def step_def)
    moreover have "n \<le> x * FACTOR div y"
      using y n(2) by (metis zdiv_mono1 nonzero_mult_div_cancel_left less_irrefl)
    ultimately show ?thesis
      using n(1) step zdiv_mono1 [of n m step]
      by (auto simp: w_def m_def elim!: dvdE intro: mult_right_mono)
  qed
  show thesis
    by (rule that [OF u y qw _ budget exact maximal]) (use w(2) m(2) in simp_all)
qed

lemma units_no_overflow: "units L v \<noteq> Inl (Error ''Settlement value exceeds integer range'')"
  using scaled_mantissa_range [of "dec_normalize L v"]
  by (simp add: units_def Let_def SCALE_def checked_mul_i128_def ensure_def)

lemma decimal_of_units:
  assumes "units L v = Inr n"
  shows "\<exists>d. decimal L n = Inr d \<and> dec_val L d = dec_val L v"
proof -
  define w where "w = dec_normalize L v"
  define j where "j = 9 - dec_scale L w"
  have v: "dec_val L v * of_int FACTOR = of_int n" "0 \<le> n" "n \<le> MAX_UNITS"
    using assms by (simp_all add: units_Inr_iff)
  then have s: "dec_scale L w \<le> 9"
    unfolding w_def normalize_scale_iff by (auto simp: FACTOR_pow)
  have "(10 :: rat) ^ 9 = 10 ^ dec_scale L w * 10 ^ j" using s by (simp add: j_def flip: power_add)
  then have "(of_int n :: rat) = (dec_val L w * 10 ^ dec_scale L w) * 10 ^ j"
    using v(1) by (simp add: w_def normalize_val FACTOR_pow mult.assoc)
  also have "\<dots> = of_int (dec_mantissa L w * 10 ^ j)" by (simp add: val_mantissa)
  finally have n: "n = dec_mantissa L w * 10 ^ j" by (simp only: of_int_eq_iff)
  then have "\<exists>j \<le> 9. 10 ^ j dvd n \<and> n div 10 ^ j < 2 ^ 96"
    using mantissa_bound [of w] by (intro exI [of _ j]) (simp add: j_def)
  then obtain d where d: "decimal L n = Inr d" using decimal_defined v(2) by blast
  moreover have "dec_val L d = dec_val L v"
    using val_of_units [OF assms] val_of_units [OF decimal_units [OF _ _ d]] v by simp
  ultimately show ?thesis by blast
qed

lemma add_subtract_inverse:
  assumes "add L a b = Inr c"
  shows "\<exists>d. subtract L c b = Inr d \<and> dec_val L d = dec_val L a"
proof -
  obtain x y where u: "units L a = Inr x" "units L b = Inr y" "units L c = Inr (x + y)"
    using assms by (rule add_InrE)
  obtain d where "decimal L x = Inr d" "dec_val L d = dec_val L a"
    using decimal_of_units [OF u(1)] by auto
  with u units_bounds [OF u(1)] show ?thesis by (simp add: subtract_def)
qed

lemma add_val: "add L a b = Inr c \<Longrightarrow> dec_val L c = dec_val L a + dec_val L b"
  by (erule add_InrE) (simp add: val_of_units add_divide_distrib)

lemma subtract_val: "subtract L a b = Inr c \<Longrightarrow> dec_val L c = dec_val L a - dec_val L b"
  by (erule subtract_InrE) (simp add: val_of_units diff_divide_distrib)

lemma quote_val:
  assumes "quote L p a = Inr q"
  shows "dec_val L q = dec_val L p * dec_val L a"
proof -
  obtain x y z where u: "units L p = Inr x" "units L a = Inr y" "units L q = Inr z"
    and eq: "x * y = z * FACTOR"
    using assms by (rule quote_InrE)
  have "(of_int x * of_int y :: rat) = of_int z * of_int FACTOR"
    using arg_cong [OF eq, of "of_int :: int \<Rightarrow> rat"] by simp
  then show ?thesis using u by (simp add: val_of_units)
qed

lemma quote_not_Panic: "quote L p a \<noteq> Inl (Panic e)"
  by (auto simp: quote_def res_bind_Panic_iff ensure_Panic_iff units_not_Panic decimal_not_Panic Let_def)

lemma fee_not_Panic: "fee L v r \<noteq> Inl (Panic e)"
  by (auto simp: fee_def res_bind_Panic_iff ensure_Panic_iff)

lemma quote_rounding:
  assumes "units L p = Inr x" "units L a = Inr y" "\<not> FACTOR dvd x * y"
  shows "quote L p a = Inl (Error ''Quote value requires rounding'')"
proof -
  have "0 \<le> x * y" using units_bounds assms by (blast intro: mult_nonneg_nonneg)
  then show ?thesis using assms by (simp add: quote_def dvd_eq_mod_eq_0)
qed

lemma fee_val:
  assumes "fee L v r = Inr c"
  shows "dec_val L c \<le> dec_val L v * dec_val L r"
    and "dec_val L v * dec_val L r < dec_val L c + 1 / of_int FACTOR"
    and "0 \<le> dec_val L c" "dec_val L c \<le> dec_val L v"
proof -
  obtain x y where u: "units L v = Inr x" "units L r = Inr y"
    "units L c = Inr (x * y div FACTOR)" "x * y div FACTOR \<le> x"
    using assms by (rule fee_InrE)
  define q where "q = x * y div FACTOR"
  have "q * FACTOR \<le> x * y" "x * y < q * FACTOR + FACTOR"
    unfolding q_def using pos_mod_bound [of FACTOR "x * y"] pos_mod_sign [of FACTOR "x * y"]
    by (simp_all add: minus_mod_eq_div_mult [symmetric])
  then have r: "(of_int (q * FACTOR) :: rat) \<le> of_int (x * y)"
    "(of_int (x * y) :: rat) < of_int (q * FACTOR + FACTOR)"
    by (simp_all only: of_int_le_iff of_int_less_iff)
  show "dec_val L c \<le> dec_val L v * dec_val L r"
    using r(1) u by (simp add: val_of_units q_def [symmetric] field_simps)
  show "dec_val L v * dec_val L r < dec_val L c + 1 / of_int FACTOR"
    using r(2) u by (simp add: val_of_units q_def [symmetric] field_simps)
  show "0 \<le> dec_val L c" "dec_val L c \<le> dec_val L v"
    using u units_bounds [OF u(3)] by (simp_all add: val_of_units divide_right_mono)
qed

end

section \<open>Properties\<close>

text \<open>
  C39. \<open>amount::units\<close> accepts a decimal exactly when it is a non-negative whole number of
  \<open>10 ^ -9\<close> within \<open>NUMERIC(30,9)\<close> and returns that number; its \<open>i128\<close> multiplication never
  overflows. Every accepted decimal is rendered by \<open>amount::decimal\<close> as a numerically equal
  decimal, and what \<open>decimal\<close> renders from a count in range is read back as that count.
\<close>

theorem units_decimal_roundtrip:
  assumes "decimal_library L"
  shows "(units L v = Inr n \<longleftrightarrow>
      dec_val L v * of_int FACTOR = of_int n \<and> 0 \<le> n \<and> n \<le> MAX_UNITS) \<and>
    units L v \<noteq> Inl (Error ''Settlement value exceeds integer range'') \<and>
    (units L v = Inr n \<longrightarrow> (\<exists>d. decimal L n = Inr d \<and> dec_eq L d v)) \<and>
    (0 \<le> m \<and> m \<le> MAX_UNITS \<and> decimal L m = Inr d \<longrightarrow> units L d = Inr m)"
  using decimal_library.units_no_overflow [OF assms] decimal_library.units_Inr_iff [OF assms]
    decimal_library.decimal_of_units [OF assms] decimal_library.decimal_units [OF assms]
  unfolding decimal_library.eq_val [OF assms] by blast

theorem units_decimal_roundtrip_witness:
  "units ref_decimal (RefDec 1250 3) = Inr 1250000000 \<and>
   (\<exists>d. decimal ref_decimal 1250000000 = Inr d \<and> dec_eq ref_decimal d (RefDec 1250 3))"
proof
  show u: "units ref_decimal (RefDec 1250 3) = Inr 1250000000" by code_simp
  show "\<exists>d. decimal ref_decimal 1250000000 = Inr d \<and> dec_eq ref_decimal d (RefDec 1250 3)"
    using units_decimal_roundtrip [OF refd.decimal_library_axioms] u by blast
qed

text \<open>
  \<open>amount::add\<close> and \<open>amount::subtract\<close> are exact on success, a subtraction undoes an
  addition, and a subtraction below zero is the error the callers report.
\<close>

theorem add_subtract_exact:
  assumes "decimal_library L"
  shows "(add L a b = Inr c \<longrightarrow> dec_val L c = dec_val L a + dec_val L b) \<and>
    (subtract L a b = Inr c \<longrightarrow> dec_val L c = dec_val L a - dec_val L b) \<and>
    (add L a b = Inr c \<longrightarrow> (\<exists>d. subtract L c b = Inr d \<and> dec_eq L d a)) \<and>
    (units L a = Inr x \<and> units L b = Inr y \<and> x < y \<longrightarrow>
      subtract L a b = Inl (Error ''Amount would become negative''))"
  using decimal_library.add_val [OF assms] decimal_library.subtract_val [OF assms]
    decimal_library.add_subtract_inverse [OF assms]
  by (simp add: decimal_library.eq_val [OF assms] subtract_def)

text \<open>
  \<open>amount::quote\<close> returns the exact product of price and quantity or an error, and refuses
  a product that is not a whole number of \<open>10 ^ -9\<close>: no settlement amount is rounded.
\<close>

theorem quote_exact:
  assumes "decimal_library L"
  shows "(quote L p a = Inr q \<longrightarrow> dec_val L q = dec_val L p * dec_val L a) \<and>
    (units L p = Inr x \<and> units L a = Inr y \<and> \<not> FACTOR dvd x * y \<longrightarrow>
      quote L p a = Inl (Error ''Quote value requires rounding''))"
  using decimal_library.quote_val [OF assms] decimal_library.quote_rounding [OF assms] by blast

text \<open>
  C38. \<open>amount::quantity_for_budget\<close> returns the largest quantity that the budget pays exactly:
  it is at most what the maker has left, costs a whole number of quote units, never costs more
  than the budget, and no larger quantity does all three.
\<close>

theorem quantity_for_budget_optimal:
  assumes "decimal_library L" and "quantity_for_budget L budget price remaining = Inr q"
  obtains b p r w where "units L budget = Inr b" "units L price = Inr p" "units L remaining = Inr r"
    "units L q = Inr w" "0 < p" "w \<le> r" "p * w \<le> b * FACTOR" "FACTOR dvd p * w"
    "\<And>n. n \<le> r \<Longrightarrow> p * n \<le> b * FACTOR \<Longrightarrow> FACTOR dvd p * n \<Longrightarrow> n \<le> w"
  using decimal_library.quantity_for_budget_InrE [OF assms] by metis

theorem quantity_for_budget_optimal_witness:
  "quantity_for_budget ref_decimal (RefDec 10 0) (RefDec 25 1) (RefDec 5 0) = Inr (RefDec 4 0) \<and>
   (\<exists>b p w. units ref_decimal (RefDec 4 0) = Inr w \<and> units ref_decimal (RefDec 25 1) = Inr p \<and>
      units ref_decimal (RefDec 10 0) = Inr b \<and> p * w \<le> b * FACTOR)"
proof
  show q: "quantity_for_budget ref_decimal (RefDec 10 0) (RefDec 25 1) (RefDec 5 0) = Inr (RefDec 4 0)"
    by code_simp
  show "\<exists>b p w. units ref_decimal (RefDec 4 0) = Inr w \<and> units ref_decimal (RefDec 25 1) = Inr p \<and>
      units ref_decimal (RefDec 10 0) = Inr b \<and> p * w \<le> b * FACTOR"
    by (rule quantity_for_budget_optimal [OF refd.decimal_library_axioms q]) blast
qed

text \<open>
  C40. \<open>amount::fee\<close> is the exact product of the received amount and the rate rounded down to
  \<open>10 ^ -9\<close>, so a fee is never negative, never more than the received amount, and never
  over-charges.
\<close>

theorem fee_floor:
  assumes "decimal_library L" and "fee L received rate = Inr c"
  shows "dec_val L c \<le> dec_val L received * dec_val L rate \<and>
    dec_val L received * dec_val L rate < dec_val L c + 1 / of_int FACTOR \<and>
    0 \<le> dec_val L c \<and> dec_val L c \<le> dec_val L received"
  using decimal_library.fee_val [OF assms] by blast

theorem fee_floor_witness:
  "fee ref_decimal (RefDec 1 9) (RefDec 1 1) = Inr (RefDec 0 0) \<and>
   dec_val ref_decimal (RefDec 0 0) \<le> dec_val ref_decimal (RefDec 1 9)"
proof
  show f: "fee ref_decimal (RefDec 1 9) (RefDec 1 1) = Inr (RefDec 0 0)" by code_simp
  show "dec_val ref_decimal (RefDec 0 0) \<le> dec_val ref_decimal (RefDec 1 9)"
    using fee_floor [OF refd.decimal_library_axioms f] by blast
qed

end
