(* ===== verification/Types.thy ===== *)
theory Types
  imports Amount
begin

text \<open>
  The engine's data types (\<open>engine/types.rs\<close>): trading pairs, order entries, match results
  and order states. A record field carries a prefix (\<open>o_\<close> for \<open>OrderEntry\<close>, \<open>m_\<close> for
  \<open>MatchResult\<close>, \<open>tp_\<close> for \<open>TradingPair\<close>) because records of one theory share a name
  space. Amounts have the abstract decimal type \<open>'d\<close>; a timestamp is an opaque integer. The
  derived \<open>PartialEq\<close> of a struct with decimals compares them numerically, so it is spelt
  out (\<open>order_entry_eq\<close>) instead of using HOL equality.
\<close>

type_synonym datetime = int

record TradingPair =
  tp_base_mint :: string
  tp_quote_mint :: string

definition TradingPair_new :: "string \<Rightarrow> string \<Rightarrow> TradingPair" where
  "TradingPair_new bm qm = \<lparr>tp_base_mint = bm, tp_quote_mint = qm\<rparr>"

definition TradingPair_to_string :: "TradingPair \<Rightarrow> string" where
  "TradingPair_to_string p = tp_base_mint p @ ''/'' @ tp_quote_mint p"

record 'd OrderEntry =
  o_fee_rate :: 'd
  o_id :: u64
  o_user_id :: u64
  o_order_type :: string
  o_order_side :: string
  o_base_mint :: string
  o_quote_mint :: string
  o_price :: "'d option"
  o_amount :: 'd
  o_quote_amount :: "'d option"
  o_filled_amount :: 'd
  o_remaining_amount :: 'd
  o_remaining_quote_amount :: "'d option"
  o_created_at :: datetime

definition is_fully_filled :: "'d decimal_lib \<Rightarrow> 'd OrderEntry \<Rightarrow> bool" where
  "is_fully_filled L e \<longleftrightarrow> dec_eq L (o_remaining_amount e) (dec_zero L)"

definition is_buy :: "'d OrderEntry \<Rightarrow> bool" where
  "is_buy e \<longleftrightarrow> o_order_type e = ''buy''"

definition is_sell :: "'d OrderEntry \<Rightarrow> bool" where
  "is_sell e \<longleftrightarrow> o_order_type e = ''sell''"

definition is_market :: "'d OrderEntry \<Rightarrow> bool" where
  "is_market e \<longleftrightarrow> o_order_side e = ''market''"

definition is_limit :: "'d OrderEntry \<Rightarrow> bool" where
  "is_limit e \<longleftrightarrow> o_order_side e = ''limit''"

text \<open>The derived equality of \<open>OrderEntry\<close>.\<close>

definition order_entry_eq :: "'d decimal_lib \<Rightarrow> 'd OrderEntry \<Rightarrow> 'd OrderEntry \<Rightarrow> bool" where
  "order_entry_eq L a b \<longleftrightarrow>
     dec_eq L (o_fee_rate a) (o_fee_rate b) \<and> o_id a = o_id b \<and> o_user_id a = o_user_id b \<and>
     o_order_type a = o_order_type b \<and> o_order_side a = o_order_side b \<and>
     o_base_mint a = o_base_mint b \<and> o_quote_mint a = o_quote_mint b \<and>
     dec_eq_opt L (o_price a) (o_price b) \<and> dec_eq L (o_amount a) (o_amount b) \<and>
     dec_eq_opt L (o_quote_amount a) (o_quote_amount b) \<and>
     dec_eq L (o_filled_amount a) (o_filled_amount b) \<and>
     dec_eq L (o_remaining_amount a) (o_remaining_amount b) \<and>
     dec_eq_opt L (o_remaining_quote_amount a) (o_remaining_quote_amount b) \<and>
     o_created_at a = o_created_at b"

record 'd MatchResult =
  m_buyer_fee_rate :: 'd
  m_seller_fee_rate :: 'd
  m_buy_order_id :: u64
  m_sell_order_id :: u64
  m_buyer_id :: u64
  m_seller_id :: u64
  m_price :: 'd
  m_amount :: 'd
  m_base_mint :: string
  m_quote_mint :: string

datatype 'd EngineEvent =
    OrderCreated "'d OrderEntry"
  | OrderCancelled u64 u64 TradingPair
  | TradeExecuted "'d MatchResult" u64 u64

datatype OrderStatus = Pending | Partial | Filled | Cancelled

fun OrderStatus_as_str :: "OrderStatus \<Rightarrow> string" where
  "OrderStatus_as_str Pending = ''pending''"
| "OrderStatus_as_str Partial = ''partial''"
| "OrderStatus_as_str Filled = ''filled''"
| "OrderStatus_as_str Cancelled = ''cancelled''"

definition OrderStatus_from_str :: "string \<Rightarrow> OrderStatus option" where
  "OrderStatus_from_str s =
     (if s = ''pending'' then Some Pending else if s = ''partial'' then Some Partial
      else if s = ''filled'' then Some Filled else if s = ''cancelled'' then Some Cancelled
      else None)"

lemma OrderStatus_roundtrip: "OrderStatus_from_str s = Some st \<longleftrightarrow> s = OrderStatus_as_str st"
  by (cases st) (auto simp: OrderStatus_from_str_def)

context decimal_library
begin

lemma order_entry_eq_refl: "order_entry_eq L a a"
  by (auto simp: order_entry_eq_def dec_simps)

lemma order_entry_eq_sym: "order_entry_eq L a b \<Longrightarrow> order_entry_eq L b a"
  by (auto simp: order_entry_eq_def dec_simps)

lemma order_entry_eq_trans:
  "order_entry_eq L a b \<Longrightarrow> order_entry_eq L b c \<Longrightarrow> order_entry_eq L a c"
  by (auto simp: order_entry_eq_def dec_simps)

end

end
