(* ===== verification/OrderBook.thy ===== *)
theory OrderBook
  imports Types "HOL-Library.Multiset"
begin

text \<open>
  The in-memory order book (\<open>engine/orderbook.rs\<close>). \<open>BTreeMap<Decimal, V>\<close> is a list of
  entries in ascending key order; its operations compare keys with the \<open>Ord\<close> of \<open>Decimal\<close>, so
  \<open>100\<close> and \<open>100.00\<close> are one price level, and a replaced entry keeps the key first stored.
  A \<open>VecDeque\<close> is a list with its front first. \<open>usize\<close> counters are natural numbers, and a
  subtraction below zero is the panic of the checked profile.

  The price map is an instance of the interface \<open>keyed_map\<close> of the prelude. The invariant \<open>side_ok\<close> and the abstraction of a
  side to its queues carry the rest.
\<close>

section \<open>Ordered maps over decimals\<close>

fun bt_get :: "'d decimal_lib \<Rightarrow> 'd \<Rightarrow> ('d \<times> 'v) list \<Rightarrow> 'v option" where
  "bt_get L k [] = None"
| "bt_get L k ((k', v) # m) = (if dec_eq L k k' then Some v else bt_get L k m)"

fun bt_put :: "'d decimal_lib \<Rightarrow> 'd \<Rightarrow> 'v \<Rightarrow> ('d \<times> 'v) list \<Rightarrow> ('d \<times> 'v) list" where
  "bt_put L k v [] = [(k, v)]"
| "bt_put L k v ((k', v') # m) =
     (if dec_lt L k k' then (k, v) # (k', v') # m
      else if dec_eq L k k' then (k', v) # m
      else (k', v') # bt_put L k v m)"

fun bt_remove :: "'d decimal_lib \<Rightarrow> 'd \<Rightarrow> ('d \<times> 'v) list \<Rightarrow> ('d \<times> 'v) list" where
  "bt_remove L k [] = []"
| "bt_remove L k ((k', v) # m) = (if dec_eq L k k' then m else (k', v) # bt_remove L k m)"

definition bt_ok :: "'d decimal_lib \<Rightarrow> ('d \<times> 'v) list \<Rightarrow> bool" where
  "bt_ok L m \<longleftrightarrow> sorted_wrt (dec_lt L) (map fst m)"

lemma bt_put_keys: "k' \<in> set (map fst (bt_put L k v m)) \<Longrightarrow> k' = k \<or> k' \<in> set (map fst m)"
proof (induction m)
  case Nil
  then show ?case by simp
next
  case (Cons x m)
  then show ?case by (cases x) (auto simp del: set_map split: if_splits)
qed

lemma bt_remove_subset: "x \<in> set (bt_remove L k m) \<Longrightarrow> x \<in> set m"
  by (induction m) (auto split: if_splits)

context decimal_library
begin

lemma bt_ok_Nil [simp]: "bt_ok L []"
  by (simp add: bt_ok_def)

lemma bt_ok_Cons:
  "bt_ok L ((k, v) # m) \<longleftrightarrow> (\<forall>k' \<in> set (map fst m). dec_val L k < dec_val L k') \<and> bt_ok L m"
  by (simp add: bt_ok_def lt_val)

lemma bt_ok_head: "bt_ok L ((k, v) # m) \<Longrightarrow> (k', w) \<in> set m \<Longrightarrow> dec_val L k < dec_val L k'"
  by (force simp: bt_ok_Cons)

lemma bt_get_sound: "bt_get L k m = Some v \<Longrightarrow> \<exists>k'. dec_val L k' = dec_val L k \<and> (k', v) \<in> set m"
  by (induction m) (auto simp: dec_simps split: if_splits)

lemma bt_get_below: "\<forall>k' \<in> set (map fst m). dec_val L k < dec_val L k' \<Longrightarrow> bt_get L k m = None"
  by (induction m) (auto simp: dec_simps)

lemma bt_get_complete: "bt_ok L m \<Longrightarrow> (k', v) \<in> set m \<Longrightarrow> dec_val L k' = dec_val L k \<Longrightarrow> bt_get L k m = Some v"
proof (induction m)
  case Nil
  then show ?case by simp
next
  case (Cons x m)
  then show ?case
    using bt_ok_head [of "fst x" "snd x" m k' v] by (cases x) (auto simp: bt_ok_Cons dec_simps)
qed

lemma bt_get_cong: "dec_val L k = dec_val L k' \<Longrightarrow> bt_get L k m = bt_get L k' m"
  by (induction m) (auto simp: dec_simps)

lemma bt_get_iff:
  "bt_ok L m \<Longrightarrow> bt_get L k m = Some v \<longleftrightarrow> (\<exists>k'. dec_val L k' = dec_val L k \<and> (k', v) \<in> set m)"
  by (metis bt_get_sound bt_get_complete)

lemma bt_get_put:
  "bt_ok L m \<Longrightarrow> bt_get L k' (bt_put L k v m) = (if dec_eq L k' k then Some v else bt_get L k' m)"
proof (induction m)
  case Nil
  then show ?case by simp
next
  case (Cons x m)
  obtain q w where x: "x = (q, w)" by force
  have "bt_get L k' m = None" if "dec_val L k' \<le> dec_val L q"
    using that Cons.prems by (intro bt_get_below) (auto simp: x bt_ok_Cons dec_simps)
  with Cons show ?case by (auto simp: x bt_ok_Cons dec_simps)
qed

lemma bt_get_remove:
  "bt_ok L m \<Longrightarrow> bt_get L k' (bt_remove L k m) = (if dec_eq L k' k then None else bt_get L k' m)"
proof (induction m)
  case Nil
  then show ?case by simp
next
  case (Cons x m)
  obtain q w where x: "x = (q, w)" by force
  have "bt_get L k' m = None" if "dec_val L k' \<le> dec_val L q"
    using that Cons.prems by (intro bt_get_below) (auto simp: x bt_ok_Cons dec_simps)
  with Cons show ?case by (auto simp: x bt_ok_Cons dec_simps)
qed

lemma bt_ok_put: "bt_ok L m \<Longrightarrow> bt_ok L (bt_put L k v m)"
proof (induction m)
  case Nil
  then show ?case by (simp add: bt_ok_Cons)
next
  case (Cons x m)
  obtain q w where x: "x = (q, w)" by force
  from Cons show ?case
    by (auto simp: x bt_ok_Cons dec_simps simp del: set_map dest!: bt_put_keys [of _ L k v m])
qed

lemma bt_ok_remove: "bt_ok L m \<Longrightarrow> bt_ok L (bt_remove L k m)"
proof (induction m)
  case Nil
  then show ?case by simp
next
  case (Cons x m)
  obtain q w where x: "x = (q, w)" by force
  from Cons show ?case
    by (auto simp: x bt_ok_Cons dest: bt_remove_subset)
qed

lemma bt_put_set:
  assumes "bt_ok L m" "(k', w) \<in> set (bt_put L k v m)"
  shows "if dec_val L k' = dec_val L k then w = v else (k', w) \<in> set m"
  using assms
proof (induction m)
  case Nil
  then show ?case by simp
next
  case (Cons x m)
  then show ?case
    using bt_ok_head [of "fst x" "snd x" m k' w]
    by (cases x) (auto simp: bt_ok_Cons dec_simps split: if_splits)
qed

lemma bt_remove_set:
  assumes "bt_ok L m" "(k', w) \<in> set (bt_remove L k m)"
  shows "(k', w) \<in> set m \<and> dec_val L k' \<noteq> dec_val L k"
  using assms
proof (induction m)
  case Nil
  then show ?case by simp
next
  case (Cons x m)
  then show ?case
    using bt_ok_head [of "fst x" "snd x" m k' w]
    by (cases x) (auto simp: bt_ok_Cons dec_simps split: if_splits)
qed

end

sublocale decimal_library \<subseteq> levels: keyed_map "bt_get L" "bt_put L" "bt_remove L" "dec_eq L" "bt_ok L"
  by unfold_locales (auto simp: bt_get_put bt_get_remove bt_ok_put bt_ok_remove dec_simps)

section \<open>One side of the book\<close>

record 'd OrderBookSide =
  orders :: "('d \<times> 'd OrderEntry list) list"
  total_orders :: nat

definition OrderBookSide_new :: "'d OrderBookSide" where
  "OrderBookSide_new = \<lparr>orders = [], total_orders = 0\<rparr>"

text \<open>\<open>usize\<close> subtraction.\<close>

definition usize_sub :: "nat \<Rightarrow> nat \<Rightarrow> nat res" where
  "usize_sub a b = (if b \<le> a then Inr (a - b) else Inl (Panic ''attempt to subtract with overflow''))"

definition add_order :: "'d decimal_lib \<Rightarrow> 'd OrderEntry \<Rightarrow> 'd OrderBookSide \<Rightarrow> 'd OrderBookSide res" where
  "add_order L order s =
     res_bind (expect ''Limit order must have price'' (o_price order)) (\<lambda>price.
       let queue = (case bt_get L price (orders s) of None \<Rightarrow> [] | Some q \<Rightarrow> q) in
       Inr (s\<lparr>orders := bt_put L price (queue @ [order]) (orders s),
              total_orders := total_orders s + 1\<rparr>))"

text \<open>\<open>iter().position(..)\<close> followed by \<open>VecDeque::remove\<close>: the first match and the rest.\<close>

fun take_first :: "('a \<Rightarrow> bool) \<Rightarrow> 'a list \<Rightarrow> ('a \<times> 'a list) option" where
  "take_first P [] = None"
| "take_first P (x # xs) =
     (if P x then Some (x, xs)
      else case take_first P xs of None \<Rightarrow> None | Some (y, ys) \<Rightarrow> Some (y, x # ys))"

definition remove_order ::
    "'d decimal_lib \<Rightarrow> u64 \<Rightarrow> 'd \<Rightarrow> 'd OrderBookSide \<Rightarrow> ('d OrderEntry option \<times> 'd OrderBookSide) res" where
  "remove_order L order_id price s =
     (case bt_get L price (orders s) of
        None \<Rightarrow> Inr (None, s)
      | Some queue \<Rightarrow>
          (case take_first (\<lambda>o'. o_id o' = order_id) queue of
             None \<Rightarrow> Inr (None, s)
           | Some (order, rest) \<Rightarrow>
               let levels = (if rest = [] then bt_remove L price (orders s)
                             else bt_put L price rest (orders s)) in
               res_bind (usize_sub (total_orders s) 1) (\<lambda>n.
                 Inr (Some order, s\<lparr>orders := levels, total_orders := n\<rparr>))))"

text \<open>
  The two loops of \<open>apply_prepared_orders\<close>: the first drains the queue until every change has
  met its maker, the second moves the drained prefix back to the front.
\<close>

fun drain_changed ::
    "'d decimal_lib \<Rightarrow> (u64, 'd OrderEntry) hashmap \<Rightarrow> 'd OrderEntry list \<Rightarrow> 'd OrderEntry list \<Rightarrow>
     ('d OrderEntry list \<times> 'd OrderEntry list) res" where
  "drain_changed L [] queue pfx = Inr (queue, pfx)"
| "drain_changed L (c # cs) [] pfx = Inl (Panic ''planned maker remains during exclusive borrow'')"
| "drain_changed L (c # cs) (order # queue) pfx =
     (case hm_get (c # cs) (o_id order) of
        Some nxt \<Rightarrow>
          (if dec_lt L (dec_zero L) (o_remaining_amount nxt)
           then drain_changed L (hm_remove (o_id order) (c # cs)) queue (pfx @ [nxt])
           else drain_changed L (hm_remove (o_id order) (c # cs)) queue pfx)
      | None \<Rightarrow> drain_changed L (c # cs) queue (pfx @ [order]))"

function restore_prefix :: "'a list \<Rightarrow> 'a list \<Rightarrow> 'a list" where
  "restore_prefix pfx queue =
     (if pfx = [] then queue else restore_prefix (butlast pfx) (last pfx # queue))"
  by pat_completeness auto
termination
  by (relation "measure (\<lambda>(pfx, queue). length pfx)") auto

declare restore_prefix.simps [simp del]

definition apply_prepared_level ::
    "'d decimal_lib \<Rightarrow> 'd \<times> (u64, 'd OrderEntry) hashmap \<Rightarrow> 'd OrderBookSide \<Rightarrow> 'd OrderBookSide res" where
  "apply_prepared_level L change s =
     (case change of (price, changed) \<Rightarrow>
        res_bind (expect ''planned price remains during exclusive borrow'' (bt_get L price (orders s)))
          (\<lambda>queue0. res_bind (drain_changed L changed queue0 []) (\<lambda>(queue1, pfx).
             let queue = restore_prefix pfx queue1 in
             res_bind (usize_sub (length queue0) (length queue)) (\<lambda>gone.
               res_bind (usize_sub (total_orders s) gone) (\<lambda>n.
                 Inr (s\<lparr>orders := (if queue = [] then bt_remove L price (orders s)
                                   else bt_put L price queue (orders s)),
                        total_orders := n\<rparr>))))))"

definition apply_prepared_orders ::
    "'d decimal_lib \<Rightarrow> ('d \<times> (u64, 'd OrderEntry) hashmap) list \<Rightarrow> 'd OrderBookSide \<Rightarrow>
     'd OrderBookSide res" where
  "apply_prepared_orders L changes s = res_fold (apply_prepared_level L) changes s"

definition get_best_price :: "bool \<Rightarrow> 'd OrderBookSide \<Rightarrow> 'd option" where
  "get_best_price buy s =
     (case orders s of [] \<Rightarrow> None
      | _ \<Rightarrow> Some (if buy then fst (last (orders s)) else fst (hd (orders s))))"

definition get_orders_at_price :: "'d decimal_lib \<Rightarrow> 'd \<Rightarrow> 'd OrderBookSide \<Rightarrow> 'd OrderEntry list option" where
  "get_orders_at_price L price s = bt_get L price (orders s)"

definition price_levels :: "'d OrderBookSide \<Rightarrow> nat" where
  "price_levels s = length (orders s)"

definition side_is_empty :: "'d OrderBookSide \<Rightarrow> bool" where
  "side_is_empty s \<longleftrightarrow> orders s = []"

section \<open>The two-sided book\<close>

record 'd OrderBook =
  trading_pair :: TradingPair
  buy_orders :: "'d OrderBookSide"
  sell_orders :: "'d OrderBookSide"

definition OrderBook_new :: "TradingPair \<Rightarrow> 'd OrderBook" where
  "OrderBook_new p =
     \<lparr>trading_pair = p, buy_orders = OrderBookSide_new, sell_orders = OrderBookSide_new\<rparr>"

definition book_add_order :: "'d decimal_lib \<Rightarrow> 'd OrderEntry \<Rightarrow> 'd OrderBook \<Rightarrow> 'd OrderBook res" where
  "book_add_order L order b =
     (if o_order_type order = ''buy'' then
        res_bind (add_order L order (buy_orders b)) (\<lambda>s. Inr (b\<lparr>buy_orders := s\<rparr>))
      else if o_order_type order = ''sell'' then
        res_bind (add_order L order (sell_orders b)) (\<lambda>s. Inr (b\<lparr>sell_orders := s\<rparr>))
      else Inr b)"

definition book_remove_order ::
    "'d decimal_lib \<Rightarrow> u64 \<Rightarrow> string \<Rightarrow> 'd \<Rightarrow> 'd OrderBook \<Rightarrow> ('d OrderEntry option \<times> 'd OrderBook) res" where
  "book_remove_order L order_id order_type price b =
     (if order_type = ''buy'' then
        res_bind (remove_order L order_id price (buy_orders b)) (\<lambda>(r, s). Inr (r, b\<lparr>buy_orders := s\<rparr>))
      else if order_type = ''sell'' then
        res_bind (remove_order L order_id price (sell_orders b)) (\<lambda>(r, s). Inr (r, b\<lparr>sell_orders := s\<rparr>))
      else Inr (None, b))"

definition get_best_bid :: "'d OrderBook \<Rightarrow> 'd option" where
  "get_best_bid b = get_best_price True (buy_orders b)"

definition get_best_ask :: "'d OrderBook \<Rightarrow> 'd option" where
  "get_best_ask b = get_best_price False (sell_orders b)"

definition book_is_empty :: "'d OrderBook \<Rightarrow> bool" where
  "book_is_empty b \<longleftrightarrow> side_is_empty (buy_orders b) \<and> side_is_empty (sell_orders b)"

section \<open>The invariant of a side and its abstraction\<close>

definition level_entries :: "('d \<times> 'e list) list \<Rightarrow> 'e list" where
  "level_entries m = concat (map snd m)"

definition side_entries :: "'d OrderBookSide \<Rightarrow> 'd OrderEntry list" where
  "side_entries s = level_entries (orders s)"

text \<open>The abstract view of a side: the queue waiting at a price, oldest order first.\<close>

definition queue_at :: "'d decimal_lib \<Rightarrow> 'd OrderBookSide \<Rightarrow> 'd \<Rightarrow> 'd OrderEntry list" where
  "queue_at L s p = (case bt_get L p (orders s) of None \<Rightarrow> [] | Some q \<Rightarrow> q)"

definition side_ok :: "'d decimal_lib \<Rightarrow> 'd OrderBookSide \<Rightarrow> bool" where
  "side_ok L s \<longleftrightarrow>
     bt_ok L (orders s) \<and>
     (\<forall>(p, q) \<in> set (orders s). q \<noteq> [] \<and> (\<forall>e \<in> set q. dec_eq_opt L (o_price e) (Some p))) \<and>
     total_orders s = length (side_entries s)"

text \<open>What \<open>apply_prepared_orders\<close> means for one queue: replace changed makers, drop the filled.\<close>

fun apply_changes ::
    "'d decimal_lib \<Rightarrow> (u64, 'd OrderEntry) hashmap \<Rightarrow> 'd OrderEntry list \<Rightarrow> 'd OrderEntry list" where
  "apply_changes L changed [] = []"
| "apply_changes L changed (e # queue) =
     (case hm_get changed (o_id e) of None \<Rightarrow> e # apply_changes L changed queue
      | Some n \<Rightarrow> if dec_lt L (dec_zero L) (o_remaining_amount n)
          then n # apply_changes L changed queue else apply_changes L changed queue)"

text \<open>Changes that a plan may hand to \<open>apply_prepared_orders\<close>.\<close>

definition prepared_level_ok ::
    "'d decimal_lib \<Rightarrow> 'd \<Rightarrow> (u64, 'd OrderEntry) hashmap \<Rightarrow> 'd OrderEntry list \<Rightarrow> bool" where
  "prepared_level_ok L p c queue \<longleftrightarrow>
     queue \<noteq> [] \<and> distinct (map o_id queue) \<and> distinct (map fst c) \<and>
     set (map fst c) \<subseteq> set (map o_id queue) \<and>
     (\<forall>(i, e) \<in> set c. dec_eq_opt L (o_price e) (Some p))"

definition prepared_ok ::
    "'d decimal_lib \<Rightarrow> ('d \<times> (u64, 'd OrderEntry) hashmap) list \<Rightarrow> 'd OrderBookSide \<Rightarrow> bool" where
  "prepared_ok L changes s \<longleftrightarrow>
     bt_ok L changes \<and> (\<forall>(p, c) \<in> set changes. prepared_level_ok L p c (queue_at L s p))"

lemma restore_prefix_append: "restore_prefix pfx queue = pfx @ queue"
proof (induction pfx queue rule: restore_prefix.induct)
  case (1 pfx queue)
  then show ?case
    by (cases pfx rule: rev_cases) (simp_all add: restore_prefix.simps [of "_ @ _"] restore_prefix.simps [of "[]"])
qed

lemma take_first_SomeD:
  "take_first P xs = Some (y, ys) \<Longrightarrow>
   \<exists>us vs. xs = us @ y # vs \<and> ys = us @ vs \<and> P y \<and> (\<forall>u \<in> set us. \<not> P u)"
proof (induction xs arbitrary: ys)
  case Nil
  then show ?case by simp
next
  case (Cons x xs)
  show ?case
  proof (cases "P x")
    case True
    with Cons.prems show ?thesis by (intro exI [of _ "[]"] exI [of _ xs]) auto
  next
    case False
    with Cons.prems obtain zs where "take_first P xs = Some (y, zs)" "ys = x # zs"
      by (auto split: option.splits)
    with Cons.IH [of zs] False show ?thesis
      by (metis append_Cons set_ConsD)
  qed
qed

lemma take_first_None: "take_first P xs = None \<longleftrightarrow> (\<forall>x \<in> set xs. \<not> P x)"
  by (induction xs) (auto split: option.splits)

lemma apply_changes_Nil [simp]: "apply_changes L [] queue = queue"
  by (induction queue) simp_all

lemma apply_changes_remove:
  "k \<notin> o_id ` set queue \<Longrightarrow> apply_changes L (hm_remove k changed) queue = apply_changes L changed queue"
  by (induction queue) (auto simp: delete_conv' split: option.splits)

lemma length_apply_changes: "length (apply_changes L changed queue) \<le> length queue"
  by (induction queue) (auto split: option.splits)

text \<open>
  The drain loop reaches the end of its work, and never its \<open>expect\<close>, when every change names an
  order of the queue; then drained prefix and untouched tail together are the queue with the
  changes applied.
\<close>

lemma drain_changed_eq:
  assumes "distinct (map o_id queue)" "set (map fst changed) \<subseteq> o_id ` set queue"
  shows "\<exists>q p. drain_changed L changed queue pfx = Inr (q, p) \<and>
           p @ q = pfx @ apply_changes L changed queue"
  using assms
proof (induction L changed queue pfx rule: drain_changed.induct)
  case (1 L queue pfx)
  then show ?case by simp
next
  case (2 L c cs pfx)
  then show ?case by (cases c) simp
next
  case (3 L c cs order queue pfx)
  let ?cs = "c # cs" and ?id = "o_id order"
  have fresh: "?id \<notin> o_id ` set queue" and dist: "distinct (map o_id queue)"
    using "3.prems" by auto
  have rest: "set (map fst (hm_remove ?id ?cs)) \<subseteq> o_id ` set queue"
    using "3.prems"(2) by (auto simp: AList.delete_eq)
  show ?case
  proof (cases "hm_get ?cs ?id")
    case None
    then have "?id \<notin> set (map fst ?cs)" by (simp only: map_of_eq_None_iff set_map) simp
    then have "set (map fst ?cs) \<subseteq> o_id ` set queue"
      using "3.prems"(2) by (simp only: list.set image_insert) blast
    from "3.IH"(1) [OF None dist this] None show ?thesis by simp
  next
    case (Some nxt)
    then show ?thesis
      using "3.IH"(2) [OF Some _ dist rest] "3.IH"(3) [OF Some _ dist rest]
        apply_changes_remove [OF fresh, of L ?cs]
      by (cases "dec_lt L (dec_zero L) (o_remaining_amount nxt)")
        simp_all
  qed
qed

lemma mset_exchange:
  fixes A :: "'a multiset"
  assumes "A + B = C + D" "C + E = F + G"
  shows "A + (E + B) = F + (G + D)"
proof -
  have "A + (E + B) = (A + B) + E" by (simp add: ac_simps)
  also have "\<dots> = (C + E) + D" by (simp add: assms(1) ac_simps)
  also have "\<dots> = F + (G + D)" by (simp add: assms(2) ac_simps)
  finally show ?thesis .
qed

lemma apply_changes_entries:
  "e \<in> set (apply_changes L changed queue) \<Longrightarrow>
   (e \<in> set queue \<and> hm_get changed (o_id e) = None) \<or>
   (\<exists>x \<in> set queue. hm_get changed (o_id x) = Some e \<and> dec_lt L (dec_zero L) (o_remaining_amount e))"
  by (induction queue) (auto split: option.splits if_splits)

context decimal_library
begin

lemma level_entries_put:
  "bt_ok L m \<Longrightarrow> mset (level_entries (bt_put L k q m)) +
     mset (case bt_get L k m of None \<Rightarrow> [] | Some q \<Rightarrow> q) = mset (level_entries m) + mset q"
proof (induction m)
  case Nil
  then show ?case by (simp add: level_entries_def)
next
  case (Cons x m)
  obtain k' q' where x: "x = (k', q')" by force
  have "bt_get L k m = None" if "dec_val L k < dec_val L k'"
    using that Cons.prems by (intro bt_get_below) (auto simp: x bt_ok_Cons)
  with Cons show ?case
    by (auto simp: x bt_ok_Cons dec_simps level_entries_def union_ac)
qed

lemma level_entries_remove:
  "bt_ok L m \<Longrightarrow> mset (level_entries (bt_remove L k m)) +
     mset (case bt_get L k m of None \<Rightarrow> [] | Some q \<Rightarrow> q) = mset (level_entries m)"
  by (induction m) (auto simp: bt_ok_Cons level_entries_def union_ac)

lemma side_ok_new: "side_ok L OrderBookSide_new"
  by (simp add: side_ok_def OrderBookSide_new_def side_entries_def level_entries_def)

lemma side_okD:
  assumes "side_ok L s"
  shows "bt_ok L (orders s)" "total_orders s = length (side_entries s)"
    and "bt_get L p (orders s) = Some q \<Longrightarrow> q \<noteq> []"
    and "bt_get L p (orders s) = Some q \<Longrightarrow> e \<in> set q \<Longrightarrow> dec_eq_opt L (o_price e) (Some p)"
  using assms by (auto simp: side_ok_def dec_simps dest!: bt_get_sound)

text \<open>
  Every mutation of a side stores a queue at a price and drops the level when the queue is
  empty; \<open>set_queue\<close> names that, and its lemma is what the operations share.
\<close>

lemma set_queue_ok:
  assumes ok: "side_ok L s"
    and prices: "\<And>e. e \<in> set q \<Longrightarrow> dec_eq_opt L (o_price e) (Some p)"
    and m: "m = (if q = [] then bt_remove L p (orders s) else bt_put L p q (orders s))"
    and n: "n + length (queue_at L s p) = total_orders s + length q"
  shows "side_ok L (s\<lparr>orders := m, total_orders := n\<rparr>)"
    and "queue_at L (s\<lparr>orders := m, total_orders := n\<rparr>) x = (if dec_eq L x p then q else queue_at L s x)"
    and "mset (side_entries (s\<lparr>orders := m, total_orders := n\<rparr>)) + mset (queue_at L s p) =
         mset (side_entries s) + mset q"
proof -
  let ?s = "s\<lparr>orders := m, total_orders := n\<rparr>"
  have bt: "bt_ok L (orders s)" using ok by (simp add: side_ok_def)
  then have bt': "bt_ok L m" by (simp add: m bt_ok_put bt_ok_remove)
  show ms: "mset (side_entries ?s) + mset (queue_at L s p) = mset (side_entries s) + mset q"
    using level_entries_put [OF bt, of p q] level_entries_remove [OF bt, of p]
    by (simp add: m side_entries_def queue_at_def)
  have levels: "q' \<noteq> [] \<and> (\<forall>e \<in> set q'. dec_eq_opt L (o_price e) (Some p'))"
    if "(p', q') \<in> set m" for p' q'
  proof (cases "dec_val L p' = dec_val L p")
    case True
    with that bt prices have "q' = q" "q \<noteq> []"
      by (auto simp: m dest: bt_put_set bt_remove_set split: if_splits)
    with prices True show ?thesis by (auto simp: dec_simps)
  next
    case False
    with that bt have "(p', q') \<in> set (orders s)"
      by (auto simp: m dest: bt_put_set bt_remove_set split: if_splits)
    with ok show ?thesis by (auto simp: side_ok_def)
  qed
  have "size (mset (side_entries ?s)) + length (queue_at L s p) = length (side_entries s) + length q"
    using arg_cong [OF ms, of size] by simp
  then have "n = length (side_entries ?s)"
    using n ok by (simp add: side_ok_def)
  with bt' levels show "side_ok L ?s" by (auto simp: side_ok_def)
  show "queue_at L ?s x = (if dec_eq L x p then q else queue_at L s x)"
    using bt by (simp add: queue_at_def m bt_get_put bt_get_remove)
qed

lemma queue_length_le: "side_ok L s \<Longrightarrow> length (queue_at L s p) \<le> total_orders s"
  using arg_cong [OF level_entries_remove [of "orders s" p], of size]
  by (simp add: side_ok_def side_entries_def queue_at_def)

lemma queue_at_subset: "set (queue_at L s p) \<subseteq> set (side_entries s)"
proof
  fix e
  assume "e \<in> set (queue_at L s p)"
  then obtain q where "bt_get L p (orders s) = Some q" "e \<in> set q"
    by (cases "bt_get L p (orders s)") (auto simp: queue_at_def)
  then show "e \<in> set (side_entries s)"
    by (force simp: side_entries_def level_entries_def dest!: bt_get_sound)
qed

lemma queue_at_cong: "dec_val L x = dec_val L p \<Longrightarrow> queue_at L s x = queue_at L s p"
  by (simp add: queue_at_def bt_get_cong [of x p])

lemma queue_at_price:
  "side_ok L s \<Longrightarrow> e \<in> set (queue_at L s p) \<Longrightarrow> dec_eq_opt L (o_price e) (Some p)"
  by (cases "bt_get L p (orders s)") (simp_all add: queue_at_def side_okD(4))

lemma add_order_Inr:
  assumes "side_ok L s" "o_price e = Some p"
  obtains s' where "add_order L e s = Inr s'" "side_ok L s'"
    "\<And>x. queue_at L s' x = (if dec_eq L x p then queue_at L s x @ [e] else queue_at L s x)"
    "mset (side_entries s') = add_mset e (mset (side_entries s))"
proof -
  let ?q = "queue_at L s p @ [e]"
  let ?s = "s\<lparr>orders := bt_put L p ?q (orders s), total_orders := total_orders s + 1\<rparr>"
  have prices: "dec_eq_opt L (o_price x) (Some p)" if "x \<in> set ?q" for x
    using that assms queue_at_price by (auto simp: dec_simps)
  note sq = set_queue_ok [OF assms(1) prices, where q = "?q" and m = "bt_put L p ?q (orders s)" and n = "total_orders s + 1"]
  have same: "queue_at L s x = queue_at L s p" if "dec_eq L x p" for x
    using that by (intro queue_at_cong) (simp add: eq_val)
  show thesis
  proof (rule that)
    show "add_order L e s = Inr ?s"
      using assms(2) by (simp add: add_order_def queue_at_def Let_def)
  qed (use sq same in auto)
qed

lemma remove_order_Inr:
  assumes "side_ok L s"
  obtains (absent) "remove_order L i p s = Inr (None, s)" "i \<notin> o_id ` set (queue_at L s p)"
  | (found) e us vs s' where "remove_order L i p s = Inr (Some e, s')" "side_ok L s'" "o_id e = i"
      "queue_at L s p = us @ e # vs" "i \<notin> o_id ` set us"
      "\<And>x. queue_at L s' x = (if dec_eq L x p then us @ vs else queue_at L s x)"
      "mset (side_entries s) = add_mset e (mset (side_entries s'))"
proof (cases "take_first (\<lambda>o'. o_id o' = i) (queue_at L s p)")
  case None
  then have "i \<notin> o_id ` set (queue_at L s p)" by (auto simp: take_first_None)
  moreover have "remove_order L i p s = Inr (None, s)"
    using None by (cases "bt_get L p (orders s)") (simp_all add: remove_order_def queue_at_def)
  ultimately show thesis by (rule absent [rotated])
next
  case (Some r)
  obtain e q where r: "r = (e, q)" by force
  from Some r obtain us vs where q: "queue_at L s p = us @ e # vs" "q = us @ vs" "o_id e = i"
    "i \<notin> o_id ` set us"
    by (fastforce dest!: take_first_SomeD)
  let ?m = "if q = [] then bt_remove L p (orders s) else bt_put L p q (orders s)"
  let ?s = "s\<lparr>orders := ?m, total_orders := total_orders s - 1\<rparr>"
  have prices: "dec_eq_opt L (o_price x) (Some p)" if "x \<in> set q" for x
    using that queue_at_price [OF assms, of x p] q by auto
  have pos: "length (us @ e # vs) \<le> total_orders s" using queue_length_le [OF assms, of p] q by simp
  note sq = set_queue_ok [OF assms prices, where q = q and m = ?m and n = "total_orders s - 1"]
  show thesis
  proof (rule found)
    show "remove_order L i p s = Inr (Some e, ?s)"
      using Some r pos q
      by (cases "bt_get L p (orders s)") (simp_all add: remove_order_def queue_at_def usize_sub_def)
    show "mset (side_entries s) = add_mset e (mset (side_entries ?s))"
      using sq(3) q pos by simp
  qed (use sq q pos in auto)
qed

lemma apply_prepared_level_Inr:
  assumes "side_ok L s" "bt_get L p (orders s) = Some q" "distinct (map o_id q)"
    and ids: "set (map fst changed) \<subseteq> o_id ` set q"
    and prices: "\<And>i e. hm_get changed i = Some e \<Longrightarrow> dec_eq_opt L (o_price e) (Some p)"
  obtains s' where "apply_prepared_level L (p, changed) s = Inr s'" "side_ok L s'"
    "\<And>x. queue_at L s' x = (if dec_eq L x p then apply_changes L changed q else queue_at L s x)"
    "mset (side_entries s') + mset q = mset (side_entries s) + mset (apply_changes L changed q)"
proof -
  let ?q = "apply_changes L changed q"
  have at: "queue_at L s p = q" using assms(2) by (simp add: queue_at_def)
  let ?m = "if ?q = [] then bt_remove L p (orders s) else bt_put L p ?q (orders s)"
  let ?n = "total_orders s - (length q - length ?q)"
  have le: "length ?q \<le> length q" "length q \<le> total_orders s"
    using queue_length_le [OF assms(1), of p] at by (simp_all add: length_apply_changes)
  have pr: "dec_eq_opt L (o_price e) (Some p)" if "e \<in> set ?q" for e
    using apply_changes_entries [OF that] queue_at_price [OF assms(1)] at prices by auto
  have n: "?n + length (queue_at L s p) = total_orders s + length ?q" using at le by simp
  note sq = set_queue_ok [OF assms(1) pr refl n]
  obtain q1 pfx where d: "drain_changed L changed q [] = Inr (q1, pfx)" "pfx @ q1 = ?q"
    using drain_changed_eq [OF assms(3) ids, of L "[]"] by auto
  show thesis
  proof (rule that)
    show "apply_prepared_level L (p, changed) s = Inr (s\<lparr>orders := ?m, total_orders := ?n\<rparr>)"
      using d(1) le assms(2)
      by (simp add: apply_prepared_level_def restore_prefix_append d(2) usize_sub_def Let_def
          del: append_is_Nil_conv length_append)
  qed (use sq at in auto)
qed

text \<open>The best price is the extreme key of the price map.\<close>

lemma bt_ok_ends:
  assumes "bt_ok L m" "(p, q) \<in> set m"
  shows "dec_val L (fst (hd m)) \<le> dec_val L p" "dec_val L p \<le> dec_val L (fst (last m))"
proof -
  from assms(2) obtain i where i: "i < length m" "m ! i = (p, q)" by (auto simp: in_set_conv_nth)
  have mono: "dec_val L (fst (m ! a)) \<le> dec_val L (fst (m ! b))" if "a \<le> b" "b < length m" for a b
    using assms(1) that
    by (cases "a = b") (auto simp: bt_ok_def sorted_wrt_iff_nth_less lt_val intro!: less_imp_le)
  from i have "m \<noteq> []" by auto
  then show "dec_val L (fst (hd m)) \<le> dec_val L p" "dec_val L p \<le> dec_val L (fst (last m))"
    using mono [of 0 i] mono [of i "length m - 1"] i by (simp_all add: hd_conv_nth last_conv_nth)
qed

lemma get_best_price_Some:
  assumes "side_ok L s" "get_best_price buy s = Some p"
  shows "queue_at L s p \<noteq> []"
    and "queue_at L s x \<noteq> [] \<Longrightarrow> if buy then dec_val L x \<le> dec_val L p else dec_val L p \<le> dec_val L x"
proof -
  have ne: "orders s \<noteq> []" and p: "p = (if buy then fst (last (orders s)) else fst (hd (orders s)))"
    using assms(2) by (auto simp: get_best_price_def split: list.splits)
  from ne p obtain q where "(p, q) \<in> set (orders s)"
    by (metis hd_in_set last_in_set prod.collapse)
  then have "bt_get L p (orders s) = Some q"
    using assms(1) by (intro bt_get_complete) (auto simp: side_ok_def)
  then show "queue_at L s p \<noteq> []"
    using side_okD(3) [OF assms(1)] by (simp add: queue_at_def)
  assume "queue_at L s x \<noteq> []"
  then obtain q k where "dec_val L k = dec_val L x" "(k, q) \<in> set (orders s)"
    by (cases "bt_get L x (orders s)") (auto simp: queue_at_def dest!: bt_get_sound)
  then show "if buy then dec_val L x \<le> dec_val L p else dec_val L p \<le> dec_val L x"
    using bt_ok_ends [of "orders s" k q] assms(1) p by (auto simp: side_ok_def)
qed

lemma get_best_price_None: "side_ok L s \<Longrightarrow> get_best_price buy s = None \<longleftrightarrow> side_entries s = []"
  by (auto simp: get_best_price_def side_ok_def side_entries_def level_entries_def split: list.splits)

lemma apply_prepared_orders_Inr:
  assumes "side_ok L s" "prepared_ok L changes s"
  obtains s' where "apply_prepared_orders L changes s = Inr s'" "side_ok L s'"
    "\<And>x. queue_at L s' x = (case bt_get L x changes of None \<Rightarrow> queue_at L s x
        | Some c \<Rightarrow> apply_changes L c (queue_at L s x))"
    "mset (side_entries s') + mset (concat (map (\<lambda>(p, c). queue_at L s p) changes)) =
     mset (side_entries s) + mset (concat (map (\<lambda>(p, c). apply_changes L c (queue_at L s p)) changes))"
  using assms
proof (induction changes arbitrary: s thesis)
  case Nil
  then show ?case by (simp add: apply_prepared_orders_def)
next
  case (Cons x cs)
  obtain p c where x: "x = (p, c)" by force
  have ok: "queue_at L s p \<noteq> []" "distinct (map o_id (queue_at L s p))"
    "set (map fst c) \<subseteq> o_id ` set (queue_at L s p)"
    "\<And>i e. (i, e) \<in> set c \<Longrightarrow> dec_eq_opt L (o_price e) (Some p)"
    using Cons.prems(3) by (auto simp: prepared_ok_def prepared_level_ok_def x)
  have other: "dec_val L p < dec_val L p'" if "(p', c') \<in> set cs" for p' c'
    using Cons.prems(3) that by (intro bt_ok_head [of p c cs p' c']) (simp_all add: prepared_ok_def x)
  have get: "bt_get L p (orders s) = Some (queue_at L s p)"
    using ok(1) by (cases "bt_get L p (orders s)") (simp_all add: queue_at_def)
  obtain t where t: "apply_prepared_level L (p, c) s = Inr t" "side_ok L t"
    "\<And>y. queue_at L t y = (if dec_eq L y p then apply_changes L c (queue_at L s p) else queue_at L s y)"
    "mset (side_entries t) + mset (queue_at L s p) =
     mset (side_entries s) + mset (apply_changes L c (queue_at L s p))"
    using apply_prepared_level_Inr [OF Cons.prems(2) get ok(2,3)] ok(4) map_of_SomeD by metis
  have same: "queue_at L t p' = queue_at L s p'" if "(p', c') \<in> set cs" for p' c'
    using other [OF that] by (simp add: t(3) eq_val)
  have pk: "prepared_ok L cs t"
    using Cons.prems(3) same by (auto simp: prepared_ok_def x bt_ok_Cons)
  obtain u where u: "apply_prepared_orders L cs t = Inr u" "side_ok L u"
    "\<And>y. queue_at L u y = (case bt_get L y cs of None \<Rightarrow> queue_at L t y
        | Some c \<Rightarrow> apply_changes L c (queue_at L t y))"
    "mset (side_entries u) + mset (concat (map (\<lambda>(p, c). queue_at L t p) cs)) =
     mset (side_entries t) + mset (concat (map (\<lambda>(p, c). apply_changes L c (queue_at L t p)) cs))"
    by (rule Cons.IH [OF _ t(2) pk]) (rule that)
  have cong: "concat (map (\<lambda>(p, c). g c (queue_at L t p)) cs) =
      concat (map (\<lambda>(p, c). g c (queue_at L s p)) cs)" for g
    using same by (intro arg_cong [where f = concat] map_cong) auto
  have run: "apply_prepared_orders L (x # cs) s = Inr u"
    using t(1) u(1) by (simp add: apply_prepared_orders_def x)
  have queues: "queue_at L u y = (case bt_get L y (x # cs) of None \<Rightarrow> queue_at L s y
      | Some c \<Rightarrow> apply_changes L c (queue_at L s y))" for y
  proof (cases "dec_eq L y p")
    case True
    then have "bt_get L y cs = None" using other by (intro bt_get_below) (auto simp: eq_val)
    with True show ?thesis using queue_at_cong [of y p s] by (simp add: u(3) t(3) x eq_val)
  next
    case False
    then have "queue_at L t y = queue_at L s y" by (simp add: t(3))
    with False show ?thesis by (simp add: u(3) x split: option.split)
  qed
  have "mset (side_entries u) + mset (concat (map (\<lambda>(p, c). queue_at L s p) (x # cs))) =
      mset (side_entries s) + mset (concat (map (\<lambda>(p, c). apply_changes L c (queue_at L s p)) (x # cs)))"
    using mset_exchange [OF u(4) [unfolded cong [of "\<lambda>c q. q"] cong [of "apply_changes L"]] t(4)]
    by (simp only: x list.map concat.simps mset_append prod.case)
  with run u(2) queues show ?case by (rule Cons.prems(1))
qed

end

section \<open>Properties\<close>

text \<open>A resting order for the witnesses: price 100, one unit.\<close>

definition sample_order :: "u64 \<Rightarrow> u64 \<Rightarrow> string \<Rightarrow> int \<Rightarrow> int \<Rightarrow> refdec OrderEntry" where
  "sample_order i user ty price amount =
     \<lparr>o_fee_rate = RefDec 1 3, o_id = i, o_user_id = user, o_order_type = ty, o_order_side = ''limit'',
      o_base_mint = ''SOL'', o_quote_mint = ''USDT'', o_price = Some (RefDec price 0),
      o_amount = RefDec amount 0, o_quote_amount = None, o_filled_amount = RefDec 0 0,
      o_remaining_amount = RefDec amount 0, o_remaining_quote_amount = None, o_created_at = 0\<rparr>"

definition sample_side :: "refdec OrderBookSide" where
  "sample_side =
     \<lparr>orders = [(RefDec 100 0, [sample_order 1 10 ''sell'' 100 2, sample_order 2 11 ''sell'' 100 3]),
                (RefDec 101 0, [sample_order 3 12 ''sell'' 101 1])], total_orders = 3\<rparr>"

text \<open>
  Adding a limit order keeps the invariant of a book side (ascending distinct prices, no
  empty level, every order at its own price, exact order counter) and puts the order at the
  back of the queue of its price, leaving every other queue as it was (time priority).
\<close>

theorem add_order_fifo:
  assumes "decimal_library L" "side_ok L s" "o_price e = Some p"
  shows "\<exists>s'. add_order L e s = Inr s' \<and> side_ok L s' \<and>
    (\<forall>x. queue_at L s' x = (if dec_eq L x p then queue_at L s x @ [e] else queue_at L s x)) \<and>
    mset (side_entries s') = add_mset e (mset (side_entries s))"
  using decimal_library.add_order_Inr [OF assms] by metis

text \<open>
  C33. Removing an order by identifier and price never panics and keeps the invariant. Either no
  order of that identifier waits at the price and nothing changes, or the oldest such order is
  returned and the queue keeps the relative order of the others.
\<close>

theorem remove_order_spec:
  assumes "decimal_library L" "side_ok L s"
  shows "(remove_order L i p s = Inr (None, s) \<and> i \<notin> o_id ` set (queue_at L s p)) \<or>
    (\<exists>e us vs s'. remove_order L i p s = Inr (Some e, s') \<and> side_ok L s' \<and> o_id e = i \<and>
       queue_at L s p = us @ e # vs \<and> i \<notin> o_id ` set us \<and>
       (\<forall>x. queue_at L s' x = (if dec_eq L x p then us @ vs else queue_at L s x)) \<and>
       mset (side_entries s) = add_mset e (mset (side_entries s')))"
  by (rule decimal_library.remove_order_Inr [OF assms, of i p]) metis+

theorem remove_order_spec_witness:
  "\<exists>e s'. remove_order ref_decimal 1 (RefDec 100 0) sample_side = Inr (Some e, s') \<and> side_ok ref_decimal s'"
proof -
  have ok: "side_ok ref_decimal sample_side" by code_simp
  have "1 \<in> o_id ` set (queue_at ref_decimal sample_side (RefDec 100 0))" by code_simp
  with remove_order_spec [OF refd.decimal_library_axioms ok, of 1 "RefDec 100 0"] show ?thesis by blast
qed

text \<open>
  C32. The optimised \<open>apply_prepared_orders\<close>, which drains each queue only as far as the last
  changed maker and pushes the drained prefix back, equals the reference that rewrites the whole
  queue: changed makers are replaced in place, filled makers disappear, all other orders keep
  their position. It never reaches an \<open>expect\<close> or an underflow, and keeps the invariant.
\<close>

theorem apply_prepared_orders_refines:
  assumes "decimal_library L" "side_ok L s" "prepared_ok L changes s"
  shows "\<exists>s'. apply_prepared_orders L changes s = Inr s' \<and> side_ok L s' \<and>
    (\<forall>x. queue_at L s' x = (case bt_get L x changes of None \<Rightarrow> queue_at L s x
        | Some c \<Rightarrow> apply_changes L c (queue_at L s x)))"
  by (rule decimal_library.apply_prepared_orders_Inr [OF assms]) metis

theorem apply_prepared_orders_refines_witness:
  "\<exists>s'. apply_prepared_orders ref_decimal
       [(RefDec 100 0, [(2, (sample_order 2 11 ''sell'' 100 3)\<lparr>o_remaining_amount := RefDec 0 0\<rparr>)])]
       sample_side = Inr s' \<and> side_ok ref_decimal s' \<and> total_orders s' = 2"
proof -
  let ?cs = "[(RefDec 100 0, [(2, (sample_order 2 11 ''sell'' 100 3)\<lparr>o_remaining_amount := RefDec 0 0\<rparr>)])]"
  have ok: "side_ok ref_decimal sample_side" "prepared_ok ref_decimal ?cs sample_side" by code_simp+
  have "map_sum id total_orders (apply_prepared_orders ref_decimal ?cs sample_side) = Inr 2" by code_simp
  with apply_prepared_orders_refines [OF refd.decimal_library_axioms ok] show ?thesis by auto
qed

text \<open>
  The best price of a side is a price at which an order waits, and no waiting order has a
  better one: the highest bid of a buy side, the lowest ask of a sell side.
\<close>

theorem get_best_price_extreme:
  assumes "decimal_library L" "side_ok L s"
  shows "(get_best_price buy s = None \<longleftrightarrow> side_entries s = []) \<and>
    (get_best_price buy s = Some p \<longrightarrow> queue_at L s p \<noteq> [] \<and>
      (\<forall>x. queue_at L s x \<noteq> [] \<longrightarrow> (if buy then dec_le L x p else dec_le L p x)))"
  using decimal_library.get_best_price_Some [OF assms] decimal_library.get_best_price_None [OF assms]
  by (auto simp: decimal_library.le_val [OF assms(1)])

end
