(* ===== verification/Ledger.thy ===== *)
theory Ledger
  imports Prelude
begin

text \<open>
  The abstract specification of balance keeping: a ledger gives every account an available and a
  locked amount, and an operation means a list of postings. \<open>posted\<close> says that a state is
  another one with the postings added. The locale \<open>ledger\<close> is what a store of balances offers
  its clients; its lemmas turn postings into statements about the total per asset.
\<close>

type_synonym account = "u64 \<times> string"

text \<open>One posting: the account, the change of its available and of its locked amount.\<close>

type_synonym posting = "account \<times> int \<times> int"

definition av_delta :: "posting list \<Rightarrow> account \<Rightarrow> int" where
  "av_delta ps k = (\<Sum>(k', a, l) \<leftarrow> ps. if k' = k then a else 0)"

definition lk_delta :: "posting list \<Rightarrow> account \<Rightarrow> int" where
  "lk_delta ps k = (\<Sum>(k', a, l) \<leftarrow> ps. if k' = k then l else 0)"

definition asset_delta :: "posting list \<Rightarrow> string \<Rightarrow> int" where
  "asset_delta ps asset = (\<Sum>(k, a, l) \<leftarrow> ps. if snd k = asset then a + l else 0)"

definition posted ::
    "('c \<Rightarrow> account \<Rightarrow> int) \<Rightarrow> ('c \<Rightarrow> account \<Rightarrow> int) \<Rightarrow> 'c \<Rightarrow> posting list \<Rightarrow> 'c \<Rightarrow> bool" where
  "posted av lk c ps c' \<longleftrightarrow> (\<forall>k. av c' k = av c k + av_delta ps k \<and> lk c' k = lk c k + lk_delta ps k)"

lemma delta_Nil [simp]: "av_delta [] k = 0" "lk_delta [] k = 0" "asset_delta [] asset = 0"
  by (simp_all add: av_delta_def lk_delta_def asset_delta_def)

lemma delta_Cons [simp]:
  "av_delta ((k', a, l) # ps) k = (if k' = k then a else 0) + av_delta ps k"
  "lk_delta ((k', a, l) # ps) k = (if k' = k then l else 0) + lk_delta ps k"
  "asset_delta ((k', a, l) # ps) asset = (if snd k' = asset then a + l else 0) + asset_delta ps asset"
  by (simp_all add: av_delta_def lk_delta_def asset_delta_def)

lemma delta_append [simp]:
  "av_delta (ps @ qs) k = av_delta ps k + av_delta qs k"
  "lk_delta (ps @ qs) k = lk_delta ps k + lk_delta qs k"
  "asset_delta (ps @ qs) asset = asset_delta ps asset + asset_delta qs asset"
  by (simp_all add: av_delta_def lk_delta_def asset_delta_def)

lemma posted_refl [simp]: "posted av lk c [] c"
  by (simp add: posted_def)

lemma posted_trans: "posted av lk c ps c1 \<Longrightarrow> posted av lk c1 qs c2 \<Longrightarrow> posted av lk c (ps @ qs) c2"
  by (simp add: posted_def)

lemma posted_at:
  assumes "posted av lk c ps c'"
  shows "av c' k = av c k + av_delta ps k" "lk c' k = lk c k + lk_delta ps k"
  using assms unfolding posted_def by blast+

lemma sum_delta:
  assumes "finite K" "fst ` set ps \<subseteq> K"
  shows "(\<Sum>k \<in> K. if snd k = asset then av_delta ps k + lk_delta ps k else 0) = asset_delta ps asset"
  using assms(2)
proof (induction ps)
  case Nil
  then show ?case by (simp cong: if_cong)
next
  case (Cons p ps)
  obtain k' a l where p: "p = (k', a, l)" by (cases p) auto
  have k': "k' \<in> K" using Cons.prems by (simp add: p)
  have "(\<Sum>k \<in> K. if snd k = asset then av_delta (p # ps) k + lk_delta (p # ps) k else 0) =
      (\<Sum>k \<in> K. (if k = k' then (if snd k' = asset then a + l else 0) else 0) +
        (if snd k = asset then av_delta ps k + lk_delta ps k else 0))"
    by (intro sum.cong) (auto simp: p)
  also have "\<dots> = (if snd k' = asset then a + l else 0) + asset_delta ps asset"
    using Cons k' assms(1) by (simp add: sum.distrib)
  finally show ?case by (simp add: p)
qed

locale ledger =
  fixes av :: "'c \<Rightarrow> account \<Rightarrow> int"
    and lk :: "'c \<Rightarrow> account \<Rightarrow> int"
    and accounts :: "'c \<Rightarrow> account set"
    and total :: "'c \<Rightarrow> string \<Rightarrow> int"
    and ok :: "'c \<Rightarrow> bool"
  assumes finite_accounts: "finite (accounts c)"
    and av_outside: "k \<notin> accounts c \<Longrightarrow> av c k = 0"
    and lk_outside: "k \<notin> accounts c \<Longrightarrow> lk c k = 0"
    and total_sum: "ok c \<Longrightarrow> total c asset = (\<Sum>k \<in> accounts c. if snd k = asset then av c k + lk c k else 0)"
    and av_nonneg: "ok c \<Longrightarrow> 0 \<le> av c k"
    and lk_nonneg: "ok c \<Longrightarrow> 0 \<le> lk c k"
begin

lemma total_over:
  assumes "ok c" "finite K" "accounts c \<subseteq> K"
  shows "total c asset = (\<Sum>k \<in> K. if snd k = asset then av c k + lk c k else 0)"
  unfolding total_sum [OF assms(1)]
  using assms(2,3) by (intro sum.mono_neutral_left) (auto simp: av_outside lk_outside)

text \<open>The total of an asset changes by what the postings say, whatever the accounts.\<close>

lemma posted_total:
  assumes "ok c" "ok c'" "posted av lk c ps c'"
  shows "total c' asset = total c asset + asset_delta ps asset"
proof -
  define K where "K = accounts c \<union> accounts c' \<union> fst ` set ps"
  have K: "finite K" "accounts c \<subseteq> K" "accounts c' \<subseteq> K" "fst ` set ps \<subseteq> K"
    by (auto simp: K_def finite_accounts)
  have "total c' asset = (\<Sum>k \<in> K. (if snd k = asset then av c k + lk c k else 0) +
      (if snd k = asset then av_delta ps k + lk_delta ps k else 0))"
    unfolding total_over [OF assms(2) K(1,3)]
    by (intro sum.cong) (auto simp: posted_at [OF assms(3)])
  also have "\<dots> = total c asset + asset_delta ps asset"
    by (simp add: sum.distrib total_over [OF assms(1) K(1,2)] sum_delta [OF K(1,4)])
  finally show ?thesis .
qed

lemma posted_conserves:
  "ok c \<Longrightarrow> ok c' \<Longrightarrow> posted av lk c ps c' \<Longrightarrow> asset_delta ps asset = 0 \<Longrightarrow> total c' asset = total c asset"
  by (simp add: posted_total)

text \<open>No posting overdraws an account: a successful change leaves what it took.\<close>

lemma posted_covered:
  assumes "ok c'" "posted av lk c ps c'"
  shows "- av_delta ps k \<le> av c k" "- lk_delta ps k \<le> lk c k"
  using av_nonneg [OF assms(1), of k] lk_nonneg [OF assms(1), of k] posted_at [OF assms(2), of k]
  by simp_all

lemma total_ge_account:
  assumes "ok c"
  shows "av c (u, asset) + lk c (u, asset) \<le> total c asset"
proof (cases "(u, asset) \<in> accounts c")
  case True
  then have "(if snd (u, asset) = asset then av c (u, asset) + lk c (u, asset) else 0) \<le> total c asset"
    unfolding total_sum [OF assms]
    by (intro member_le_sum) (auto simp: finite_accounts av_nonneg [OF assms] lk_nonneg [OF assms])
  then show ?thesis by simp
next
  case False
  have "0 \<le> total c asset"
    unfolding total_sum [OF assms]
    by (intro sum_nonneg) (auto simp: av_nonneg [OF assms] lk_nonneg [OF assms])
  with False show ?thesis by (simp add: av_outside lk_outside)
qed

end

end
