(* ===== verification/BalanceCache.thy ===== *)
theory BalanceCache
  imports Types Ledger "HOL-Library.Product_Lexorder" "HOL-Library.List_Lexorder" "HOL-Library.Char_ord"
begin

text \<open>
  The in-memory balances (\<open>engine/balance_cache.rs\<close>) and the settlement of one trade
  (\<open>engine/balance_cache/settlement.rs\<close>). The abstract view of a cache is the ledger of integer
  amounts \<open>av L c k\<close> and \<open>lk L c k\<close> (available and locked units of the account \<open>k\<close>, zero for a
  missing row). Every successful operation is characterised by what it does to the ledger, and
  \<open>asset_total\<close> adds the ledger up per asset.

  An operation on \<open>&mut self\<close> that returns \<open>Result\<close> yields the new cache or the error; every
  error of the source leaves the cache as it was, which the signature makes evident.
\<close>

section \<open>Balances\<close>

record 'd Balance =
  available :: 'd
  locked :: 'd

record 'd BalanceCache =
  balances :: "(account, 'd Balance) hashmap"

definition Balance_new :: "'d decimal_lib \<Rightarrow> 'd Balance" where
  "Balance_new L = \<lparr>available = dec_zero L, locked = dec_zero L\<rparr>"

definition BalanceCache_new :: "'d BalanceCache" where
  "BalanceCache_new = \<lparr>balances = []\<rparr>"

definition get_balance :: "u64 \<Rightarrow> string \<Rightarrow> 'd BalanceCache \<Rightarrow> 'd Balance option" where
  "get_balance user_id mint c = hm_get (balances c) (user_id, mint)"

text \<open>
  \<open>get_balance_mut\<close> creates a missing row and hands out a reference; the assignment through the
  reference is the function \<open>f\<close>.
\<close>

definition get_balance_mut ::
    "'d decimal_lib \<Rightarrow> u64 \<Rightarrow> string \<Rightarrow> ('d Balance \<Rightarrow> 'd Balance) \<Rightarrow> 'd BalanceCache \<Rightarrow> 'd BalanceCache" where
  "get_balance_mut L user_id mint f c =
     (let b = (case get_balance user_id mint c of None \<Rightarrow> Balance_new L | Some b \<Rightarrow> b) in
      c\<lparr>balances := hm_insert (user_id, mint) (f b) (balances c)\<rparr>)"

definition check_sufficient_balance ::
    "'d decimal_lib \<Rightarrow> u64 \<Rightarrow> string \<Rightarrow> 'd \<Rightarrow> 'd BalanceCache \<Rightarrow> bool" where
  "check_sufficient_balance L user_id mint required c =
     (case get_balance user_id mint c of None \<Rightarrow> False | Some b \<Rightarrow> dec_le L required (available b))"

definition set_balance :: "u64 \<Rightarrow> string \<Rightarrow> 'd \<Rightarrow> 'd \<Rightarrow> 'd BalanceCache \<Rightarrow> 'd BalanceCache" where
  "set_balance user_id mint av lk c =
     c\<lparr>balances := hm_insert (user_id, mint) \<lparr>available = av, locked = lk\<rparr> (balances c)\<rparr>"

definition change_reservation ::
    "'d decimal_lib \<Rightarrow> u64 \<Rightarrow> string \<Rightarrow> 'd \<Rightarrow> bool \<Rightarrow> 'd BalanceCache \<Rightarrow> 'd BalanceCache res" where
  "change_reservation L user_id mint value lock c =
     ensure (dec_lt L (dec_zero L) value) ''Reservation amount must be positive''
       (res_bind (units L value) (\<lambda>_.
          res_bind (ok_or ''Missing reservation balance'' (get_balance user_id mint c)) (\<lambda>balance.
            if lock then
              res_bind (subtract L (available balance) value) (\<lambda>av.
                res_bind (add L (locked balance) value) (\<lambda>lk.
                  Inr (set_balance user_id mint av lk c)))
            else
              res_bind (add L (available balance) value) (\<lambda>av.
                res_bind (subtract L (locked balance) value) (\<lambda>lk.
                  Inr (set_balance user_id mint av lk c))))))"

definition lock_balance :: "'d decimal_lib \<Rightarrow> u64 \<Rightarrow> string \<Rightarrow> 'd \<Rightarrow> 'd BalanceCache \<Rightarrow> 'd BalanceCache res" where
  "lock_balance L user_id mint amount c = change_reservation L user_id mint amount True c"

definition unlock_balance :: "'d decimal_lib \<Rightarrow> u64 \<Rightarrow> string \<Rightarrow> 'd \<Rightarrow> 'd BalanceCache \<Rightarrow> 'd BalanceCache res" where
  "unlock_balance L user_id mint amount c = change_reservation L user_id mint amount False c"

definition copy_account_from ::
    "'d BalanceCache \<Rightarrow> u64 \<Rightarrow> string \<Rightarrow> 'd BalanceCache \<Rightarrow> 'd BalanceCache" where
  "copy_account_from source user asset c =
     (case get_balance user asset c of
        Some _ \<Rightarrow> c
      | None \<Rightarrow> (case get_balance user asset source of
                  None \<Rightarrow> c
                | Some b \<Rightarrow> set_balance user asset (available b) (locked b) c))"

definition commit_prepared :: "'d BalanceCache \<Rightarrow> 'd BalanceCache \<Rightarrow> 'd BalanceCache" where
  "commit_prepared prepared c =
     c\<lparr>balances := fold (\<lambda>(key, b). hm_insert key b) (balances prepared) (balances c)\<rparr>"

definition journal_seed :: "'d BalanceCache \<Rightarrow> (u64 \<times> string \<times> 'd \<times> 'd) list" where
  "journal_seed c =
     sort_key (\<lambda>(user, mint, _, _). (user, mint))
       (map (\<lambda>((user, mint), b). (user, mint, available b, locked b)) (balances c))"

definition cache_clear :: "'d BalanceCache \<Rightarrow> 'd BalanceCache" where
  "cache_clear c = c\<lparr>balances := []\<rparr>"

section \<open>Settlement of one trade\<close>

definition valid_asset :: "string \<Rightarrow> bool" where
  "valid_asset asset \<longleftrightarrow> asset \<noteq> [] \<and> trim asset = asset \<and> length asset \<le> 255"

definition settle_change ::
    "'d decimal_lib \<Rightarrow> 'd BalanceCache \<Rightarrow> u64 \<times> string \<times> int \<times> int \<Rightarrow>
     (account, int \<times> int) hashmap \<Rightarrow> (account, int \<times> int) hashmap res" where
  "settle_change L c change staged0 =
     (case change of (user, asset, available_delta, locked_delta) \<Rightarrow>
        let key = (user, asset) in
        res_bind
          (case hm_get staged0 key of
             Some _ \<Rightarrow> Inr staged0
           | None \<Rightarrow>
               (let balance = (case hm_get (balances c) key of None \<Rightarrow> Balance_new L | Some b \<Rightarrow> b) in
                res_bind (units L (available balance)) (\<lambda>a.
                  res_bind (units L (locked balance)) (\<lambda>l. Inr (hm_insert key (a, l) staged0)))))
          (\<lambda>staged.
             res_bind (expect ''staged balance exists'' (hm_get staged key)) (\<lambda>(b0, b1).
               res_bind (ok_or ''Available overflow'' (checked_add_i128 b0 available_delta)) (\<lambda>a.
                 res_bind (ok_or ''Locked overflow'' (checked_add_i128 b1 locked_delta)) (\<lambda>l.
                   ensure (0 \<le> a \<and> 0 \<le> l) ''Insufficient settlement balance''
                     (ensure (a \<le> MAX_UNITS \<and> l \<le> MAX_UNITS)
                        ''Settlement balance exceeds NUMERIC(30,9)''
                        (Inr (hm_insert key (a, l) staged))))))))"

definition settle_prepare ::
    "'d decimal_lib \<Rightarrow> account \<times> int \<times> int \<Rightarrow> (account \<times> 'd Balance) res" where
  "settle_prepare L entry =
     (case entry of (key, a, l) \<Rightarrow>
        res_bind (decimal L a) (\<lambda>av. res_bind (decimal L l) (\<lambda>lk.
          Inr (key, \<lparr>available = av, locked = lk\<rparr>))))"

definition settle_trade :: "'d decimal_lib \<Rightarrow> 'd MatchResult \<Rightarrow> 'd BalanceCache \<Rightarrow> 'd BalanceCache res" where
  "settle_trade L trade c =
     ensure (m_buyer_id trade > 0 \<and> m_seller_id trade > 0) ''Invalid settlement user''
     (ensure (m_buy_order_id trade > 0 \<and> m_sell_order_id trade > 0 \<and>
              m_buy_order_id trade \<noteq> m_sell_order_id trade) ''Invalid settlement order ids''
     (ensure (valid_asset (m_base_mint trade) \<and> valid_asset (m_quote_mint trade))
        ''Invalid settlement asset''
     (ensure (m_base_mint trade \<noteq> m_quote_mint trade) ''Settlement assets must differ''
     (ensure (dec_lt L (dec_zero L) (m_price trade) \<and> dec_lt L (dec_zero L) (m_amount trade))
        ''Settlement price and amount must be positive''
     (res_bind (units L (m_amount trade)) (\<lambda>amount.
      res_bind (quote L (m_price trade) (m_amount trade)) (\<lambda>quote_value.
      res_bind (units L quote_value) (\<lambda>quote_units.
      res_bind (fee L (m_amount trade) (m_buyer_fee_rate trade)) (\<lambda>bf.
      res_bind (units L bf) (\<lambda>buyer_fee.
      res_bind (quote L (m_price trade) (m_amount trade)) (\<lambda>quote_again.
      res_bind (fee L quote_again (m_seller_fee_rate trade)) (\<lambda>sf.
      res_bind (units L sf) (\<lambda>seller_fee.
        let changes =
          [(m_buyer_id trade, m_quote_mint trade, 0, - quote_units),
           (m_seller_id trade, m_quote_mint trade, quote_units - seller_fee, 0),
           (m_seller_id trade, m_base_mint trade, 0, - amount),
           (m_buyer_id trade, m_base_mint trade, amount - buyer_fee, 0)] in
        res_bind (res_fold (settle_change L c) changes []) (\<lambda>staged.
        res_bind (res_map (settle_prepare L) staged) (\<lambda>prepared.
          Inr (c\<lparr>balances := fold (\<lambda>(key, b). hm_insert key b) prepared (balances c)\<rparr>))))))))))))))))"

section \<open>The ledger of a cache\<close>

definition units_of :: "'d decimal_lib \<Rightarrow> 'd \<Rightarrow> int" where
  "units_of L d = (case units L d of Inl _ \<Rightarrow> 0 | Inr n \<Rightarrow> n)"

definition av :: "'d decimal_lib \<Rightarrow> 'd BalanceCache \<Rightarrow> account \<Rightarrow> int" where
  "av L c k = (case hm_get (balances c) k of None \<Rightarrow> 0 | Some b \<Rightarrow> units_of L (available b))"

definition lk :: "'d decimal_lib \<Rightarrow> 'd BalanceCache \<Rightarrow> account \<Rightarrow> int" where
  "lk L c k = (case hm_get (balances c) k of None \<Rightarrow> 0 | Some b \<Rightarrow> units_of L (locked b))"

definition accounts :: "'d BalanceCache \<Rightarrow> account set" where
  "accounts c = fst ` set (balances c)"

definition asset_total :: "'d decimal_lib \<Rightarrow> 'd BalanceCache \<Rightarrow> string \<Rightarrow> int" where
  "asset_total L c asset =
     hm_sum (\<lambda>k b. if snd k = asset then units_of L (available b) + units_of L (locked b) else 0)
       (balances c)"

text \<open>Every stored amount is a valid \<open>NUMERIC(30,9)\<close> and no account has two rows.\<close>

definition balance_ok :: "'d decimal_lib \<Rightarrow> 'd Balance \<Rightarrow> bool" where
  "balance_ok L b \<longleftrightarrow> is_ok (units L (available b)) \<and> is_ok (units L (locked b))"

definition cache_ok :: "'d decimal_lib \<Rightarrow> 'd BalanceCache \<Rightarrow> bool" where
  "cache_ok L c \<longleftrightarrow> distinct (map fst (balances c)) \<and> list_all (\<lambda>(k, b). balance_ok L b) (balances c)"

abbreviation cache_posted where
  "cache_posted L \<equiv> posted (av L) (lk L)"

lemma accounts_dom: "accounts c = dom (hm_get (balances c))"
  by (simp add: accounts_def dom_map_of_conv_image_fst)

lemma units_of_Inr [simp]: "units L d = Inr n \<Longrightarrow> units_of L d = n"
  by (simp add: units_of_def)

lemma cache_ok_new [simp]: "cache_ok L BalanceCache_new"
  by (simp add: cache_ok_def BalanceCache_new_def)

lemma cache_ok_insert:
  "cache_ok L c \<Longrightarrow> balance_ok L b \<Longrightarrow> cache_ok L (c\<lparr>balances := hm_insert k b (balances c)\<rparr>)"
  by (simp add: cache_ok_def distinct_update list_all_hm_insert)

lemma cache_ok_get: "cache_ok L c \<Longrightarrow> hm_get (balances c) k = Some b \<Longrightarrow> balance_ok L b"
  by (auto simp: cache_ok_def list_all_iff dest!: map_of_SomeD)

lemma balance_okE:
  assumes "balance_ok L b"
  obtains x y where "units L (available b) = Inr x" "units L (locked b) = Inr y"
  using assms by (auto simp: balance_ok_def is_ok_iff)

lemma av_insert: "av L (c\<lparr>balances := hm_insert k b (balances c)\<rparr>) k' = (if k' = k then units_of L (available b) else av L c k')"
  and lk_insert: "lk L (c\<lparr>balances := hm_insert k b (balances c)\<rparr>) k' = (if k' = k then units_of L (locked b) else lk L c k')"
  by (simp_all add: av_def lk_def)

context decimal_library
begin

lemma units_of_nonneg: "0 \<le> units_of L d" "units_of L d \<le> MAX_UNITS"
  using units_bounds [of d] by (auto simp: units_of_def MAX_UNITS_def split: sum.split)

lemma units_of_val: "is_ok (units L d) \<Longrightarrow> dec_val L d = of_int (units_of L d) / of_int FACTOR"
  by (auto simp: is_ok_iff val_of_units)

end

sublocale decimal_library \<subseteq> cache: ledger "av L" "lk L" accounts "asset_total L" "cache_ok L"
proof (unfold_locales, goal_cases)
  case (4 c asset)
  then have "asset_total L c asset = (\<Sum>k \<in> accounts c. case hm_get (balances c) k of None \<Rightarrow> 0
      | Some b \<Rightarrow> if snd k = asset then units_of L (available b) + units_of L (locked b) else 0)"
    unfolding asset_total_def accounts_def cache_ok_def by (intro hm_sum_as_sum) simp_all
  then show ?case
    by simp (rule sum.cong, simp_all add: av_def lk_def split: option.split)
qed (auto simp: accounts_def av_def lk_def units_of_nonneg map_of_eq_None_iff [THEN iffD2]
    split: option.split)

context decimal_library
begin

text \<open>A reservation change moves its amount between the two halves of one account.\<close>

lemma change_reservation_Inr:
  assumes ok: "cache_ok L c" and step: "change_reservation L u m v lock c = Inr c'"
  obtains n where "units L v = Inr n" "0 < n" "cache_ok L c'"
    "cache_posted L c [((u, m), if lock then - n else n, if lock then n else - n)] c'"
    "(u, m) \<in> accounts c" "accounts c' = accounts c"
proof -
  from step obtain n b where n: "units L v = Inr n" "0 < dec_val L v"
    and b: "hm_get (balances c) (u, m) = Some b"
    by (auto simp: change_reservation_def res_bind_Inr_iff ensure_Inr_iff ok_or_Inr_iff get_balance_def
        dec_simps)
  have pos: "0 < n" using n units_sign [OF n(1)] by simp
  obtain x y where xy: "units L (available b) = Inr x" "units L (locked b) = Inr y"
    using cache_ok_get [OF ok b] by (rule balance_okE)
  obtain a l where al: "c' = set_balance u m a l c"
    "units L a = Inr (x + (if lock then - n else n))" "units L l = Inr (y + (if lock then n else - n))"
  proof (cases lock)
    case True
    with step n b obtain a l where "subtract L (available b) v = Inr a" "add L (locked b) v = Inr l"
      "c' = set_balance u m a l c"
      by (auto simp: change_reservation_def res_bind_Inr_iff ensure_Inr_iff get_balance_def)
    with xy n True that [of a l] show thesis
      by (auto elim!: subtract_InrE add_InrE)
  next
    case False
    with step n b obtain a l where "add L (available b) v = Inr a" "subtract L (locked b) v = Inr l"
      "c' = set_balance u m a l c"
      by (auto simp: change_reservation_def res_bind_Inr_iff ensure_Inr_iff get_balance_def)
    with xy n False that [of a l] show thesis
      by (auto elim!: subtract_InrE add_InrE)
  qed
  have "cache_posted L c [((u, m), if lock then - n else n, if lock then n else - n)] c'"
    using al b xy by (auto simp: posted_def set_balance_def av_insert lk_insert) (auto simp: av_def lk_def)
  moreover have "cache_ok L c'"
    using ok al by (auto simp: set_balance_def balance_ok_def intro!: cache_ok_insert)
  moreover have "(u, m) \<in> accounts c" "accounts c' = accounts c"
    using b al(1) by (auto simp: accounts_dom set_balance_def dom_def)
  ultimately show thesis using n(1) pos by (intro that)
qed

lemma lock_balance_Inr:
  assumes "cache_ok L c" "lock_balance L u m v c = Inr c'"
  obtains n where "units L v = Inr n" "0 < n" "cache_ok L c'" "cache_posted L c [((u, m), - n, n)] c'"
    "accounts c' = accounts c"
  using change_reservation_Inr [OF assms [unfolded lock_balance_def]] by auto

lemma unlock_balance_Inr:
  assumes "cache_ok L c" "unlock_balance L u m v c = Inr c'"
  obtains n where "units L v = Inr n" "0 < n" "cache_ok L c'" "cache_posted L c [((u, m), n, - n)] c'"
    "accounts c' = accounts c"
  using change_reservation_Inr [OF assms [unfolded unlock_balance_def]] by auto

end

text \<open>
  Settlement stages at most four accounts. Reading the stage over the cache gives a ledger, and
  each change adds its posting to it.
\<close>

definition stage_av :: "'d decimal_lib \<Rightarrow> 'd BalanceCache \<Rightarrow> (account, int \<times> int) hashmap \<Rightarrow> account \<Rightarrow> int" where
  "stage_av L c st k = (case hm_get st k of None \<Rightarrow> av L c k | Some (a, l) \<Rightarrow> a)"

definition stage_lk :: "'d decimal_lib \<Rightarrow> 'd BalanceCache \<Rightarrow> (account, int \<times> int) hashmap \<Rightarrow> account \<Rightarrow> int" where
  "stage_lk L c st k = (case hm_get st k of None \<Rightarrow> lk L c k | Some (a, l) \<Rightarrow> l)"

definition in_range :: "int \<times> int \<Rightarrow> bool" where
  "in_range v \<longleftrightarrow> 0 \<le> fst v \<and> fst v \<le> MAX_UNITS \<and> 0 \<le> snd v \<and> snd v \<le> MAX_UNITS"

definition stage_ok :: "(account, int \<times> int) hashmap \<Rightarrow> bool" where
  "stage_ok st \<longleftrightarrow> distinct (map fst st) \<and> list_all (\<lambda>(k, v). in_range v) st"

context decimal_library
begin

lemma stage_insert_ok: "stage_ok st \<Longrightarrow> in_range v \<Longrightarrow> stage_ok (hm_insert k v st)"
  by (simp add: stage_ok_def distinct_update list_all_hm_insert)

lemma settle_change_Inr:
  assumes "cache_ok L c" "stage_ok st" "settle_change L c (u, m, da, dl) st = Inr st'"
  shows "stage_ok st'" "posted (stage_av L c) (stage_lk L c) st [((u, m), da, dl)] st'"
    "dom (hm_get st') = insert (u, m) (dom (hm_get st))"
proof -
  let ?k = "(u, m)" and ?a = "stage_av L c st (u, m)" and ?l = "stage_lk L c st (u, m)"
  have "\<exists>st1. hm_get st1 ?k = Some (?a, ?l) \<and> stage_ok st1 \<and> (\<forall>k. k \<noteq> ?k \<longrightarrow> hm_get st1 k = hm_get st k) \<and>
      in_range (?a + da, ?l + dl) \<and> st' = hm_insert ?k (?a + da, ?l + dl) st1"
  proof (cases "hm_get st ?k")
    case None
    define b where "b = (case hm_get (balances c) ?k of None \<Rightarrow> Balance_new L | Some b \<Rightarrow> b)"
    have "balance_ok L b"
      using cache_ok_get [OF assms(1)] zero_units
      by (auto simp: b_def Balance_new_def balance_ok_def split: option.split)
    then obtain x y where xy: "units L (available b) = Inr x" "units L (locked b) = Inr y"
      by (rule balance_okE)
    have al: "?a = x" "?l = y"
      using None xy zero_units
      by (auto simp: stage_av_def stage_lk_def av_def lk_def b_def Balance_new_def split: option.splits)
    have "in_range (x, y)" using units_bounds xy by (auto simp: in_range_def)
    with assms(2) have "stage_ok (hm_insert ?k (x, y) st)" by (rule stage_insert_ok)
    with None xy assms(3) al show ?thesis
      by (intro exI [of _ "hm_insert ?k (x, y) st"])
        (auto simp: settle_change_def b_def [symmetric] res_bind_Inr_iff ensure_Inr_iff ok_or_Inr_iff
          checked_add_i128_def in_range_def split: if_splits)
  next
    case (Some v)
    then show ?thesis
      using assms(2,3) by (cases v, intro exI [of _ st])
        (auto simp: settle_change_def res_bind_Inr_iff ensure_Inr_iff ok_or_Inr_iff stage_av_def stage_lk_def
          checked_add_i128_def in_range_def split: if_splits)
  qed
  then obtain st1 where st1: "hm_get st1 ?k = Some (?a, ?l)" "stage_ok st1"
    "\<And>k. k \<noteq> ?k \<Longrightarrow> hm_get st1 k = hm_get st k" "in_range (?a + da, ?l + dl)"
    "st' = hm_insert ?k (?a + da, ?l + dl) st1"
    by blast
  then show "stage_ok st'" by (simp add: stage_insert_ok)
  show "dom (hm_get st') = insert ?k (dom (hm_get st))"
    using st1(3) by (auto simp: st1(5) dom_def)
  show "posted (stage_av L c) (stage_lk L c) st [((u, m), da, dl)] st'"
    unfolding posted_def
  proof
    fix k
    show "stage_av L c st' k = stage_av L c st k + av_delta [((u, m), da, dl)] k \<and>
        stage_lk L c st' k = stage_lk L c st k + lk_delta [((u, m), da, dl)] k"
      using st1(1) st1(3) [of k] by (cases "k = ?k") (auto simp: st1(5) stage_av_def stage_lk_def)
  qed
qed

lemma settle_changes_Inr:
  assumes "cache_ok L c" "stage_ok st" "res_fold (settle_change L c) (map (\<lambda>((u, m), d). (u, m, d)) ps) st = Inr st'"
  shows "stage_ok st' \<and> posted (stage_av L c) (stage_lk L c) st ps st' \<and>
    dom (hm_get st') = fst ` set ps \<union> dom (hm_get st)"
  using assms(2,3)
proof (induction ps arbitrary: st)
  case Nil
  then show ?case by simp
next
  case (Cons p ps)
  obtain u m a l where p: "p = ((u, m), a, l)" by (metis prod.exhaust)
  from Cons.prems obtain st1 where st1: "settle_change L c (u, m, a, l) st = Inr st1"
    "res_fold (settle_change L c) (map (\<lambda>((u, m), d). (u, m, d)) ps) st1 = Inr st'"
    by (auto simp: p res_bind_Inr_iff)
  note s = settle_change_Inr [OF assms(1) Cons.prems(1) st1(1)]
  note IH = Cons.IH [OF s(1) st1(2)]
  have "posted (stage_av L c) (stage_lk L c) st (p # ps) st'"
    using posted_trans [OF s(2), of ps st'] IH by (simp add: p)
  with IH s(3) show ?case by (simp add: p)
qed

lemma settle_commit:
  assumes ok: "cache_ok L c" and st: "stage_ok st" and map: "res_map (settle_prepare L) st = Inr ps"
  defines "c' \<equiv> c\<lparr>balances := fold (\<lambda>(key, b). hm_insert key b) ps (balances c)\<rparr>"
  shows "cache_ok L c'" "av L c' k = stage_av L c st k" "lk L c' k = stage_lk L c st k"
    "accounts c' = accounts c \<union> dom (hm_get st)"
proof -
  have rel: "list_all2 (\<lambda>x y. settle_prepare L x = Inr y) st ps"
    using map by (simp add: res_map_Inr_iff)
  have one: "fst y = fst x \<and> units L (available (snd y)) = Inr (fst (snd x)) \<and>
      units L (locked (snd y)) = Inr (snd (snd x))"
    if "settle_prepare L x = Inr y" "in_range (snd x)" for x y
    using that by (cases x) (auto simp: settle_prepare_def res_bind_Inr_iff in_range_def intro: decimal_units)
  have rel2: "list_all2 (\<lambda>x y. fst y = fst x \<and> units L (available (snd y)) = Inr (fst (snd x)) \<and>
      units L (locked (snd y)) = Inr (snd (snd x))) st ps"
    using rel by (rule list.rel_mono_strong) (use st one in \<open>auto simp: stage_ok_def list_all_iff\<close>)
  have keys: "map fst ps = map fst st"
    using rel2 by (induction rule: list_all2_induct) auto
  have get: "(case hm_get st k of None \<Rightarrow> hm_get ps k = None
      | Some (a, l) \<Rightarrow> \<exists>b. hm_get ps k = Some b \<and> units L (available b) = Inr a \<and> units L (locked b) = Inr l)" for k
    using rel2 by (induction rule: list_all2_induct) (auto split: option.splits)
  have bal: "list_all (\<lambda>(k, b). balance_ok L b) ps"
    using rel2 by (induction rule: list_all2_induct) (auto simp: balance_ok_def)
  show "cache_ok L c'"
    using ok bal by (simp add: c'_def cache_ok_def distinct_fold_insert list_all_fold_insert)
  have dist: "distinct (map fst ps)" using st keys by (simp add: stage_ok_def)
  show "accounts c' = accounts c \<union> dom (hm_get st)"
    using get by (fastforce simp: c'_def accounts_dom hm_get_fold_insert [OF dist] split: option.splits)
  show "av L c' k = stage_av L c st k" "lk L c' k = stage_lk L c st k"
    using get [of k] unfolding c'_def av_def lk_def stage_av_def stage_lk_def
    by (auto simp: hm_get_fold_insert [OF dist] split: option.splits)
qed

text \<open>The postings of a trade: what each side pays from its lock and receives net of its fee.\<close>

lemma settle_trade_Inr:
  assumes ok: "cache_ok L c" and run: "settle_trade L t c = Inr c'"
  obtains amount qt bf sf qv where
    "units L (m_amount t) = Inr amount" "quote L (m_price t) (m_amount t) = Inr qv" "units L qv = Inr qt"
    "map_sum id (units_of L) (fee L (m_amount t) (m_buyer_fee_rate t)) = Inr bf"
    "map_sum id (units_of L) (fee L qv (m_seller_fee_rate t)) = Inr sf"
    "0 < amount" "0 < qt" "0 \<le> bf" "bf \<le> amount" "0 \<le> sf" "sf \<le> qt" "cache_ok L c'"
    "m_base_mint t \<noteq> m_quote_mint t"
    "cache_posted L c
       [((m_buyer_id t, m_quote_mint t), 0, - qt), ((m_seller_id t, m_quote_mint t), qt - sf, 0),
        ((m_seller_id t, m_base_mint t), 0, - amount), ((m_buyer_id t, m_base_mint t), amount - bf, 0)] c'"
    "accounts c' = {(m_buyer_id t, m_quote_mint t), (m_seller_id t, m_quote_mint t),
        (m_seller_id t, m_base_mint t), (m_buyer_id t, m_base_mint t)} \<union> accounts c"
proof -
  from run obtain amount qv qt bfd bf sfd sf st prepared where
    r: "m_base_mint t \<noteq> m_quote_mint t" "dec_lt L (dec_zero L) (m_price t)" "dec_lt L (dec_zero L) (m_amount t)"
      "units L (m_amount t) = Inr amount" "quote L (m_price t) (m_amount t) = Inr qv" "units L qv = Inr qt"
      "fee L (m_amount t) (m_buyer_fee_rate t) = Inr bfd" "units L bfd = Inr bf"
      "fee L qv (m_seller_fee_rate t) = Inr sfd" "units L sfd = Inr sf"
    and st: "res_fold (settle_change L c)
        [(m_buyer_id t, m_quote_mint t, 0, - qt), (m_seller_id t, m_quote_mint t, qt - sf, 0),
         (m_seller_id t, m_base_mint t, 0, - amount), (m_buyer_id t, m_base_mint t, amount - bf, 0)] [] = Inr st"
    and prep: "res_map (settle_prepare L) st = Inr prepared"
      "c' = c\<lparr>balances := fold (\<lambda>(key, b). hm_insert key b) prepared (balances c)\<rparr>"
    unfolding settle_trade_def Let_def ensure_Inr_iff res_bind_Inr_iff by auto
  let ?ps = "[((m_buyer_id t, m_quote_mint t), 0, - qt), ((m_seller_id t, m_quote_mint t), qt - sf, 0),
      ((m_seller_id t, m_base_mint t), 0, - amount), ((m_buyer_id t, m_base_mint t), amount - bf, 0)]"
  have empty: "stage_ok []" by (simp add: stage_ok_def)
  have "stage_ok st \<and> posted (stage_av L c) (stage_lk L c) [] ?ps st \<and> dom (hm_get st) = fst ` set ?ps"
    using settle_changes_Inr [OF ok empty, of ?ps st] st by simp
  then have stage: "stage_ok st" "posted (stage_av L c) (stage_lk L c) [] ?ps st"
    "dom (hm_get st) = fst ` set ?ps" by blast+
  note commit = settle_commit [OF ok stage(1) prep(1), folded prep(2)]
  have "cache_posted L c ?ps c'"
    unfolding posted_def
  proof
    fix k
    have "stage_av L c [] k = av L c k" "stage_lk L c [] k = lk L c k"
      by (simp_all add: stage_av_def stage_lk_def)
    then show "av L c' k = av L c k + av_delta ?ps k \<and> lk L c' k = lk L c k + lk_delta ?ps k"
      using posted_at [OF stage(2), of k] commit(2,3) [of k] by argo
  qed
  moreover have pos: "0 < amount" using r(3,4) units_sign(2) by (simp add: dec_simps)
  moreover have "0 < qt"
    using r(2,3,5,6) units_sign(2) [OF r(6)] quote_val [OF r(5)] by (simp add: dec_simps)
  moreover have "0 \<le> bf \<and> bf \<le> amount"
    using fee_val(3,4) [OF r(7)] units_compare(1) [OF r(8,4)] units_bounds [OF r(8)] by simp
  moreover have "0 \<le> sf \<and> sf \<le> qt"
    using fee_val(3,4) [OF r(9)] units_compare(1) [OF r(10,6)] units_bounds [OF r(10)] by simp
  ultimately show thesis
    using that [OF r(4,5,6), of bf sf] r commit(1,4) stage(3) by (simp add: Un_commute)
qed

text \<open>
  A workspace: a cache that holds copies of some accounts of another. Postings on the workspace
  that stay within the copied accounts become postings on the original when it is committed.
\<close>

lemma hm_get_commit_prepared:
  "cache_ok L p \<Longrightarrow> hm_get (balances (commit_prepared p c)) k =
     (case hm_get (balances p) k of None \<Rightarrow> hm_get (balances c) k | Some b \<Rightarrow> Some b)"
  by (simp add: commit_prepared_def hm_get_fold_insert cache_ok_def)

lemma commit_prepared_ok: "cache_ok L p \<Longrightarrow> cache_ok L c \<Longrightarrow> cache_ok L (commit_prepared p c)"
  by (simp add: commit_prepared_def cache_ok_def distinct_fold_insert list_all_fold_insert)

lemma commit_prepared_posted:
  assumes ws: "\<And>k. k \<in> N \<Longrightarrow> av L p0 k = av L c k \<and> lk L p0 k = lk L c k"
    and p: "cache_ok L p" "posted (av L) (lk L) p0 ps p"
    and N: "fst ` set ps \<subseteq> N" "accounts p0 \<subseteq> accounts p" "accounts p \<subseteq> N"
  shows "cache_posted L c ps (commit_prepared p c)"
  unfolding posted_def
proof
  fix k
  show "av L (commit_prepared p c) k = av L c k + av_delta ps k \<and>
      lk L (commit_prepared p c) k = lk L c k + lk_delta ps k"
  proof (cases "hm_get (balances p) k")
    case (Some b)
    then have "k \<in> N" using N(3) by (auto simp: accounts_dom)
    moreover have "av L (commit_prepared p c) k = av L p k" "lk L (commit_prepared p c) k = lk L p k"
      using Some p(1) by (simp_all add: av_def lk_def hm_get_commit_prepared)
    ultimately show ?thesis using ws [of k] posted_at [OF p(2), of k] by simp
  next
    case None
    then have "k \<notin> accounts p" "k \<notin> accounts p0" using N(2) by (auto simp: accounts_dom)
    then have "av_delta ps k = 0" "lk_delta ps k = 0"
      using posted_at [OF p(2), of k] by (simp_all add: cache.av_outside cache.lk_outside)
    with None p(1) show ?thesis by (simp add: av_def lk_def hm_get_commit_prepared)
  qed
qed

lemma copy_account_get:
  "hm_get (balances (copy_account_from source u a c)) k =
     (if k = (u, a) \<and> hm_get (balances c) k = None then hm_get (balances source) k
      else hm_get (balances c) k)"
  by (auto simp: copy_account_from_def get_balance_def set_balance_def split: option.splits)

lemma copy_accounts:
  fixes ks :: "account list"
  assumes "cache_ok L source"
  defines "p \<equiv> fold (\<lambda>(u, a). copy_account_from source u a) ks BalanceCache_new"
  shows "hm_get (balances p) k = (if k \<in> set ks then hm_get (balances source) k else None)"
    and "cache_ok L p"
proof -
  have "hm_get (balances (fold (\<lambda>(u, a). copy_account_from source u a) ks c)) k =
      (if k \<in> set ks \<and> hm_get (balances c) k = None then hm_get (balances source) k
       else hm_get (balances c) k)" for c
    by (induction ks arbitrary: c) (auto simp: copy_account_get split: if_splits)
  then show "hm_get (balances p) k = (if k \<in> set ks then hm_get (balances source) k else None)"
    by (simp add: p_def BalanceCache_new_def)
  have step: "cache_ok L (copy_account_from source u a c)" if "cache_ok L c" for u a c
    using that cache_ok_get [OF assms(1), of "(u, a)"]
    by (auto simp: copy_account_from_def get_balance_def set_balance_def balance_ok_def
        intro!: cache_ok_insert split: option.split)
  have "cache_ok L c \<Longrightarrow> cache_ok L (fold (\<lambda>(u, a). copy_account_from source u a) ks c)" for c
    by (induction ks arbitrary: c) (auto simp: step)
  then show "cache_ok L p" by (simp add: p_def)
qed

lemma change_reservation_not_Panic [simp]: "change_reservation L u m v b c \<noteq> Inl (Panic p)"
  by (auto simp: change_reservation_def ensure_Panic_iff res_bind_Panic_iff add_def subtract_def)

lemma settle_trade_not_Panic: "settle_trade L t c \<noteq> Inl (Panic p)"
proof -
  have change: "settle_change L c x st \<noteq> Inl (Panic p)" for x st
    by (cases x) (auto simp: settle_change_def Let_def res_bind_Panic_iff ensure_Panic_iff
        expect_def res_bind_Inr_iff split: option.splits prod.splits)
  then have "res_fold (settle_change L c) xs st \<noteq> Inl (Panic p)" for xs st
    by (induction xs arbitrary: st) (auto simp: res_bind_Panic_iff)
  moreover have "res_map (settle_prepare L) st \<noteq> Inl (Panic p)" for st
    by (intro res_map_not_Panic) (auto simp: settle_prepare_def res_bind_Panic_iff)
  ultimately show ?thesis
    by (auto simp: settle_trade_def Let_def res_bind_Panic_iff ensure_Panic_iff quote_not_Panic
        fee_not_Panic change simp del: res_fold.simps)
qed

text \<open>The contracts of the operations, in the form the properties below state them.\<close>

lemma reservation_contract:
  assumes ok: "cache_ok L c"
  shows "change_reservation L u m v lock c = Inr c' \<Longrightarrow>
      cache_ok L c' \<and> 0 < units_of L v \<and>
      cache_posted L c [((u, m), if lock then - units_of L v else units_of L v,
                                 if lock then units_of L v else - units_of L v)] c' \<and>
      (\<forall>asset. asset_total L c' asset = asset_total L c asset)"
    and "(if lock then av L c (u, m) else lk L c (u, m)) < units_of L v \<Longrightarrow>
      \<not> is_ok (change_reservation L u m v lock c)"
proof -
  have inv: "cache_ok L d \<and> 0 < units_of L v \<and>
       cache_posted L c [((u, m), if lock then - units_of L v else units_of L v,
                                  if lock then units_of L v else - units_of L v)] d"
    if "change_reservation L u m v lock c = Inr d" for d
    using change_reservation_Inr [OF ok that] by (metis units_of_Inr)
  then show "change_reservation L u m v lock c = Inr c' \<Longrightarrow>
      cache_ok L c' \<and> 0 < units_of L v \<and>
      cache_posted L c [((u, m), if lock then - units_of L v else units_of L v,
                                 if lock then units_of L v else - units_of L v)] c' \<and>
      (\<forall>asset. asset_total L c' asset = asset_total L c asset)"
    using cache.posted_total [OF ok] by auto
  have "units_of L v \<le> (if lock then av L c (u, m) else lk L c (u, m))"
    if "change_reservation L u m v lock c = Inr d" for d
    using inv [OF that] cache.posted_covered [of d c _ "(u, m)"] by (cases lock) fastforce+
  then show "(if lock then av L c (u, m) else lk L c (u, m)) < units_of L v \<Longrightarrow>
      \<not> is_ok (change_reservation L u m v lock c)"
    by (auto simp: is_ok_iff not_le [symmetric])
qed

lemma settle_contract:
  assumes ok: "cache_ok L c" and run: "settle_trade L t c = Inr c'"
  shows "\<exists>amount qv qt bf sf.
    units L (m_amount t) = Inr amount \<and> quote L (m_price t) (m_amount t) = Inr qv \<and> units L qv = Inr qt \<and>
        map_sum id (units_of L) (fee L (m_amount t) (m_buyer_fee_rate t)) = Inr bf \<and>
        map_sum id (units_of L) (fee L qv (m_seller_fee_rate t)) = Inr sf \<and>
    0 \<le> bf \<and> bf \<le> amount \<and> 0 \<le> sf \<and> sf \<le> qt \<and> cache_ok L c' \<and>
    cache_posted L c
       [((m_buyer_id t, m_quote_mint t), 0, - qt), ((m_seller_id t, m_quote_mint t), qt - sf, 0),
        ((m_seller_id t, m_base_mint t), 0, - amount), ((m_buyer_id t, m_base_mint t), amount - bf, 0)] c' \<and>
    asset_total L c' (m_base_mint t) = asset_total L c (m_base_mint t) - bf \<and>
    asset_total L c' (m_quote_mint t) = asset_total L c (m_quote_mint t) - sf \<and>
    (\<forall>a. a \<notin> {m_base_mint t, m_quote_mint t} \<longrightarrow> asset_total L c' a = asset_total L c a)"
proof (rule settle_trade_Inr [OF ok run], goal_cases)
  case (1 amount qt bf sf qv)
  note total = cache.posted_total [OF ok 1(12,14)]
  show ?case
    using 1 total by (intro exI [of _ amount] exI [of _ qv] exI [of _ qt] exI [of _ bf] exI [of _ sf]) auto
qed

end

section \<open>Properties\<close>

text \<open>A cache for the witnesses: user 1 holds 500 USDT, of them 200 locked; user 2 locks 3 SOL.\<close>

definition sample_cache :: "refdec BalanceCache" where
  "sample_cache =
     \<lparr>balances = [((1, ''USDT''), \<lparr>available = RefDec 300 0, locked = RefDec 200 0\<rparr>),
                  ((2, ''SOL''), \<lparr>available = RefDec 0 0, locked = RefDec 3 0\<rparr>)]\<rparr>"

definition sample_trade :: "refdec MatchResult" where
  "sample_trade =
     \<lparr>m_buyer_fee_rate = RefDec 1 3, m_seller_fee_rate = RefDec 2 3, m_buy_order_id = 11,
      m_sell_order_id = 12, m_buyer_id = 1, m_seller_id = 2, m_price = RefDec 100 0,
      m_amount = RefDec 2 0, m_base_mint = ''SOL'', m_quote_mint = ''USDT''\<rparr>"

text \<open>
  A reservation change (\<open>lock_balance\<close> with \<open>lock\<close>, \<open>unlock_balance\<close> without) never panics.
  When it succeeds it moves exactly its positive amount between the available and the locked half
  of the one account, keeps every stored amount valid, and leaves the total of every asset as it
  was; when the half it takes from holds less, it fails and so changes nothing.
\<close>

theorem change_reservation_moves:
  assumes "decimal_library L" "cache_ok L c"
  shows "change_reservation L u m v lock c \<noteq> Inl (Panic e) \<and>
    (change_reservation L u m v lock c = Inr c' \<longrightarrow>
       cache_ok L c' \<and> 0 < units_of L v \<and>
       cache_posted L c [((u, m), if lock then - units_of L v else units_of L v,
                                  if lock then units_of L v else - units_of L v)] c' \<and>
       (\<forall>asset. asset_total L c' asset = asset_total L c asset)) \<and>
    ((if lock then av L c (u, m) else lk L c (u, m)) < units_of L v \<longrightarrow>
       \<not> is_ok (change_reservation L u m v lock c))"
  using decimal_library.reservation_contract [OF assms]
    decimal_library.change_reservation_not_Panic [OF assms(1)] by blast

text \<open>
  C24. Settling a trade never panics. When it succeeds, the buyer pays the exact quote amount from
  the locked half and receives the base amount less a fee, the seller pays the base amount from
  the locked half and receives the quote amount less a fee, and no other account changes. Every
  stored amount stays valid, so nothing is overdrawn, and each of the two assets loses exactly
  the fee charged in it while all other assets keep their total.
\<close>

theorem settle_trade_postings:
  assumes "decimal_library L" "cache_ok L c"
  shows "settle_trade L t c \<noteq> Inl (Panic e) \<and>
    (settle_trade L t c = Inr c' \<longrightarrow>
      (\<exists>amount qv qt bf sf.
        units L (m_amount t) = Inr amount \<and>
        quote L (m_price t) (m_amount t) = Inr qv \<and> units L qv = Inr qt \<and>
        map_sum id (units_of L) (fee L (m_amount t) (m_buyer_fee_rate t)) = Inr bf \<and>
        map_sum id (units_of L) (fee L qv (m_seller_fee_rate t)) = Inr sf \<and>
        0 \<le> bf \<and> bf \<le> amount \<and> 0 \<le> sf \<and> sf \<le> qt \<and> cache_ok L c' \<and>
        cache_posted L c
          [((m_buyer_id t, m_quote_mint t), 0, - qt), ((m_seller_id t, m_quote_mint t), qt - sf, 0),
           ((m_seller_id t, m_base_mint t), 0, - amount),
           ((m_buyer_id t, m_base_mint t), amount - bf, 0)] c' \<and>
        asset_total L c' (m_base_mint t) = asset_total L c (m_base_mint t) - bf \<and>
        asset_total L c' (m_quote_mint t) = asset_total L c (m_quote_mint t) - sf \<and>
        (\<forall>a. a \<notin> {m_base_mint t, m_quote_mint t} \<longrightarrow> asset_total L c' a = asset_total L c a)))"
  using decimal_library.settle_contract [OF assms] decimal_library.settle_trade_not_Panic [OF assms(1)]
  by blast

theorem settle_trade_postings_witness:
  "\<exists>c'. settle_trade ref_decimal sample_trade sample_cache = Inr c' \<and> cache_ok ref_decimal c' \<and>
     asset_total ref_decimal c' ''EUR'' = asset_total ref_decimal sample_cache ''EUR''"
proof -
  have ok: "cache_ok ref_decimal sample_cache" by code_simp
  have "is_ok (settle_trade ref_decimal sample_trade sample_cache)" by code_simp
  then obtain c' where run: "settle_trade ref_decimal sample_trade sample_cache = Inr c'"
    by (auto simp: is_ok_iff)
  have "''EUR'' \<notin> {m_base_mint sample_trade, m_quote_mint sample_trade}" by (simp add: sample_trade_def)
  with settle_trade_postings [OF refd.decimal_library_axioms ok] run show ?thesis by metis
qed

end
