(* ===== verification/Matcher.thy ===== *)
theory Matcher
  imports OrderBook BalanceCache
begin

text \<open>
  Matching by price and time (\<open>engine/matcher.rs\<close>): an incoming order is planned against the
  opposite side of the book without changing it, and the plan is committed afterwards. The loop
  over the price levels is \<open>plan_levels\<close>, the loop over one queue \<open>plan_queue\<close>, whose early
  \<open>return\<close> is the boolean it yields; the body for one resting order is \<open>plan_maker\<close>.

  The lemmas flatten both loops into one pass over the candidates in price-time order and read
  every step as integer equations.
\<close>

section \<open>Definitions\<close>

record 'd MatchPlan =
  p_order :: "'d OrderEntry"
  p_matches :: "'d MatchResult list"
  p_total_amount :: 'd
  p_total_quote :: 'd
  p_makers :: "('d \<times> (u64, 'd OrderEntry) hashmap) list"
  p_maker_buy :: bool

definition validate_market_buy :: "'d decimal_lib \<Rightarrow> 'd OrderEntry \<Rightarrow> unit res" where
  "validate_market_buy L order =
     res_bind (ok_or ''Missing market budget'' (o_quote_amount order)) (\<lambda>budget.
       ensure (dec_lt L (dec_zero L) budget \<and> o_price order = None \<and>
               dec_eq L (o_amount order) (dec_zero L) \<and>
               dec_eq L (o_remaining_amount order) (dec_zero L) \<and>
               dec_eq_opt L (o_remaining_quote_amount order) (Some budget))
         ''Invalid market buy''
         (res_bind (units L budget) (\<lambda>_. Inr ())))"

definition validate_quantity :: "'d decimal_lib \<Rightarrow> 'd OrderEntry \<Rightarrow> unit res" where
  "validate_quantity L order =
     ensure (dec_lt L (dec_zero L) (o_amount order) \<and>
             dec_lt L (dec_zero L) (o_remaining_amount order) \<and>
             o_quote_amount order = None \<and> o_remaining_quote_amount order = None)
       ''Invalid quantity order''
       (res_bind (add L (o_filled_amount order) (o_remaining_amount order)) (\<lambda>total.
          ensure (dec_eq L total (o_amount order)) ''Inconsistent order quantity''
            (if o_order_side order = ''limit'' then
               res_bind (ok_or ''Missing limit price'' (o_price order)) (\<lambda>price.
                 ensure (dec_lt L (dec_zero L) price) ''Invalid limit price''
                   (res_bind (quote L price (o_amount order)) (\<lambda>_. Inr ())))
             else ensure (o_price order = None) ''Market sell has price'' (Inr ()))))"

definition validate :: "'d decimal_lib \<Rightarrow> 'd OrderEntry \<Rightarrow> bool \<Rightarrow> unit res" where
  "validate L order incoming =
     res_bind (fee L (dec_zero L) (o_fee_rate order)) (\<lambda>_.
     ensure (o_id order > 0 \<and> o_id order \<le> i64_max \<and> o_user_id order > 0 \<and> o_user_id order \<le> i64_max)
       ''Invalid order identity''
     (ensure (o_order_type order \<in> {''buy'', ''sell''} \<and> o_order_side order \<in> {''limit'', ''market''})
       ''Invalid order kind''
     (ensure (valid_asset (o_base_mint order) \<and> valid_asset (o_quote_mint order)) ''Invalid order asset''
     (ensure (o_base_mint order \<noteq> o_quote_mint order) ''Identical order assets''
     (ensure (incoming \<longrightarrow> dec_eq L (o_filled_amount order) (dec_zero L)) ''Incoming order is not fresh''
       (if o_order_side order = ''market'' \<and> o_order_type order = ''buy''
        then validate_market_buy L order else validate_quantity L order))))))"

text \<open>Whether the incoming order has nothing left to trade.\<close>

definition plan_done :: "'d decimal_lib \<Rightarrow> 'd MatchPlan \<Rightarrow> bool" where
  "plan_done L plan =
     (case o_remaining_quote_amount (p_order plan) of
        None \<Rightarrow> dec_eq L (o_remaining_amount (p_order plan)) (dec_zero L)
      | Some budget \<Rightarrow> dec_eq L budget (dec_zero L))"

definition plan_match ::
    "'d MatchPlan \<Rightarrow> 'd OrderEntry \<Rightarrow> 'd \<Rightarrow> 'd \<Rightarrow> 'd MatchResult" where
  "plan_match plan maker price quantity =
     (let order = p_order plan;
          buy = (if p_maker_buy plan then maker else order);
          sell = (if p_maker_buy plan then order else maker) in
      \<lparr>m_buyer_fee_rate = o_fee_rate buy, m_seller_fee_rate = o_fee_rate sell,
       m_buy_order_id = o_id buy, m_sell_order_id = o_id sell,
       m_buyer_id = o_user_id buy, m_seller_id = o_user_id sell,
       m_price = price, m_amount = quantity,
       m_base_mint = o_base_mint order, m_quote_mint = o_quote_mint order\<rparr>)"

text \<open>A trade of the planned order with one maker: the part of the loop body after the skips.\<close>

definition plan_fill ::
    "'d decimal_lib \<Rightarrow> 'd \<Rightarrow> 'd OrderEntry \<Rightarrow> 'd \<Rightarrow> 'd MatchPlan \<Rightarrow> 'd MatchPlan res" where
  "plan_fill L price original quantity plan =
     res_bind (quote L price quantity) (\<lambda>quote_value.
     res_bind (subtract L (o_remaining_amount original) quantity) (\<lambda>maker_remaining.
     res_bind (add L (o_filled_amount original) quantity) (\<lambda>maker_filled.
     res_bind
       (case o_remaining_quote_amount (p_order plan) of
          Some budget \<Rightarrow>
            res_bind (subtract L budget quote_value) (\<lambda>b.
              res_bind (add L (o_amount (p_order plan)) quantity) (\<lambda>a.
                Inr ((p_order plan)\<lparr>o_remaining_quote_amount := Some b, o_amount := a\<rparr>)))
        | None \<Rightarrow>
            res_bind (subtract L (o_remaining_amount (p_order plan)) quantity) (\<lambda>r.
              Inr ((p_order plan)\<lparr>o_remaining_amount := r\<rparr>))) (\<lambda>order1.
     res_bind (add L (o_filled_amount order1) quantity) (\<lambda>filled.
     res_bind (add L (p_total_amount plan) quantity) (\<lambda>total_amount.
     res_bind (add L (p_total_quote plan) quote_value) (\<lambda>total_quote.
       let maker = original\<lparr>o_remaining_amount := maker_remaining, o_filled_amount := maker_filled\<rparr>;
           plan1 = plan\<lparr>p_order := order1\<lparr>o_filled_amount := filled\<rparr>,
                        p_total_amount := total_amount, p_total_quote := total_quote\<rparr>;
           level = (case bt_get L price (p_makers plan) of None \<Rightarrow> [] | Some m \<Rightarrow> m) in
       ensure (hm_get level (o_id maker) = None) ''Duplicate maker order id''
         (Inr (plan1\<lparr>p_matches := p_matches plan1 @ [plan_match plan1 maker price quantity],
                     p_makers := bt_put L price (hm_insert (o_id maker) maker level) (p_makers plan1)\<rparr>)))))))))"

definition plan_maker ::
    "'d decimal_lib \<Rightarrow> 'd \<Rightarrow> 'd OrderEntry \<Rightarrow> 'd MatchPlan \<Rightarrow> 'd MatchPlan res" where
  "plan_maker L price original plan =
     res_bind (validate L original False) (\<lambda>_.
     ensure (dec_eq_opt L (o_price original) (Some price) \<and> o_order_side original = ''limit'' \<and>
             (o_order_type original = ''buy'') = p_maker_buy plan \<and>
             o_base_mint original = o_base_mint (p_order plan) \<and>
             o_quote_mint original = o_quote_mint (p_order plan))
       ''Maker does not match its orderbook level''
     (ensure (o_id original \<noteq> o_id (p_order plan)) ''Incoming order already exists in orderbook''
       (if o_user_id original = o_user_id (p_order plan) then Inr plan
        else
          res_bind
            (case o_remaining_quote_amount (p_order plan) of
               Some budget \<Rightarrow> quantity_for_budget L budget price (o_remaining_amount original)
             | None \<Rightarrow> Inr (dec_min L (o_remaining_amount (p_order plan)) (o_remaining_amount original)))
            (\<lambda>quantity.
               if dec_eq L quantity (dec_zero L) then Inr plan
               else plan_fill L price original quantity plan))))"

fun plan_queue ::
    "'d decimal_lib \<Rightarrow> 'd \<Rightarrow> 'd OrderEntry list \<Rightarrow> 'd MatchPlan \<Rightarrow> ('d MatchPlan \<times> bool) res" where
  "plan_queue L price [] plan = Inr (plan, False)"
| "plan_queue L price (original # queue) plan =
     (if plan_done L plan then Inr (plan, True)
      else res_bind (plan_maker L price original plan) (plan_queue L price queue))"

definition beyond_limit :: "'d decimal_lib \<Rightarrow> 'd MatchPlan \<Rightarrow> 'd \<Rightarrow> bool" where
  "beyond_limit L plan price =
     (case o_price (p_order plan) of
        None \<Rightarrow> False
      | Some limit \<Rightarrow> (p_maker_buy plan \<and> dec_lt L price limit) \<or>
                       (\<not> p_maker_buy plan \<and> dec_lt L limit price))"

fun plan_levels ::
    "'d decimal_lib \<Rightarrow> ('d \<times> 'd OrderEntry list) list \<Rightarrow> 'd MatchPlan \<Rightarrow> 'd MatchPlan res" where
  "plan_levels L [] plan = Inr plan"
| "plan_levels L ((price, queue) # levels) plan =
     (if beyond_limit L plan price then Inr plan
      else res_bind (plan_queue L price queue plan) (\<lambda>(plan1, returned).
             if returned then Inr plan1 else plan_levels L levels plan1))"

definition plan_order :: "'d decimal_lib \<Rightarrow> 'd OrderEntry \<Rightarrow> 'd OrderBook \<Rightarrow> 'd MatchPlan res" where
  "plan_order L incoming book =
     res_bind (validate L incoming True) (\<lambda>_.
       let plan = \<lparr>p_order = incoming, p_matches = [], p_total_amount = dec_zero L,
                   p_total_quote = dec_zero L, p_makers = [],
                   p_maker_buy = (o_order_type incoming = ''sell'')\<rparr> in
       if p_maker_buy plan then plan_levels L (rev (orders (buy_orders book))) plan
       else plan_levels L (orders (sell_orders book)) plan)"

definition commit_book :: "'d decimal_lib \<Rightarrow> 'd MatchPlan \<Rightarrow> 'd OrderBook \<Rightarrow> 'd OrderBook res" where
  "commit_book L plan book =
     res_bind
       (if p_maker_buy plan
        then res_bind (apply_prepared_orders L (p_makers plan) (buy_orders book))
               (\<lambda>s. Inr (book\<lparr>buy_orders := s\<rparr>))
        else res_bind (apply_prepared_orders L (p_makers plan) (sell_orders book))
               (\<lambda>s. Inr (book\<lparr>sell_orders := s\<rparr>)))
       (\<lambda>book1.
          if o_order_side (p_order plan) = ''limit'' \<and>
             dec_lt L (dec_zero L) (o_remaining_amount (p_order plan))
          then book_add_order L (p_order plan) book1
          else Inr book1)"

section \<open>One pass over the candidates\<close>

text \<open>The resting orders within the limit, in the order the loops visit them.\<close>

definition candidates ::
    "'d decimal_lib \<Rightarrow> 'd MatchPlan \<Rightarrow> ('d \<times> 'd OrderEntry list) list \<Rightarrow> ('d \<times> 'd OrderEntry) list" where
  "candidates L plan levels =
     concat (map (\<lambda>(p, q). map (Pair p) q) (takeWhile (\<lambda>(p, q). \<not> beyond_limit L plan p) levels))"

fun plan_flat ::
    "'d decimal_lib \<Rightarrow> ('d \<times> 'd OrderEntry) list \<Rightarrow> 'd MatchPlan \<Rightarrow> 'd MatchPlan res" where
  "plan_flat L [] plan = Inr plan"
| "plan_flat L ((p, e) # cs) plan =
     (if plan_done L plan then Inr plan else res_bind (plan_maker L p e plan) (plan_flat L cs))"

text \<open>What planning never touches: all of the order but its quantities, and the direction.\<close>

definition plan_frame :: "'d MatchPlan \<Rightarrow> 'd MatchPlan \<Rightarrow> bool" where
  "plan_frame a b \<longleftrightarrow> p_maker_buy b = p_maker_buy a \<and>
     p_order b = (p_order a)\<lparr>o_amount := o_amount (p_order b), o_filled_amount := o_filled_amount (p_order b),
       o_remaining_amount := o_remaining_amount (p_order b),
       o_remaining_quote_amount := o_remaining_quote_amount (p_order b)\<rparr> \<and>
     (o_remaining_quote_amount (p_order b) = None \<longleftrightarrow> o_remaining_quote_amount (p_order a) = None)"

lemma plan_frame_refl [simp]: "plan_frame a a"
  by (simp add: plan_frame_def)

lemma plan_frame_trans: "plan_frame a b \<Longrightarrow> plan_frame b c \<Longrightarrow> plan_frame a c"
  by (cases "p_order a", cases "p_order b", cases "p_order c") (auto simp: plan_frame_def)

lemma plan_frame_simps:
  assumes "plan_frame a b"
  shows "p_maker_buy b = p_maker_buy a" "o_price (p_order b) = o_price (p_order a)"
    "o_id (p_order b) = o_id (p_order a)" "o_user_id (p_order b) = o_user_id (p_order a)"
    "o_order_type (p_order b) = o_order_type (p_order a)" "o_order_side (p_order b) = o_order_side (p_order a)"
    "o_base_mint (p_order b) = o_base_mint (p_order a)" "o_quote_mint (p_order b) = o_quote_mint (p_order a)"
    "o_fee_rate (p_order b) = o_fee_rate (p_order a)" "o_quote_amount (p_order b) = o_quote_amount (p_order a)"
    "o_created_at (p_order b) = o_created_at (p_order a)"
    "o_remaining_quote_amount (p_order b) = None \<longleftrightarrow> o_remaining_quote_amount (p_order a) = None"
  using assms by (cases "p_order a", cases "p_order b", simp add: plan_frame_def)+

lemma plan_fill_frame: "plan_fill L p e q plan = Inr plan' \<Longrightarrow> plan_frame plan plan'"
  by (cases "p_order plan")
    (auto simp: plan_fill_def plan_frame_def Let_def res_bind_Inr_iff ensure_Inr_iff split: option.splits)

lemma plan_maker_frame: "plan_maker L p e plan = Inr plan' \<Longrightarrow> plan_frame plan plan'"
  by (auto simp: plan_maker_def res_bind_Inr_iff ensure_Inr_iff intro: plan_fill_frame split: if_splits)

lemma plan_flat_frame: "plan_flat L cs plan = Inr plan' \<Longrightarrow> plan_frame plan plan'"
proof (induction L cs plan rule: plan_flat.induct)
  case (2 L p e cs plan)
  then show ?case
    by (auto simp: res_bind_Inr_iff split: if_splits intro: plan_frame_trans plan_maker_frame)
qed simp

lemma plan_flat_done: "plan_done L plan \<Longrightarrow> plan_flat L cs plan = Inr plan"
  by (cases cs) auto

lemma plan_flat_append:
  "plan_flat L (xs @ ys) plan = res_bind (plan_flat L xs plan) (plan_flat L ys)"
proof (induction xs arbitrary: plan)
  case Nil
  then show ?case by simp
next
  case (Cons x xs)
  obtain p e where x: "x = (p, e)" by force
  show ?case
    using Cons by (simp add: x plan_flat_done res_bind_assoc cong: res_bind_cong)
qed

lemma plan_queue_flat: "map_sum id fst (plan_queue L p q plan) = plan_flat L (map (Pair p) q) plan"
proof (induction L p q plan rule: plan_queue.induct)
  case (2 L p e q plan)
  then show ?case by (cases "plan_maker L p e plan") auto
qed simp

lemma plan_queue_returned: "plan_queue L p q plan = Inr (plan', True) \<Longrightarrow> plan_done L plan'"
  by (induction L p q plan rule: plan_queue.induct) (auto simp: res_bind_Inr_iff split: if_splits)

lemma beyond_limit_frame: "plan_frame a b \<Longrightarrow> beyond_limit L b = beyond_limit L a"
  by (rule ext) (simp add: beyond_limit_def plan_frame_simps split: option.split)

lemma candidates_frame: "plan_frame a b \<Longrightarrow> candidates L b levels = candidates L a levels"
  by (simp add: candidates_def beyond_limit_frame)

lemma plan_levels_flat: "plan_levels L levels plan = plan_flat L (candidates L plan levels) plan"
proof (induction L levels plan rule: plan_levels.induct)
  case (1 L plan)
  then show ?case by (simp add: candidates_def)
next
  case (2 L p q levels plan)
  show ?case
  proof (cases "beyond_limit L plan p")
    case True
    then show ?thesis by (simp add: candidates_def)
  next
    case False
    then have cand: "candidates L plan ((p, q) # levels) = map (Pair p) q @ candidates L plan levels"
      by (simp add: candidates_def)
    show ?thesis
    proof (cases "plan_queue L p q plan")
      case (Inl e)
      then show ?thesis
        using False by (simp add: cand plan_flat_append plan_queue_flat [symmetric])
    next
      case (Inr r)
      obtain plan1 b where r: "r = (plan1, b)" by force
      have flat: "plan_flat L (map (Pair p) q) plan = Inr plan1"
        using plan_queue_flat [of L p q plan] Inr r by simp
      have "plan_frame plan plan1" using flat by (rule plan_flat_frame)
      then show ?thesis
        using False Inr r flat 2 [OF False Inr r [symmetric]] plan_queue_returned [of L p q plan plan1]
        by (cases b) (simp_all add: cand plan_flat_append plan_flat_done candidates_frame)
    qed
  qed
qed

section \<open>One step in integers\<close>

definition maker_ok :: "'d decimal_lib \<Rightarrow> 'd MatchPlan \<Rightarrow> 'd \<Rightarrow> 'd OrderEntry \<Rightarrow> bool" where
  "maker_ok L plan p e \<longleftrightarrow> validate L e False = Inr () \<and> dec_eq_opt L (o_price e) (Some p) \<and>
     o_order_side e = ''limit'' \<and> (o_order_type e = ''buy'') = p_maker_buy plan \<and>
     o_base_mint e = o_base_mint (p_order plan) \<and> o_quote_mint e = o_quote_mint (p_order plan) \<and>
     o_id e \<noteq> o_id (p_order plan)"

definition plan_quantity :: "'d decimal_lib \<Rightarrow> 'd \<Rightarrow> 'd OrderEntry \<Rightarrow> 'd MatchPlan \<Rightarrow> 'd res" where
  "plan_quantity L p e plan =
     (case o_remaining_quote_amount (p_order plan) of
        Some budget \<Rightarrow> quantity_for_budget L budget p (o_remaining_amount e)
      | None \<Rightarrow> Inr (dec_min L (o_remaining_amount (p_order plan)) (o_remaining_amount e)))"

lemma plan_maker_cases:
  assumes "plan_maker L p e plan = Inr plan'"
  obtains (self) "maker_ok L plan p e" "plan' = plan" "o_user_id e = o_user_id (p_order plan)"
  | (none) q where "maker_ok L plan p e" "plan' = plan" "o_user_id e \<noteq> o_user_id (p_order plan)"
      "plan_quantity L p e plan = Inr q" "dec_eq L q (dec_zero L)"
  | (fill) q where "maker_ok L plan p e" "o_user_id e \<noteq> o_user_id (p_order plan)"
      "plan_quantity L p e plan = Inr q" "\<not> dec_eq L q (dec_zero L)" "plan_fill L p e q plan = Inr plan'"
  using assms
  by (auto simp: plan_maker_def maker_ok_def plan_quantity_def res_bind_Inr_iff ensure_Inr_iff
      split: if_splits)

text \<open>The maker after a fill and the change of the plan, with the amounts as integers.\<close>

definition filled_maker :: "'d decimal_lib \<Rightarrow> 'd OrderEntry \<Rightarrow> int \<Rightarrow> 'd OrderEntry \<Rightarrow> bool" where
  "filled_maker L e n e' \<longleftrightarrow>
     e' = e\<lparr>o_remaining_amount := o_remaining_amount e', o_filled_amount := o_filled_amount e'\<rparr> \<and>
     is_ok (units L (o_remaining_amount e)) \<and> is_ok (units L (o_remaining_amount e')) \<and>
     is_ok (units L (o_filled_amount e)) \<and> is_ok (units L (o_filled_amount e')) \<and>
     units_of L (o_remaining_amount e') = units_of L (o_remaining_amount e) - n \<and>
     units_of L (o_filled_amount e') = units_of L (o_filled_amount e) + n"

definition order_step :: "'d decimal_lib \<Rightarrow> 'd OrderEntry \<Rightarrow> int \<Rightarrow> int \<Rightarrow> 'd OrderEntry \<Rightarrow> bool" where
  "order_step L a n z b \<longleftrightarrow>
     is_ok (units L (o_filled_amount b)) \<and>
     units_of L (o_filled_amount b) = units_of L (o_filled_amount a) + n \<and>
     (case o_remaining_quote_amount a of
        None \<Rightarrow> o_remaining_quote_amount b = None \<and> o_amount b = o_amount a \<and>
          is_ok (units L (o_remaining_amount b)) \<and>
          units_of L (o_remaining_amount b) = units_of L (o_remaining_amount a) - n
      | Some x \<Rightarrow> \<exists>y. o_remaining_quote_amount b = Some y \<and> is_ok (units L y) \<and>
          units_of L y = units_of L x - z \<and> o_remaining_amount b = o_remaining_amount a \<and>
          is_ok (units L (o_amount b)) \<and>
          units_of L (o_amount b) = units_of L (o_amount a) + n)"

definition level_makers :: "'d decimal_lib \<Rightarrow> 'd MatchPlan \<Rightarrow> 'd \<Rightarrow> (u64, 'd OrderEntry) hashmap" where
  "level_makers L plan p = (case bt_get L p (p_makers plan) of None \<Rightarrow> [] | Some m \<Rightarrow> m)"

context decimal_library
begin

lemma add_units:
  assumes "add L a b = Inr c"
  shows "is_ok (units L c)" "units_of L c = units_of L a + units_of L b" "is_ok (units L a)" "is_ok (units L b)"
  using assms by (auto elim!: add_InrE)

lemma subtract_units:
  assumes "subtract L a b = Inr c"
  shows "is_ok (units L c)" "units_of L c = units_of L a - units_of L b" "is_ok (units L a)" "is_ok (units L b)"
    "units_of L b \<le> units_of L a"
  using assms by (auto elim!: subtract_InrE)

lemma quote_units:
  assumes "quote L p q = Inr v"
  shows "is_ok (units L v)" "units_of L p * units_of L q = units_of L v * FACTOR"
    "is_ok (units L p)" "is_ok (units L q)"
  using assms by (auto elim!: quote_InrE)

lemma plan_fill_Inr:
  assumes "plan_fill L p e q plan = Inr plan'"
  obtains e' v where "quote L p q = Inr v" "filled_maker L e (units_of L q) e'"
    "order_step L (p_order plan) (units_of L q) (units_of L v) (p_order plan')"
    "is_ok (units L (p_total_amount plan'))" "is_ok (units L (p_total_quote plan'))"
    "units_of L (p_total_amount plan') = units_of L (p_total_amount plan) + units_of L q"
    "units_of L (p_total_quote plan') = units_of L (p_total_quote plan) + units_of L v"
    "p_matches plan' = p_matches plan @ [plan_match plan e p q]"
    "hm_get (level_makers L plan p) (o_id e) = None"
    "p_makers plan' = bt_put L p (hm_insert (o_id e) e' (level_makers L plan p)) (p_makers plan)"
proof -
  from assms obtain v mr mf ord fl ta tq where
    r: "quote L p q = Inr v" "subtract L (o_remaining_amount e) q = Inr mr"
      "add L (o_filled_amount e) q = Inr mf"
    and ord: "(case o_remaining_quote_amount (p_order plan) of
          Some budget \<Rightarrow> res_bind (subtract L budget v) (\<lambda>b. res_bind (add L (o_amount (p_order plan)) q) (\<lambda>a.
                Inr ((p_order plan)\<lparr>o_remaining_quote_amount := Some b, o_amount := a\<rparr>)))
        | None \<Rightarrow> res_bind (subtract L (o_remaining_amount (p_order plan)) q) (\<lambda>r.
              Inr ((p_order plan)\<lparr>o_remaining_amount := r\<rparr>))) = Inr ord"
    and t: "add L (o_filled_amount ord) q = Inr fl" "add L (p_total_amount plan) q = Inr ta"
      "add L (p_total_quote plan) v = Inr tq" "hm_get (level_makers L plan p) (o_id e) = None"
    and p': "plan' = (let e' = e\<lparr>o_remaining_amount := mr, o_filled_amount := mf\<rparr>;
        plan1 = plan\<lparr>p_order := ord\<lparr>o_filled_amount := fl\<rparr>, p_total_amount := ta, p_total_quote := tq\<rparr> in
        plan1\<lparr>p_matches := p_matches plan @ [plan_match plan1 e' p q],
           p_makers := bt_put L p (hm_insert (o_id e) e' (level_makers L plan p)) (p_makers plan)\<rparr>)"
    unfolding plan_fill_def Let_def res_bind_Inr_iff ensure_Inr_iff
    by (auto simp: level_makers_def)
  let ?e = "e\<lparr>o_remaining_amount := mr, o_filled_amount := mf\<rparr>"
  have "filled_maker L e (units_of L q) ?e"
    using subtract_units [OF r(2)] add_units [OF r(3)] by (simp add: filled_maker_def)
  moreover have "order_step L (p_order plan) (units_of L q) (units_of L v) (ord\<lparr>o_filled_amount := fl\<rparr>)"
    using ord add_units [OF t(1)]
    by (auto simp: order_step_def res_bind_Inr_iff subtract_units add_units split: option.splits)
  moreover have "plan_match (plan\<lparr>p_order := ord\<lparr>o_filled_amount := fl\<rparr>, p_total_amount := ta,
      p_total_quote := tq\<rparr>) ?e p q = plan_match plan e p q"
    using ord by (auto simp: plan_match_def Let_def res_bind_Inr_iff split: option.splits)
  ultimately show thesis
    using that [OF r(1), of ?e] add_units [OF t(2)] add_units [OF t(3)] t(4) p'
    by (simp add: Let_def)
qed

end

section \<open>The log of fills of a plan\<close>

record 'd Fill =
  f_price :: 'd
  f_maker :: "'d OrderEntry"
  f_after :: "'d OrderEntry"
  f_quantity :: 'd

definition fill_amount :: "'d decimal_lib \<Rightarrow> 'd Fill \<Rightarrow> int" where
  "fill_amount L f = units_of L (f_quantity f)"

definition fill_quote :: "'d decimal_lib \<Rightarrow> 'd Fill \<Rightarrow> int" where
  "fill_quote L f = units_of L (f_price f) * units_of L (f_quantity f) div FACTOR"

definition fill_match :: "'d MatchPlan \<Rightarrow> 'd Fill \<Rightarrow> 'd MatchResult" where
  "fill_match plan f = plan_match plan (f_maker f) (f_price f) (f_quantity f)"

definition record_fill ::
    "'d decimal_lib \<Rightarrow> 'd Fill \<Rightarrow> ('d \<times> (u64, 'd OrderEntry) hashmap) list \<Rightarrow>
     ('d \<times> (u64, 'd OrderEntry) hashmap) list" where
  "record_fill L f makers =
     bt_put L (f_price f) (hm_insert (o_id (f_maker f)) (f_after f)
       (case bt_get L (f_price f) makers of None \<Rightarrow> [] | Some m \<Rightarrow> m)) makers"

definition fill_ok :: "'d decimal_lib \<Rightarrow> 'd MatchPlan \<Rightarrow> 'd Fill \<Rightarrow> bool" where
  "fill_ok L plan f \<longleftrightarrow>
     maker_ok L plan (f_price f) (f_maker f) \<and> o_user_id (f_maker f) \<noteq> o_user_id (p_order plan) \<and>
     filled_maker L (f_maker f) (fill_amount L f) (f_after f) \<and> 0 < fill_amount L f \<and>
     is_ok (quote L (f_price f) (f_quantity f))"

text \<open>The amounts of the planned order that stay valid, and what a quantity and a cost do to them.\<close>

definition plan_ok :: "'d decimal_lib \<Rightarrow> 'd MatchPlan \<Rightarrow> bool" where
  "plan_ok L plan \<longleftrightarrow>
     is_ok (units L (p_total_amount plan)) \<and> is_ok (units L (p_total_quote plan)) \<and>
     is_ok (units L (o_filled_amount (p_order plan))) \<and>
     (case o_remaining_quote_amount (p_order plan) of
        None \<Rightarrow> is_ok (units L (o_remaining_amount (p_order plan)))
      | Some b \<Rightarrow> is_ok (units L b) \<and> is_ok (units L (o_amount (p_order plan))))"

definition order_moved :: "'d decimal_lib \<Rightarrow> 'd OrderEntry \<Rightarrow> int \<Rightarrow> int \<Rightarrow> 'd OrderEntry \<Rightarrow> bool" where
  "order_moved L a n z b \<longleftrightarrow>
     units_of L (o_filled_amount b) = units_of L (o_filled_amount a) + n \<and>
     (case o_remaining_quote_amount a of
        None \<Rightarrow> o_remaining_quote_amount b = None \<and> o_amount b = o_amount a \<and>
          units_of L (o_remaining_amount b) = units_of L (o_remaining_amount a) - n
      | Some x \<Rightarrow> \<exists>y. o_remaining_quote_amount b = Some y \<and> units_of L y = units_of L x - z \<and>
          o_remaining_amount b = o_remaining_amount a \<and>
          units_of L (o_amount b) = units_of L (o_amount a) + n)"

text \<open>Every running total of the fills is the amount of some decimal.\<close>

fun totals_ok :: "'d decimal_lib \<Rightarrow> int \<Rightarrow> 'd Fill list \<Rightarrow> bool" where
  "totals_ok L n [] \<longleftrightarrow> True"
| "totals_ok L n (f # fs) \<longleftrightarrow> (\<exists>v. units L v = Inr (n + fill_amount L f)) \<and> totals_ok L (n + fill_amount L f) fs"

lemma totals_ok_append:
  "totals_ok L n (fs @ gs) \<longleftrightarrow> totals_ok L n fs \<and> totals_ok L (n + sum_list (map (fill_amount L) fs)) gs"
  by (induction fs arbitrary: n) (auto simp: add.assoc)

definition logged :: "'d decimal_lib \<Rightarrow> 'd MatchPlan \<Rightarrow> 'd Fill list \<Rightarrow> 'd MatchPlan \<Rightarrow> bool" where
  "logged L plan fs plan' \<longleftrightarrow>
     plan_frame plan plan' \<and> list_all (fill_ok L plan) fs \<and>
     totals_ok L (units_of L (p_total_amount plan)) fs \<and>
     p_matches plan' = p_matches plan @ map (fill_match plan) fs \<and>
     p_makers plan' = fold (record_fill L) fs (p_makers plan) \<and>
     units_of L (p_total_amount plan') = units_of L (p_total_amount plan) + sum_list (map (fill_amount L) fs) \<and>
     units_of L (p_total_quote plan') = units_of L (p_total_quote plan) + sum_list (map (fill_quote L) fs) \<and>
     order_moved L (p_order plan) (sum_list (map (fill_amount L) fs)) (sum_list (map (fill_quote L) fs))
       (p_order plan')"

lemma order_moved_refl: "order_moved L a 0 0 a"
  by (simp add: order_moved_def split: option.split)

lemma order_moved_trans:
  "order_moved L a n z b \<Longrightarrow> order_moved L b n' z' c \<Longrightarrow> order_moved L a (n + n') (z + z') c"
  by (auto simp: order_moved_def split: option.splits)

lemma maker_ok_frame: "plan_frame a b \<Longrightarrow> maker_ok L b = maker_ok L a"
  by (intro ext) (simp add: maker_ok_def plan_frame_simps)

lemma fill_ok_frame: "plan_frame a b \<Longrightarrow> fill_ok L b = fill_ok L a"
  by (intro ext) (simp add: fill_ok_def maker_ok_frame plan_frame_simps)

lemma fill_match_frame: "plan_frame a b \<Longrightarrow> fill_match b = fill_match a"
  by (intro ext) (simp add: fill_match_def plan_match_def Let_def plan_frame_simps)

lemma logged_Nil [simp]: "logged L plan [] plan"
  by (simp add: logged_def order_moved_refl)

lemma logged_trans:
  assumes "logged L a xs b" "logged L b ys c"
  shows "logged L a (xs @ ys) c"
proof -
  have fr: "plan_frame a b" using assms(1) by (simp add: logged_def)
  show ?thesis
    using assms order_moved_trans plan_frame_trans
    by (fastforce simp: logged_def totals_ok_append fill_ok_frame [OF fr] fill_match_frame [OF fr])
qed

context decimal_library
begin

lemma plan_quantity_pos:
  assumes "plan_quantity L p e plan = Inr q" "\<not> dec_eq L q (dec_zero L)" "is_ok (units L q)"
  shows "0 < units_of L q"
  using assms units_of_nonneg(1) [of q] by (auto simp: is_ok_iff dec_simps units_sign)

lemma plan_maker_log:
  assumes ok: "plan_ok L plan" and run: "plan_maker L p e plan = Inr plan'"
  obtains (skip) "plan' = plan" "maker_ok L plan p e"
      "o_user_id e = o_user_id (p_order plan) \<or>
       (\<exists>q. plan_quantity L p e plan = Inr q \<and> dec_eq L q (dec_zero L))"
  | (fill) f where "f_price f = p" "f_maker f = e" "plan_quantity L p e plan = Inr (f_quantity f)"
      "logged L plan [f] plan'" "plan_ok L plan'"
      "hm_get (level_makers L plan p) (o_id e) = None"
  using run
proof (cases rule: plan_maker_cases)
  case self
  then show thesis by (intro skip) simp_all
next
  case (none q)
  then show thesis by (intro skip) auto
next
  case (fill q)
  note frame = plan_fill_frame [OF fill(5)]
  from fill(5) obtain e' v where f: "quote L p q = Inr v" "filled_maker L e (units_of L q) e'"
    "order_step L (p_order plan) (units_of L q) (units_of L v) (p_order plan')"
    "is_ok (units L (p_total_amount plan'))" "is_ok (units L (p_total_quote plan'))"
    "units_of L (p_total_amount plan') = units_of L (p_total_amount plan) + units_of L q"
    "units_of L (p_total_quote plan') = units_of L (p_total_quote plan) + units_of L v"
    "p_matches plan' = p_matches plan @ [plan_match plan e p q]"
    "hm_get (level_makers L plan p) (o_id e) = None"
    "p_makers plan' = bt_put L p (hm_insert (o_id e) e' (level_makers L plan p)) (p_makers plan)"
    by (rule plan_fill_Inr)
  define g where "g = \<lparr>f_price = p, f_maker = e, f_after = e', f_quantity = q\<rparr>"
  have amounts: "fill_amount L g = units_of L q" "fill_quote L g = units_of L v"
    using quote_units [OF f(1)] by (simp_all add: g_def fill_amount_def fill_quote_def)
  have "fill_ok L plan g"
    using fill f plan_quantity_pos [OF fill(3,4)] quote_units [OF f(1)]
    by (simp add: fill_ok_def amounts) (simp add: g_def)
  moreover have "order_moved L (p_order plan) (units_of L q) (units_of L v) (p_order plan')"
    using f(3) by (auto simp: order_step_def order_moved_def split: option.splits)
  moreover have "\<exists>v. units L v = Inr (units_of L (p_total_amount plan) + units_of L q)"
    using f(4,6) by (intro exI [of _ "p_total_amount plan'"]) (auto simp: is_ok_iff)
  ultimately have "logged L plan [g] plan'"
    using frame f by (simp add: logged_def amounts)
      (simp add: g_def fill_match_def record_fill_def level_makers_def)
  moreover have "plan_ok L plan'"
    using ok f by (auto simp: plan_ok_def order_step_def split: option.splits)
  ultimately show thesis using fill f by (intro that(2) [of g]) (simp_all add: g_def)
qed

lemma validate_facts:
  assumes "validate L e inc = Inr ()"
  shows "0 < o_id e" "0 < o_user_id e" "o_order_type e \<in> {''buy'', ''sell''}" "o_order_side e \<in> {''limit'', ''market''}"
    "o_base_mint e \<noteq> o_quote_mint e" "inc \<Longrightarrow> dec_val L (o_filled_amount e) = 0"
    "is_ok (fee L (dec_zero L) (o_fee_rate e))"
  using assms by (auto simp: validate_def res_bind_Inr_iff ensure_Inr_iff dec_simps)

lemma validate_quantity_facts:
  assumes "validate L e inc = Inr ()" "\<not> (o_order_side e = ''market'' \<and> o_order_type e = ''buy'')"
  shows "is_ok (units L (o_filled_amount e))" "is_ok (units L (o_remaining_amount e))"
    "0 < units_of L (o_remaining_amount e)" "is_ok (units L (o_amount e))"
    "units_of L (o_filled_amount e) + units_of L (o_remaining_amount e) = units_of L (o_amount e)"
    "o_remaining_quote_amount e = None" "o_quote_amount e = None"
    "o_order_side e = ''limit'' \<Longrightarrow> \<exists>p. o_price e = Some p \<and> 0 < units_of L p \<and> is_ok (quote L p (o_amount e))"
    "o_order_side e \<noteq> ''limit'' \<Longrightarrow> o_price e = None"
proof -
  from assms have v: "validate_quantity L e = Inr ()"
    by (auto simp: validate_def res_bind_Inr_iff ensure_Inr_iff)
  then obtain t where t: "add L (o_filled_amount e) (o_remaining_amount e) = Inr t" "dec_val L t = dec_val L (o_amount e)"
    and pos: "0 < dec_val L (o_remaining_amount e)"
    by (auto simp: validate_quantity_def res_bind_Inr_iff ensure_Inr_iff dec_simps)
  obtain n where n: "units L t = Inr n" using add_units(1) [OF t(1)] by (auto simp: is_ok_iff)
  then have amt: "units L (o_amount e) = Inr n" using units_eq_val [OF t(2)] by simp
  show "is_ok (units L (o_filled_amount e))" "is_ok (units L (o_remaining_amount e))" "is_ok (units L (o_amount e))"
    "units_of L (o_filled_amount e) + units_of L (o_remaining_amount e) = units_of L (o_amount e)"
    using add_units [OF t(1)] n amt by simp_all
  then show "0 < units_of L (o_remaining_amount e)" using pos units_sign(2) by (auto simp: is_ok_iff)
  show "o_remaining_quote_amount e = None" "o_quote_amount e = None"
    "o_order_side e \<noteq> ''limit'' \<Longrightarrow> o_price e = None"
    using v by (auto simp: validate_quantity_def res_bind_Inr_iff ensure_Inr_iff)
  assume "o_order_side e = ''limit''"
  with v obtain p w where "o_price e = Some p" "0 < dec_val L p" "quote L p (o_amount e) = Inr w"
    by (auto simp: validate_quantity_def res_bind_Inr_iff ensure_Inr_iff ok_or_Inr_iff dec_simps)
  then show "\<exists>p. o_price e = Some p \<and> 0 < units_of L p \<and> is_ok (quote L p (o_amount e))"
    using quote_units(3) units_sign(2) by (fastforce simp: is_ok_iff)
qed

lemma validate_budget_facts:
  assumes "validate L e inc = Inr ()" "o_order_side e = ''market''" "o_order_type e = ''buy''"
  obtains b r where "o_quote_amount e = Some b" "o_remaining_quote_amount e = Some r" "dec_val L r = dec_val L b"
    "is_ok (units L b)" "is_ok (units L r)" "0 < units_of L b" "units_of L r = units_of L b"
    "dec_val L (o_amount e) = 0" "dec_val L (o_remaining_amount e) = 0" "o_price e = None"
proof -
  from assms have v: "validate_market_buy L e = Inr ()"
    by (auto simp: validate_def res_bind_Inr_iff ensure_Inr_iff)
  then obtain b r n where e: "o_quote_amount e = Some b" "o_remaining_quote_amount e = Some r"
      "dec_val L r = dec_val L b" "0 < dec_val L b" "units L b = Inr n"
      "dec_val L (o_amount e) = 0" "dec_val L (o_remaining_amount e) = 0" "o_price e = None"
    by (auto simp: validate_market_buy_def res_bind_Inr_iff ensure_Inr_iff ok_or_Inr_iff dec_simps)
  then have "units L r = Inr n" "0 < n" using units_eq_val [OF e(3)] units_sign(2) [OF e(5)] by simp_all
  with e show thesis by (intro that [of b r]) simp_all
qed

lemma zero_ok: "dec_val L d = 0 \<Longrightarrow> units L d = Inr 0"
  using zero_units units_eq_val [of d "dec_zero L" 0] by (simp add: zero_val)

end

text \<open>
  The reference for the quantities of an order that buys or sells a fixed amount: walk the
  candidates in price-time order, pass over own orders, and take as much as both sides have.
\<close>

fun greedy :: "int \<Rightarrow> (bool \<times> int) list \<Rightarrow> int list" where
  "greedy r [] = []"
| "greedy r ((own, m) # xs) =
     (if r = 0 \<or> own then 0 # greedy r xs else min r m # greedy (r - min r m) xs)"

definition greedy_input :: "'d decimal_lib \<Rightarrow> 'd MatchPlan \<Rightarrow> ('d \<times> 'd OrderEntry) list \<Rightarrow> (bool \<times> int) list" where
  "greedy_input L plan cs =
     map (\<lambda>(p, e). (o_user_id e = o_user_id (p_order plan), units_of L (o_remaining_amount e))) cs"

lemma greedy_input_Cons [simp]:
  "greedy_input L plan [] = []"
  "greedy_input L plan ((p, e) # cs) =
     (o_user_id e = o_user_id (p_order plan), units_of L (o_remaining_amount e)) # greedy_input L plan cs"
  by (simp_all add: greedy_input_def)

lemma greedy_zero: "filter (\<lambda>(c, n). 0 < n) (zip cs (greedy 0 xs)) = []"
proof (induction xs arbitrary: cs)
  case (Cons x xs)
  then show ?case by (cases x, cases cs) auto
qed simp

lemma greedy_input_frame: "plan_frame a b \<Longrightarrow> greedy_input L b cs = greedy_input L a cs"
  by (simp add: greedy_input_def plan_frame_simps)

context decimal_library
begin

lemma min_units:
  "is_ok (units L a) \<Longrightarrow> is_ok (units L b) \<Longrightarrow> units_of L (dec_min L a b) = min (units_of L a) (units_of L b)"
  by (auto simp: dec_min_def is_ok_iff le_val units_compare)

lemma maker_ok_quantity:
  assumes "maker_ok L plan p e"
  shows "is_ok (units L (o_remaining_amount e))" "0 < units_of L (o_remaining_amount e)"
  using assms validate_quantity_facts(2,3) [of e False] by (auto simp: maker_ok_def)

lemma plan_quantity_units:
  assumes "plan_ok L plan" "maker_ok L plan p e" "plan_quantity L p e plan = Inr q"
    and "o_remaining_quote_amount (p_order plan) = None"
  shows "units_of L q = min (units_of L (o_remaining_amount (p_order plan))) (units_of L (o_remaining_amount e))"
    and "is_ok (units L q)"
  using assms maker_ok_quantity [OF assms(2)]
  by (auto simp: plan_quantity_def plan_ok_def min_units) (auto simp: dec_min_def)

lemma plan_done_units:
  assumes "plan_ok L plan"
  shows "plan_done L plan \<longleftrightarrow> (case o_remaining_quote_amount (p_order plan) of
      None \<Rightarrow> units_of L (o_remaining_amount (p_order plan)) = 0 | Some b \<Rightarrow> units_of L b = 0)"
  using assms by (auto simp: plan_done_def plan_ok_def is_ok_iff dec_simps units_sign(3) split: option.splits)

text \<open>
  Every successful pass is explained by a log of fills: a subsequence of the candidates in the
  order they were visited (price first, then time). For an order with a fixed amount the
  quantities are those of the greedy reference.
\<close>

lemma plan_flat_log:
  assumes "plan_ok L plan" "plan_flat L cs plan = Inr plan'"
  shows "\<exists>fs. logged L plan fs plan' \<and> plan_ok L plan' \<and>
    subseq (map (\<lambda>f. (f_price f, f_maker f)) fs) cs \<and>
    (o_remaining_quote_amount (p_order plan) = None \<longrightarrow>
      map (\<lambda>f. ((f_price f, f_maker f), fill_amount L f)) fs =
        filter (\<lambda>(c, n). 0 < n)
          (zip cs (greedy (units_of L (o_remaining_amount (p_order plan))) (greedy_input L plan cs))))"
  using assms
proof (induction cs arbitrary: plan)
  case Nil
  then show ?case by (intro exI [of _ "[]"]) simp
next
  case (Cons c cs)
  obtain p e where c: "c = (p, e)" by force
  let ?rem = "units_of L (o_remaining_amount (p_order plan))"
  show ?case
  proof (cases "plan_done L plan")
    case True
    with Cons.prems have "plan' = plan" by (simp add: c)
    moreover have "o_remaining_quote_amount (p_order plan) = None \<Longrightarrow> ?rem = 0"
      using True plan_done_units [OF Cons.prems(1)] by simp
    ultimately show ?thesis
      using Cons.prems(1) by (intro exI [of _ "[]"]) (auto simp: greedy_zero)
  next
    case False
    with Cons.prems(2) obtain plan1 where run: "plan_maker L p e plan = Inr plan1"
      and rest: "plan_flat L cs plan1 = Inr plan'"
      by (auto simp: c res_bind_Inr_iff)
    have pos: "o_remaining_quote_amount (p_order plan) = None \<Longrightarrow> ?rem \<noteq> 0"
      using False plan_done_units [OF Cons.prems(1)] by simp
    from Cons.prems(1) run show ?thesis
    proof (cases rule: plan_maker_log)
      case skip
      have "o_remaining_quote_amount (p_order plan) = None \<Longrightarrow> o_user_id e = o_user_id (p_order plan)"
        using skip(3) pos plan_quantity_units [OF Cons.prems(1) skip(2)] maker_ok_quantity [OF skip(2)]
          units_of_nonneg(1) [of "o_remaining_amount (p_order plan)"]
        by (auto simp: dec_simps zero_ok)
      with Cons.IH [OF Cons.prems(1)] rest skip(1) show ?thesis
        by (auto simp: c intro!: list_emb_Cons)
    next
      case (fill f)
      from Cons.IH [OF fill(5) rest] obtain fs where fs: "logged L plan1 fs plan'" "plan_ok L plan'"
        "subseq (map (\<lambda>f. (f_price f, f_maker f)) fs) cs"
        "o_remaining_quote_amount (p_order plan1) = None \<longrightarrow>
          map (\<lambda>f. ((f_price f, f_maker f), fill_amount L f)) fs = filter (\<lambda>(c, n). 0 < n)
            (zip cs (greedy (units_of L (o_remaining_amount (p_order plan1))) (greedy_input L plan1 cs)))"
        by auto
      have frame: "plan_frame plan plan1" and ok: "fill_ok L plan f"
        and moved: "order_moved L (p_order plan) (fill_amount L f) (fill_quote L f) (p_order plan1)"
        using fill(4) by (simp_all add: logged_def)
      have "map (\<lambda>f. ((f_price f, f_maker f), fill_amount L f)) (f # fs) =
          filter (\<lambda>(c, n). 0 < n) (zip (c # cs) (greedy ?rem (greedy_input L plan (c # cs))))"
        if none: "o_remaining_quote_amount (p_order plan) = None"
      proof -
        have "maker_ok L plan p e" "o_user_id e \<noteq> o_user_id (p_order plan)" "0 < fill_amount L f"
          using ok fill(1,2) by (simp_all add: fill_ok_def)
        then have "fill_amount L f = min ?rem (units_of L (o_remaining_amount e))"
          using plan_quantity_units [OF Cons.prems(1) _ fill(3) none] by (simp add: fill_amount_def)
        moreover have "units_of L (o_remaining_amount (p_order plan1)) = ?rem - fill_amount L f"
          "o_remaining_quote_amount (p_order plan1) = None"
          using moved none by (simp_all add: order_moved_def)
        ultimately show ?thesis
          using fs(4) ok pos [OF none] fill(1,2) greedy_input_frame [OF frame, of L cs]
          by (simp add: c fill_ok_def)
      qed
      with fill fs logged_trans [OF fill(4) fs(1)] show ?thesis
        by (intro exI [of _ "f # fs"]) (simp add: c)
    qed
  qed
qed

end

section \<open>Plans of an order\<close>

definition initial_plan :: "'d decimal_lib \<Rightarrow> 'd OrderEntry \<Rightarrow> 'd MatchPlan" where
  "initial_plan L incoming =
     \<lparr>p_order = incoming, p_matches = [], p_total_amount = dec_zero L, p_total_quote = dec_zero L,
      p_makers = [], p_maker_buy = (o_order_type incoming = ''sell'')\<rparr>"

definition maker_side :: "'d OrderEntry \<Rightarrow> 'd OrderBook \<Rightarrow> 'd OrderBookSide" where
  "maker_side incoming book = (if o_order_type incoming = ''sell'' then buy_orders book else sell_orders book)"

text \<open>
  The price-time sequence of an order: the resting orders of the opposite side at prices within
  the limit, best price first and oldest first within a price.
\<close>

definition price_time :: "'d decimal_lib \<Rightarrow> 'd OrderEntry \<Rightarrow> 'd OrderBook \<Rightarrow> ('d \<times> 'd OrderEntry) list" where
  "price_time L incoming book =
     candidates L (initial_plan L incoming)
       (if o_order_type incoming = ''sell'' then rev (orders (maker_side incoming book))
        else orders (maker_side incoming book))"

lemma plan_order_flat:
  "plan_order L incoming book =
     res_bind (validate L incoming True) (\<lambda>_. plan_flat L (price_time L incoming book) (initial_plan L incoming))"
  by (simp add: plan_order_def price_time_def initial_plan_def maker_side_def plan_levels_flat Let_def)

lemma candidates_sorted:
  assumes "sorted_wrt (\<lambda>x y. R (fst x) (fst y)) levels" "\<And>x. R x x"
  shows "sorted_wrt (\<lambda>x y. R (fst x) (fst y)) (candidates L plan levels)"
proof -
  have flat: "sorted_wrt (\<lambda>x y. R (fst x) (fst y)) (concat (map (\<lambda>(p, q). map (Pair p) q) ls))"
    if "sorted_wrt (\<lambda>x y. R (fst x) (fst y)) ls" for ls :: "('a \<times> 'a OrderEntry list) list"
    using that
  proof (induction ls)
    case (Cons l ls)
    have "sorted_wrt (\<lambda>x y. R (fst x) (fst y)) (map (Pair p) q)" for p and q :: "'a OrderEntry list"
      by (induction q) (auto simp: assms(2))
    with Cons show ?case by (cases l) (auto simp: sorted_wrt_append)
  qed simp
  have "sorted_wrt (\<lambda>x y. R (fst x) (fst y)) (takeWhile P levels)" for P
    using assms(1) takeWhile_eq_take [of P levels] by (simp add: sorted_wrt_take)
  then show ?thesis unfolding candidates_def by (rule flat)
qed

lemma candidates_subset: "(p, e) \<in> set (candidates L plan levels) \<Longrightarrow>
    \<exists>q. (p, q) \<in> set levels \<and> e \<in> set q \<and> \<not> beyond_limit L plan p"
  by (fastforce simp: candidates_def dest: set_takeWhileD)

lemma subseq_set: "subseq xs ys \<Longrightarrow> x \<in> set xs \<Longrightarrow> x \<in> set ys"
  by (auto elim: list_emb_set)

context decimal_library
begin

lemma initial_plan_ok: "validate L o' True = Inr () \<Longrightarrow> plan_ok L (initial_plan L o')"
proof (cases "o_order_side o' = ''market'' \<and> o_order_type o' = ''buy''")
  case True
  assume v: "validate L o' True = Inr ()"
  from True v obtain b r where "o_remaining_quote_amount o' = Some r" "is_ok (units L r)"
    "dec_val L (o_amount o') = 0"
    by (auto elim: validate_budget_facts)
  then show ?thesis
    using validate_facts(6) [OF v] by (simp add: plan_ok_def initial_plan_def zero_ok zero_units)
next
  case False
  assume v: "validate L o' True = Inr ()"
  show ?thesis
    using validate_quantity_facts [OF v False] by (simp add: plan_ok_def initial_plan_def zero_units)
qed

lemma plan_order_log:
  assumes "plan_order L o' book = Inr plan"
  obtains fs where "validate L o' True = Inr ()" "logged L (initial_plan L o') fs plan" "plan_ok L plan"
    "subseq (map (\<lambda>f. (f_price f, f_maker f)) fs) (price_time L o' book)"
    "o_remaining_quote_amount o' = None \<Longrightarrow>
      map (\<lambda>f. ((f_price f, f_maker f), fill_amount L f)) fs =
        filter (\<lambda>(c, n). 0 < n) (zip (price_time L o' book)
          (greedy (units_of L (o_remaining_amount o')) (greedy_input L (initial_plan L o') (price_time L o' book))))"
proof -
  have v: "validate L o' True = Inr ()"
    and f: "plan_flat L (price_time L o' book) (initial_plan L o') = Inr plan"
    using assms by (auto simp: plan_order_flat res_bind_Inr_iff)
  show thesis
    using plan_flat_log [OF initial_plan_ok [OF v] f] that [OF v] by (auto simp: initial_plan_def)
qed

lemma price_time_sorted:
  assumes "side_ok L (maker_side o' book)"
  shows "sorted_wrt (\<lambda>x y. if o_order_type o' = ''sell'' then dec_le L (fst y) (fst x) else dec_le L (fst x) (fst y))
    (price_time L o' book)"
proof (cases "o_order_type o' = ''sell''")
  case True
  have "sorted_wrt (\<lambda>x y. dec_val L (fst y) \<le> dec_val L (fst x)) (rev (orders (maker_side o' book)))"
    using assms
    by (auto simp: side_ok_def bt_ok_def sorted_wrt_map sorted_wrt_rev lt_val elim: sorted_wrt_mono_rel [rotated])
  then show ?thesis
    using True candidates_sorted [where R = "\<lambda>x y. dec_val L y \<le> dec_val L x"]
    by (simp add: price_time_def le_val)
next
  case False
  have "sorted_wrt (\<lambda>x y. dec_val L (fst x) \<le> dec_val L (fst y)) (orders (maker_side o' book))"
    using assms
    by (auto simp: side_ok_def bt_ok_def sorted_wrt_map lt_val elim: sorted_wrt_mono_rel [rotated])
  then show ?thesis
    using False candidates_sorted [where R = "\<lambda>x y. dec_val L x \<le> dec_val L y"]
    by (simp add: price_time_def le_val)
qed

lemma plan_trade_contract:
  assumes "plan_order L o' book = Inr plan" "t \<in> set (p_matches plan)"
  shows "0 < units_of L (m_amount t)" "m_buyer_id t \<noteq> m_seller_id t" "m_buy_order_id t \<noteq> m_sell_order_id t"
    "m_base_mint t = o_base_mint o'" "m_quote_mint t = o_quote_mint o'"
    "if o_order_type o' = ''sell'' then m_seller_id t = o_user_id o' \<and> m_sell_order_id t = o_id o'
     else m_buyer_id t = o_user_id o' \<and> m_buy_order_id t = o_id o'"
    "\<And>limit. o_price o' = Some limit \<Longrightarrow>
      if o_order_type o' = ''sell'' then dec_le L limit (m_price t) else dec_le L (m_price t) limit"
proof -
  from assms(1) obtain fs where fs: "logged L (initial_plan L o') fs plan"
    "subseq (map (\<lambda>f. (f_price f, f_maker f)) fs) (price_time L o' book)"
    by (rule plan_order_log)
  then obtain f where f: "f \<in> set fs" "t = fill_match (initial_plan L o') f"
    using assms(2) by (auto simp: logged_def initial_plan_def)
  have ok: "fill_ok L (initial_plan L o') f"
    using fs(1) f(1) by (auto simp: logged_def list_all_iff)
  have "(f_price f, f_maker f) \<in> set (price_time L o' book)"
    using fs(2) f(1) by (fastforce dest: subseq_set)
  then have within: "\<not> beyond_limit L (initial_plan L o') (f_price f)"
    by (auto simp: price_time_def dest!: candidates_subset)
  show "0 < units_of L (m_amount t)" "m_buyer_id t \<noteq> m_seller_id t" "m_buy_order_id t \<noteq> m_sell_order_id t"
    "m_base_mint t = o_base_mint o'" "m_quote_mint t = o_quote_mint o'"
    "if o_order_type o' = ''sell'' then m_seller_id t = o_user_id o' \<and> m_sell_order_id t = o_id o'
     else m_buyer_id t = o_user_id o' \<and> m_buy_order_id t = o_id o'"
    using ok by (auto simp: f(2) fill_match_def plan_match_def initial_plan_def fill_ok_def fill_amount_def
        maker_ok_def Let_def)
  show "\<And>limit. o_price o' = Some limit \<Longrightarrow>
      if o_order_type o' = ''sell'' then dec_le L limit (m_price t) else dec_le L (m_price t) limit"
    using within by (auto simp: f(2) fill_match_def plan_match_def Let_def beyond_limit_def initial_plan_def dec_simps)
qed

lemma fill_quote_exact: "fill_ok L plan f \<Longrightarrow> fill_quote L f * FACTOR = units_of L (f_price f) * units_of L (f_quantity f)"
  by (auto simp: fill_ok_def fill_quote_def is_ok_iff quote_units(2))

lemma plan_amount_contract:
  assumes "plan_order L o' book = Inr plan"
  shows "units_of L (p_total_amount plan) = (\<Sum>t \<leftarrow> p_matches plan. units_of L (m_amount t))"
    and "units_of L (p_total_quote plan) * FACTOR =
      (\<Sum>t \<leftarrow> p_matches plan. units_of L (m_price t) * units_of L (m_amount t))"
    and "units_of L (o_filled_amount (p_order plan)) = units_of L (p_total_amount plan)"
    and "o_remaining_quote_amount o' = None \<Longrightarrow>
      units_of L (o_remaining_amount (p_order plan)) = units_of L (o_amount o') - units_of L (p_total_amount plan)"
    and "o_remaining_quote_amount o' = Some b \<Longrightarrow> \<exists>r. o_remaining_quote_amount (p_order plan) = Some r \<and>
      units_of L r = units_of L b - units_of L (p_total_quote plan)"
proof -
  from assms obtain fs where v: "validate L o' True = Inr ()" and fs: "logged L (initial_plan L o') fs plan"
    by (rule plan_order_log)
  let ?p0 = "initial_plan L o'"
  have ok: "list_all (fill_ok L ?p0) fs" and m: "p_matches plan = map (fill_match ?p0) fs"
    and ta: "units_of L (p_total_amount plan) = sum_list (map (fill_amount L) fs)"
    and tq: "units_of L (p_total_quote plan) = sum_list (map (fill_quote L) fs)"
    and moved: "order_moved L o' (units_of L (p_total_amount plan)) (units_of L (p_total_quote plan)) (p_order plan)"
    using fs by (simp_all add: logged_def initial_plan_def zero_units)
  have sel: "m_amount (fill_match ?p0 f) = f_quantity f" "m_price (fill_match ?p0 f) = f_price f" for f
    by (simp_all add: fill_match_def plan_match_def Let_def)
  show "units_of L (p_total_amount plan) = (\<Sum>t \<leftarrow> p_matches plan. units_of L (m_amount t))"
    by (simp add: ta m sel fill_amount_def [abs_def] comp_def)
  show "units_of L (p_total_quote plan) * FACTOR =
      (\<Sum>t \<leftarrow> p_matches plan. units_of L (m_price t) * units_of L (m_amount t))"
    using ok unfolding tq m by (induction fs) (auto simp: sel distrib_right dest: fill_quote_exact)
  have fresh: "units_of L (o_filled_amount o') = 0"
    using zero_ok [OF validate_facts(6) [OF v]] by simp
  then show "units_of L (o_filled_amount (p_order plan)) = units_of L (p_total_amount plan)"
    using moved by (simp add: order_moved_def)
  show "o_remaining_quote_amount o' = None \<Longrightarrow>
      units_of L (o_remaining_amount (p_order plan)) = units_of L (o_amount o') - units_of L (p_total_amount plan)"
    using moved fresh validate_quantity_facts(5) [OF v] validate_budget_facts [OF v]
    by (fastforce simp: order_moved_def)
  show "o_remaining_quote_amount o' = Some b \<Longrightarrow> \<exists>r. o_remaining_quote_amount (p_order plan) = Some r \<and>
      units_of L r = units_of L b - units_of L (p_total_quote plan)"
    using moved by (auto simp: order_moved_def)
qed

lemma quantity_for_budget_not_Panic [simp]: "quantity_for_budget L b p r \<noteq> Inl (Panic e)"
  by (auto simp: quantity_for_budget_def Let_def res_bind_Panic_iff ensure_Panic_iff)

lemma add_not_Panic [simp]: "add L a b \<noteq> Inl (Panic e)" "subtract L a b \<noteq> Inl (Panic e)"
  by (auto simp: add_def subtract_def res_bind_Panic_iff ensure_Panic_iff)

lemma validate_not_Panic [simp]: "validate L o' i \<noteq> Inl (Panic e)"
  by (auto simp: validate_def validate_market_buy_def validate_quantity_def res_bind_Panic_iff ensure_Panic_iff
      fee_not_Panic quote_not_Panic)

lemma plan_order_not_Panic: "plan_order L o' book \<noteq> Inl (Panic e)"
proof -
  have "plan_fill L p m q plan \<noteq> Inl (Panic e)" for p m q plan
    by (auto simp: plan_fill_def Let_def res_bind_Panic_iff ensure_Panic_iff quote_not_Panic split: option.splits)
  then have "plan_maker L p m plan \<noteq> Inl (Panic e)" for p m plan
    by (auto simp: plan_maker_def res_bind_Panic_iff ensure_Panic_iff split: option.splits)
  then have "plan_flat L cs plan \<noteq> Inl (Panic e)" for cs plan
    by (induction cs arbitrary: plan) (auto simp: res_bind_Panic_iff split: if_splits)
  then show ?thesis by (auto simp: plan_order_flat res_bind_Panic_iff)
qed

end

section \<open>Properties\<close>

definition sample_book :: "refdec OrderBook" where
  "sample_book =
     \<lparr>trading_pair = TradingPair_new ''SOL'' ''USDT'', buy_orders = OrderBookSide_new,
      sell_orders = sample_side\<rparr>"

text \<open>
  C19. Planning an order never panics and every planned trade is safe: it has a positive
  quantity, joins two different users and two different orders, one of them the incoming order
  on its own side, in the order's market, at the maker's price, which is within the limit.
\<close>

theorem plan_order_trades_safe:
  assumes "decimal_library L"
  shows "plan_order L incoming book \<noteq> Inl (Panic e) \<and>
    (plan_order L incoming book = Inr plan \<and> t \<in> set (p_matches plan) \<longrightarrow>
      0 < units_of L (m_amount t) \<and> m_buyer_id t \<noteq> m_seller_id t \<and> m_buy_order_id t \<noteq> m_sell_order_id t \<and>
      m_base_mint t = o_base_mint incoming \<and> m_quote_mint t = o_quote_mint incoming \<and>
      (if o_order_type incoming = ''sell''
       then m_seller_id t = o_user_id incoming \<and> m_sell_order_id t = o_id incoming
       else m_buyer_id t = o_user_id incoming \<and> m_buy_order_id t = o_id incoming) \<and>
      (\<forall>limit. o_price incoming = Some limit \<longrightarrow>
         (if o_order_type incoming = ''sell'' then dec_le L limit (m_price t) else dec_le L (m_price t) limit)))"
proof (intro conjI impI)
  show "plan_order L incoming book \<noteq> Inl (Panic e)"
    by (rule decimal_library.plan_order_not_Panic [OF assms])
  assume *: "plan_order L incoming book = Inr plan \<and> t \<in> set (p_matches plan)"
  note trade = decimal_library.plan_trade_contract [OF assms conjunct1 [OF *] conjunct2 [OF *]]
  show "0 < units_of L (m_amount t)" "m_buyer_id t \<noteq> m_seller_id t" "m_buy_order_id t \<noteq> m_sell_order_id t"
    "m_base_mint t = o_base_mint incoming" "m_quote_mint t = o_quote_mint incoming"
    "if o_order_type incoming = ''sell'' then m_seller_id t = o_user_id incoming \<and> m_sell_order_id t = o_id incoming
     else m_buyer_id t = o_user_id incoming \<and> m_buy_order_id t = o_id incoming"
    "\<forall>limit. o_price incoming = Some limit \<longrightarrow>
      (if o_order_type incoming = ''sell'' then dec_le L limit (m_price t) else dec_le L (m_price t) limit)"
    using trade by auto
qed

theorem plan_order_trades_safe_witness:
  "\<exists>plan. plan_order ref_decimal (sample_order 50 30 ''buy'' 100 4) sample_book = Inr plan \<and>
     length (p_matches plan) = 2 \<and> (\<forall>t. t \<in> set (p_matches plan) \<longrightarrow> m_buyer_id t \<noteq> m_seller_id t)"
proof -
  have "map_sum id (\<lambda>plan. length (p_matches plan))
      (plan_order ref_decimal (sample_order 50 30 ''buy'' 100 4) sample_book) = Inr 2" by code_simp
  then obtain plan where "plan_order ref_decimal (sample_order 50 30 ''buy'' 100 4) sample_book = Inr plan"
    "length (p_matches plan) = 2"
    by (cases "plan_order ref_decimal (sample_order 50 30 ''buy'' 100 4) sample_book") auto
  with plan_order_trades_safe [OF refd.decimal_library_axioms] show ?thesis by metis
qed

text \<open>
  C20. The amounts of a plan are exact: the totals are the sums over its trades, the quantity
  filled is the total, what remains of a fixed amount is the amount less the total, and what
  remains of a market budget is the budget less the exact cost (so it is never overspent).
\<close>

theorem plan_order_amounts:
  assumes "decimal_library L" "plan_order L incoming book = Inr plan"
  shows "units_of L (p_total_amount plan) = (\<Sum>t \<leftarrow> p_matches plan. units_of L (m_amount t)) \<and>
    units_of L (p_total_quote plan) * FACTOR =
      (\<Sum>t \<leftarrow> p_matches plan. units_of L (m_price t) * units_of L (m_amount t)) \<and>
    units_of L (o_filled_amount (p_order plan)) = units_of L (p_total_amount plan) \<and>
    (o_remaining_quote_amount incoming = None \<longrightarrow>
      units_of L (o_remaining_amount (p_order plan)) =
        units_of L (o_amount incoming) - units_of L (p_total_amount plan)) \<and>
    (\<forall>b. o_remaining_quote_amount incoming = Some b \<longrightarrow>
      (\<exists>r. o_remaining_quote_amount (p_order plan) = Some r \<and>
         units_of L r = units_of L b - units_of L (p_total_quote plan) \<and> 0 \<le> units_of L r))"
  using decimal_library.plan_amount_contract [OF assms] decimal_library.units_of_nonneg(1) [OF assms(1)]
  by blast

theorem plan_order_amounts_witness:
  "\<exists>plan. plan_order ref_decimal (sample_order 50 30 ''buy'' 100 4) sample_book = Inr plan \<and>
     units_of ref_decimal (p_total_quote plan) * FACTOR =
       (\<Sum>t \<leftarrow> p_matches plan. units_of ref_decimal (m_price t) * units_of ref_decimal (m_amount t))"
proof -
  have "is_ok (plan_order ref_decimal (sample_order 50 30 ''buy'' 100 4) sample_book)" by code_simp
  then obtain plan where "plan_order ref_decimal (sample_order 50 30 ''buy'' 100 4) sample_book = Inr plan"
    by (auto simp: is_ok_iff)
  with plan_order_amounts [OF refd.decimal_library_axioms this] show ?thesis by blast
qed

text \<open>
  C18. Price-time priority. The sequence of resting orders an incoming order may trade with is
  sorted from the best price to the worst, and within a price by arrival. The trades of a plan
  follow this sequence, and for an order over a fixed amount they are exactly those of the
  greedy reference: each resting order of another user trades the lesser of what both have left,
  in this sequence, until the incoming order is filled.
\<close>

theorem plan_order_price_time_priority:
  assumes "decimal_library L" "plan_order L incoming book = Inr plan"
    and "side_ok L (maker_side incoming book)"
  shows "sorted_wrt (\<lambda>x y. if o_order_type incoming = ''sell'' then dec_le L (fst y) (fst x)
        else dec_le L (fst x) (fst y)) (price_time L incoming book) \<and>
    (\<exists>fs. p_matches plan = map (fill_match (initial_plan L incoming)) fs \<and>
       subseq (map (\<lambda>f. (f_price f, f_maker f)) fs) (price_time L incoming book) \<and>
       (o_remaining_quote_amount incoming = None \<longrightarrow>
         map (\<lambda>f. ((f_price f, f_maker f), fill_amount L f)) fs =
           filter (\<lambda>(c, n). 0 < n) (zip (price_time L incoming book)
             (greedy (units_of L (o_remaining_amount incoming))
               (greedy_input L (initial_plan L incoming) (price_time L incoming book))))))"
proof -
  have "\<exists>fs. p_matches plan = map (fill_match (initial_plan L incoming)) fs \<and>
       subseq (map (\<lambda>f. (f_price f, f_maker f)) fs) (price_time L incoming book) \<and>
       (o_remaining_quote_amount incoming = None \<longrightarrow>
         map (\<lambda>f. ((f_price f, f_maker f), fill_amount L f)) fs =
           filter (\<lambda>(c, n). 0 < n) (zip (price_time L incoming book)
             (greedy (units_of L (o_remaining_amount incoming))
               (greedy_input L (initial_plan L incoming) (price_time L incoming book)))))"
    by (rule decimal_library.plan_order_log [OF assms(1,2)]) (auto simp: logged_def initial_plan_def)
  with decimal_library.price_time_sorted [OF assms(1,3)] show ?thesis by blast
qed

theorem plan_order_price_time_priority_witness:
  "\<exists>plan fs. plan_order ref_decimal (sample_order 50 30 ''buy'' 100 4) sample_book = Inr plan \<and>
     p_matches plan = map (fill_match (initial_plan ref_decimal (sample_order 50 30 ''buy'' 100 4))) fs \<and>
     subseq (map (\<lambda>f. (f_price f, f_maker f)) fs)
       (price_time ref_decimal (sample_order 50 30 ''buy'' 100 4) sample_book)"
proof -
  have ok: "side_ok ref_decimal (maker_side (sample_order 50 30 ''buy'' 100 4) sample_book)" by code_simp
  have "is_ok (plan_order ref_decimal (sample_order 50 30 ''buy'' 100 4) sample_book)" by code_simp
  then obtain plan where run: "plan_order ref_decimal (sample_order 50 30 ''buy'' 100 4) sample_book = Inr plan"
    by (auto simp: is_ok_iff)
  from plan_order_price_time_priority [OF refd.decimal_library_axioms run ok] run show ?thesis by blast
qed

end
