(* ===== verification/Commit.thy ===== *)
theory Commit
  imports Matcher
begin

text \<open>
  Committing a plan to its book (\<open>MatchPlan::commit_book\<close>): the changes a plan collects are ones
  the order book may apply (\<open>prepared_ok\<close>), so the commit never panics; it keeps the invariant
  \<open>book_ok\<close>; and the resting orders afterwards are the old ones with every matched maker replaced
  by its remainder, or dropped when filled, and the incoming order added when it rests.
\<close>

section \<open>The invariant of a book\<close>

definition alive :: "'d decimal_lib \<Rightarrow> 'd OrderEntry \<Rightarrow> bool" where
  "alive L e \<longleftrightarrow> dec_lt L (dec_zero L) (o_remaining_amount e)"

definition book_entries :: "'d OrderBook \<Rightarrow> 'd OrderEntry list" where
  "book_entries b = side_entries (buy_orders b) @ side_entries (sell_orders b)"

definition entry_ok :: "'d decimal_lib \<Rightarrow> TradingPair \<Rightarrow> string \<Rightarrow> 'd OrderEntry \<Rightarrow> bool" where
  "entry_ok L pair ty e \<longleftrightarrow>
     is_ok (validate L e False) \<and> o_order_side e = ''limit'' \<and> o_order_type e = ty \<and>
     o_base_mint e = tp_base_mint pair \<and> o_quote_mint e = tp_quote_mint pair"

definition book_ok :: "'d decimal_lib \<Rightarrow> 'd OrderBook \<Rightarrow> bool" where
  "book_ok L b \<longleftrightarrow>
     side_ok L (buy_orders b) \<and> side_ok L (sell_orders b) \<and>
     list_all (entry_ok L (trading_pair b) ''buy'') (side_entries (buy_orders b)) \<and>
     list_all (entry_ok L (trading_pair b) ''sell'') (side_entries (sell_orders b)) \<and>
     distinct (map o_id (book_entries b))"

section \<open>Changes of one queue as multisets\<close>

lemma hm_insert_fresh: "hm_get m k = None \<Longrightarrow> hm_insert k v m = m @ [(k, v)]"
  by (induction m) (auto split: if_splits)

lemma mset_pair_sum:
  fixes A :: "'a multiset"
  assumes "A + M = Q + F" "A' + M' = Q' + F'"
  shows "(A + A') + (M + M') = (Q + Q') + (F + F')"
proof -
  have "(A + A') + (M + M') = (A + M) + (A' + M')" by (simp add: ac_simps)
  also have "\<dots> = (Q + Q') + (F + F')" by (simp only: assms) (simp add: ac_simps)
  finally show ?thesis .
qed

lemma mset_cancel:
  fixes S :: "'a multiset"
  assumes "S' + Q = S + A" "A + M = Q + F"
  shows "S' + M = S + F"
proof -
  have "(S' + M) + Q = (S' + Q) + M" by (simp add: ac_simps)
  also have "\<dots> = S + (A + M)" by (simp only: assms(1) add.assoc)
  also have "\<dots> = (S + F) + Q" by (simp only: assms(2)) (simp add: ac_simps)
  finally show ?thesis by simp
qed

lemma filter_insert_id:
  assumes "distinct (map o_id q)" "e \<in> set q" "o_id e \<notin> A"
  shows "mset (filter (\<lambda>x. o_id x \<in> insert (o_id e) A) q) = add_mset e (mset (filter (\<lambda>x. o_id x \<in> A) q))"
  using assms(1,2)
proof (induction q)
  case (Cons x q)
  show ?case
  proof (cases "x = e")
    case True
    then have "o_id e \<notin> o_id ` set q" using Cons.prems by simp
    then have "filter (\<lambda>x. o_id x = o_id e \<or> o_id x \<in> A) q = filter (\<lambda>x. o_id x \<in> A) q"
      by (intro filter_cong) (auto simp: image_iff)
    with True assms(3) show ?thesis by simp
  next
    case False
    with Cons show ?thesis by auto
  qed
qed simp

lemma apply_changes_mset_aux:
  "mset (apply_changes L c q) + mset (filter (\<lambda>e. o_id e \<in> fst ` set c) q) =
   mset q + mset (filter (alive L) (map (\<lambda>e. the (hm_get c (o_id e))) (filter (\<lambda>e. o_id e \<in> fst ` set c) q)))"
proof (induction q)
  case (Cons e q)
  show ?case
  proof (cases "hm_get c (o_id e)")
    case None
    then have "o_id e \<notin> fst ` set c" by (simp add: map_of_eq_None_iff)
    with None Cons show ?thesis by simp
  next
    case (Some n)
    then have "o_id e \<in> fst ` set c" by (metis domI dom_map_of_conv_image_fst)
    with Some Cons show ?thesis by (simp add: alive_def)
  qed
qed simp

lemma apply_changes_mset:
  assumes "distinct (map o_id q)" "distinct (map fst c)" "set (map fst c) \<subseteq> set (map o_id q)"
  shows "mset (apply_changes L c q) + mset (filter (\<lambda>e. o_id e \<in> fst ` set c) q) =
         mset q + mset (filter (alive L) (map snd c))"
proof -
  let ?q = "filter (\<lambda>e. o_id e \<in> fst ` set c) q"
  have dist: "distinct (map o_id ?q)" using assms(1) by (rule distinct_map_filter)
  have "set (map fst c) = set (map o_id ?q)"
    using assms(3) by (auto simp: image_iff subset_iff) (metis fst_conv)
  then have ids: "mset (map fst c) = mset (map o_id ?q)"
    by (rule set_eq_iff_mset_eq_distinct [OF assms(2) dist, THEN iffD1])
  have "mset (map snd c) = image_mset (\<lambda>i. the (hm_get c i)) (mset (map fst c))"
    using assms(2) by (simp add: image_mset.compositionality comp_def)
      (metis (no_types, lifting) image_mset_cong map_of_is_SomeI mset_map option.sel prod.collapse set_mset_mset)
  also have "\<dots> = mset (map (\<lambda>e. the (hm_get c (o_id e))) ?q)"
    unfolding ids by (simp add: image_mset.compositionality comp_def)
  finally have "mset (filter (alive L) (map snd c)) =
      mset (filter (alive L) (map (\<lambda>e. the (hm_get c (o_id e))) ?q))"
    by (simp only: mset_filter)
  then show ?thesis using apply_changes_mset_aux [of L c q] by simp
qed

section \<open>The changes a log of fills collects\<close>

definition collected ::
    "'d decimal_lib \<Rightarrow> 'd OrderBookSide \<Rightarrow> ('d \<times> (u64, 'd OrderEntry) hashmap) list \<Rightarrow> 'd Fill list \<Rightarrow> bool" where
  "collected L s m fs \<longleftrightarrow>
     prepared_ok L m s \<and>
     mset (level_entries (map (\<lambda>(p, c). (p, map snd c)) m)) = mset (map f_after fs) \<and>
     mset (level_entries (map (\<lambda>(p, c). (p, filter (\<lambda>e. o_id e \<in> fst ` set c) (queue_at L s p))) m)) =
       mset (map f_maker fs)"

context decimal_library
begin

lemma bt_put_map:
  assumes "\<And>k k' v. dec_val L k = dec_val L k' \<Longrightarrow> g k v = g k' v"
  shows "map (\<lambda>(k, v). (k, g k v)) (bt_put L k v m) = bt_put L k (g k v) (map (\<lambda>(k, v). (k, g k v)) m)"
  by (induction m) (auto simp: dec_simps intro: assms [OF sym])

lemma bt_get_map:
  assumes "\<And>k k' v. dec_val L k = dec_val L k' \<Longrightarrow> g k v = g k' v"
  shows "bt_get L k (map (\<lambda>(k, v). (k, g k v)) m) = map_option (g k) (bt_get L k m)"
  by (induction m) (auto simp: dec_simps intro: assms [OF sym])

lemma bt_ok_map: "bt_ok L (map (\<lambda>(k, v). (k, g k v)) m) = bt_ok L m"
  by (simp add: bt_ok_def case_prod_unfold comp_def)

text \<open>Replacing the value of one level by a larger one adds the difference to the entries.\<close>

lemma level_entries_grow:
  assumes ok: "bt_ok L m" and cong: "\<And>k k' v. dec_val L k = dec_val L k' \<Longrightarrow> g k v = g k' v"
    and empty: "g k d = []"
    and grow: "mset (g k v') = add_mset x (mset (g k (case bt_get L k m of None \<Rightarrow> d | Some v \<Rightarrow> v)))"
  shows "mset (level_entries (map (\<lambda>(k, v). (k, g k v)) (bt_put L k v' m))) =
    add_mset x (mset (level_entries (map (\<lambda>(k, v). (k, g k v)) m)))"
proof -
  let ?m = "map (\<lambda>(k, v). (k, g k v)) m"
  have "(case bt_get L k ?m of None \<Rightarrow> [] | Some q \<Rightarrow> q) = g k (case bt_get L k m of None \<Rightarrow> d | Some v \<Rightarrow> v)"
    using empty by (simp add: bt_get_map [OF cong] split: option.split)
  with level_entries_put [of ?m k "g k v'"] ok grow show ?thesis
    by (simp add: bt_put_map [OF cong] bt_ok_map)
qed

lemma prepared_level_cong:
  "dec_val L p = dec_val L p' \<Longrightarrow> prepared_level_ok L p c q = prepared_level_ok L p' c q"
  by (simp add: prepared_level_ok_def eq_opt_val)

lemma collected_record_fill:
  assumes col: "collected L s m fs" and s: "side_ok L s" "distinct (map o_id (queue_at L s (f_price f)))"
    and f: "f_maker f \<in> set (queue_at L s (f_price f))" "o_id (f_maker f) \<notin> o_id ` set (map f_maker fs)"
      "dec_eq_opt L (o_price (f_after f)) (Some (f_price f))"
  shows "collected L s (record_fill L f m) (fs @ [f])"
proof -
  let ?p = "f_price f" and ?q = "queue_at L s (f_price f)" and ?i = "o_id (f_maker f)"
  define c where "c = (case bt_get L ?p m of None \<Rightarrow> [] | Some c \<Rightarrow> c)"
  define c' where "c' = hm_insert ?i (f_after f) c"
  have prep: "prepared_ok L m s" and bt: "bt_ok L m"
    using col by (simp_all add: collected_def prepared_ok_def)
  have lev: "c = [] \<or> prepared_level_ok L ?p c ?q"
  proof (cases "bt_get L ?p m")
    case (Some x)
    then obtain k where "dec_val L k = dec_val L ?p" "(k, c) \<in> set m"
      by (auto simp: c_def dest!: bt_get_sound)
    then show ?thesis
      using prep prepared_level_cong [of k ?p c ?q] queue_at_cong [of k ?p s]
      by (auto simp: prepared_ok_def)
  qed (simp add: c_def)
  have fresh: "?i \<notin> fst ` set c"
  proof
    assume i: "?i \<in> fst ` set c"
    then have "bt_get L ?p m = Some c" by (cases "bt_get L ?p m") (auto simp: c_def)
    then obtain k where k: "dec_val L k = dec_val L ?p" "(k, c) \<in> set m" by (auto dest!: bt_get_sound)
    have "f_maker f \<in> set (filter (\<lambda>e. o_id e \<in> fst ` set c) (queue_at L s k))"
      using i f(1) queue_at_cong [OF k(1), of s] by simp
    then have "f_maker f \<in> set (level_entries (map (\<lambda>(p, c). (p, filter (\<lambda>e. o_id e \<in> fst ` set c) (queue_at L s p))) m))"
      using k(2) by (force simp: level_entries_def)
    moreover have "set (level_entries (map (\<lambda>(p, c). (p, filter (\<lambda>e. o_id e \<in> fst ` set c) (queue_at L s p))) m)) =
        set (map f_maker fs)"
      using col unfolding collected_def by (intro mset_eq_setD) blast
    ultimately show False using f(2) by blast
  qed
  have ins: "c' = c @ [(?i, f_after f)]"
    using fresh by (simp add: c'_def hm_insert_fresh map_of_eq_None_iff)
  have new: "prepared_level_ok L ?p c' ?q"
    using lev fresh f s(2) by (auto simp: ins prepared_level_ok_def)
  have "prepared_ok L (bt_put L ?p c' m) s"
    unfolding prepared_ok_def
  proof (intro conjI ballI, goal_cases)
    case 1
    then show ?case by (rule bt_ok_put [OF bt])
  next
    case (2 x)
    obtain k v where x: "x = (k, v)" by force
    with 2 bt_put_set [OF bt, of k v ?p c'] show ?case
      using new prep prepared_level_cong [of k ?p c' ?q] queue_at_cong [of k ?p s]
      by (auto simp: prepared_ok_def split: if_splits)
  qed
  moreover have "mset (level_entries (map (\<lambda>(p, c). (p, map snd c)) (bt_put L ?p c' m))) =
      add_mset (f_after f) (mset (level_entries (map (\<lambda>(p, c). (p, map snd c)) m)))"
    by (rule level_entries_grow [OF bt, where d = "[]"]) (simp_all add: ins c_def)
  moreover have "mset (level_entries (map (\<lambda>(p, c). (p, filter (\<lambda>e. o_id e \<in> fst ` set c) (queue_at L s p))) (bt_put L ?p c' m))) =
      add_mset (f_maker f) (mset (level_entries (map (\<lambda>(p, c). (p, filter (\<lambda>e. o_id e \<in> fst ` set c) (queue_at L s p))) m)))"
  proof (rule level_entries_grow [OF bt, where d = "[]"])
    show "filter (\<lambda>e. o_id e \<in> fst ` set v) (queue_at L s k) = filter (\<lambda>e. o_id e \<in> fst ` set v) (queue_at L s k')"
      if "dec_val L k = dec_val L k'" for k k' and v :: "(u64, 'a OrderEntry) hashmap"
      using queue_at_cong [OF that] by simp
    show "mset (filter (\<lambda>e. o_id e \<in> fst ` set c') ?q) = add_mset (f_maker f)
        (mset (filter (\<lambda>e. o_id e \<in> fst ` set (case bt_get L ?p m of None \<Rightarrow> [] | Some v \<Rightarrow> v)) ?q))"
      using filter_insert_id [OF s(2) f(1) fresh] by (simp add: ins c_def [symmetric])
  qed simp
  ultimately show ?thesis
    using col by (simp add: collected_def record_fill_def c_def [symmetric] c'_def [symmetric])
qed

lemma queue_distinct:
  assumes "side_ok L s" "distinct (map o_id (side_entries s))"
  shows "distinct (map o_id (queue_at L s p))"
proof -
  have "mset (level_entries (bt_remove L p (orders s)) @ queue_at L s p) = mset (side_entries s)"
    using level_entries_remove [OF side_okD(1) [OF assms(1)], of p] by (simp add: side_entries_def queue_at_def)
  then have "mset (map o_id (level_entries (bt_remove L p (orders s)) @ queue_at L s p)) =
      mset (map o_id (side_entries s))"
    by (metis mset_map)
  then show ?thesis using assms(2) mset_eq_imp_distinct_iff by fastforce
qed

lemma candidate_queue:
  assumes "side_ok L s" "(p, e) \<in> set (candidates L plan levels)" "set levels = set (orders s)"
  shows "e \<in> set (queue_at L s p)"
proof -
  from assms(2,3) obtain q where "(p, q) \<in> set (orders s)" "e \<in> set q"
    by (auto dest: candidates_subset)
  then show ?thesis
    using bt_get_complete [OF side_okD(1) [OF assms(1)], of p q p] by (simp add: queue_at_def)
qed

lemma collected_log:
  assumes s: "side_ok L s" "distinct (map o_id (side_entries s))"
    and fs: "\<And>f. f \<in> set fs \<Longrightarrow> f_maker f \<in> set (queue_at L s (f_price f)) \<and>
        dec_eq_opt L (o_price (f_after f)) (Some (f_price f))"
      "distinct (map (\<lambda>f. o_id (f_maker f)) fs)"
  shows "collected L s (fold (record_fill L) fs []) fs"
  using fs
proof (induction fs rule: rev_induct)
  case Nil
  then show ?case by (simp add: collected_def prepared_ok_def level_entries_def)
next
  case (snoc f fs)
  then have "collected L s (fold (record_fill L) fs []) fs" by simp
  then have "collected L s (record_fill L f (fold (record_fill L) fs [])) (fs @ [f])"
    using snoc.prems s queue_distinct by (intro collected_record_fill) auto
  then show ?case by simp
qed

lemma level_changes_mset:
  assumes "prepared_ok L m s"
  shows "mset (concat (map (\<lambda>(p, c). apply_changes L c (queue_at L s p)) m)) +
      mset (level_entries (map (\<lambda>(p, c). (p, filter (\<lambda>e. o_id e \<in> fst ` set c) (queue_at L s p))) m)) =
    mset (concat (map (\<lambda>(p, c). queue_at L s p) m)) +
      mset (filter (alive L) (level_entries (map (\<lambda>(p, c). (p, map snd c)) m)))"
proof -
  have "\<forall>(p, c) \<in> set m. prepared_level_ok L p c (queue_at L s p)"
    using assms by (simp add: prepared_ok_def)
  then show ?thesis
  proof (induction m)
    case Nil
    then show ?case by (simp add: level_entries_def)
  next
    case (Cons x m)
    obtain p c where x: "x = (p, c)" by force
    have one: "mset (apply_changes L c (queue_at L s p)) + mset (filter (\<lambda>e. o_id e \<in> fst ` set c) (queue_at L s p)) =
        mset (queue_at L s p) + mset (filter (alive L) (map snd c))"
      using Cons.prems by (intro apply_changes_mset) (auto simp: x prepared_level_ok_def)
    have IH: "mset (concat (map (\<lambda>(p, c). apply_changes L c (queue_at L s p)) m)) +
        mset (level_entries (map (\<lambda>(p, c). (p, filter (\<lambda>e. o_id e \<in> fst ` set c) (queue_at L s p))) m)) =
        mset (concat (map (\<lambda>(p, c). queue_at L s p) m)) +
        mset (filter (alive L) (level_entries (map (\<lambda>(p, c). (p, map snd c)) m)))"
      using Cons by simp
    show ?case
      using mset_pair_sum [OF one IH]
      by (simp only: x level_entries_def list.map prod.case concat.simps mset_append filter_append snd_conv)
  qed
qed

text \<open>Applying the collected changes replaces every maker of the log by its remainder.\<close>

lemma apply_collected:
  assumes "side_ok L s" "collected L s m fs"
  obtains s' where "apply_prepared_orders L m s = Inr s'" "side_ok L s'"
    "mset (side_entries s') + mset (map f_maker fs) =
     mset (side_entries s) + mset (filter (alive L) (map f_after fs))"
proof -
  have prep: "prepared_ok L m s"
    and after: "mset (level_entries (map (\<lambda>(p, c). (p, map snd c)) m)) = mset (map f_after fs)"
    and before: "mset (level_entries (map (\<lambda>(p, c). (p, filter (\<lambda>e. o_id e \<in> fst ` set c) (queue_at L s p))) m)) =
       mset (map f_maker fs)"
    using assms(2) by (simp_all add: collected_def)
  obtain s' where s': "apply_prepared_orders L m s = Inr s'" "side_ok L s'"
    "mset (side_entries s') + mset (concat (map (\<lambda>(p, c). queue_at L s p) m)) =
     mset (side_entries s) + mset (concat (map (\<lambda>(p, c). apply_changes L c (queue_at L s p)) m))"
    by (rule apply_prepared_orders_Inr [OF assms(1) prep])
  let ?Q = "mset (concat (map (\<lambda>(p, c). queue_at L s p) m))"
  let ?A = "mset (concat (map (\<lambda>(p, c). apply_changes L c (queue_at L s p)) m))"
  have "?A + mset (map f_maker fs) = ?Q + mset (filter (alive L) (map f_after fs))"
    using level_changes_mset [OF prep] after before by (simp only: mset_filter)
  then have "mset (side_entries s') + mset (map f_maker fs) =
      mset (side_entries s) + mset (filter (alive L) (map f_after fs))"
    by (rule mset_cancel [OF s'(3)])
  with s' show thesis by (intro that)
qed

text \<open>Quantities that still add up to the amount keep an order valid.\<close>

lemma add_same_sum:
  assumes "is_ok (units L a)" "is_ok (units L b)" "is_ok (units L a')" "is_ok (units L b')"
    and "units_of L a + units_of L b = units_of L a' + units_of L b'"
  shows "add L a b = add L a' b'"
  using assms by (auto simp: is_ok_iff add_def checked_add_i128_def)

lemma validate_requantity:
  assumes v: "validate L e inc = Inr ()" and kind: "\<not> (o_order_side e = ''market'' \<and> o_order_type e = ''buy'')"
    and e': "e' = e\<lparr>o_remaining_amount := r, o_filled_amount := f\<rparr>"
    and u: "is_ok (units L r)" "is_ok (units L f)" "alive L e'"
      "units_of L f + units_of L r = units_of L (o_filled_amount e) + units_of L (o_remaining_amount e)"
  shows "validate L e' False = Inr ()"
proof -
  have q: "validate_quantity L e = Inr ()"
    using v kind by (auto simp: validate_def res_bind_Inr_iff ensure_Inr_iff)
  then obtain t where t: "add L (o_filled_amount e) (o_remaining_amount e) = Inr t"
    by (auto simp: validate_quantity_def res_bind_Inr_iff ensure_Inr_iff)
  have "add L f r = Inr t"
    using t u add_same_sum [of f r "o_filled_amount e" "o_remaining_amount e"] add_units [OF t] by simp
  with q t have "validate_quantity L e' = Inr ()"
    using u(3) by (auto simp: validate_quantity_def e' alive_def res_bind_Inr_iff ensure_Inr_iff split: if_splits)
  then show ?thesis
    using v kind by (auto simp: validate_def e' res_bind_Inr_iff ensure_Inr_iff)
qed

lemma filled_maker_valid:
  assumes "validate L e False = Inr ()" "o_order_side e = ''limit''" "filled_maker L e n e'" "alive L e'"
  shows "validate L e' False = Inr ()"
proof -
  have eq: "e' = e\<lparr>o_remaining_amount := o_remaining_amount e', o_filled_amount := o_filled_amount e'\<rparr>"
    and u: "is_ok (units L (o_remaining_amount e'))" "is_ok (units L (o_filled_amount e'))"
      "units_of L (o_remaining_amount e') = units_of L (o_remaining_amount e) - n"
      "units_of L (o_filled_amount e') = units_of L (o_filled_amount e) + n"
    using assms(3) unfolding filled_maker_def by blast+
  show ?thesis
    by (rule validate_requantity [OF assms(1) _ eq u(1,2) assms(4)]) (use assms(2) u in simp_all)
qed

lemma planned_order_valid:
  assumes plan: "plan_order L o' book = Inr plan" and kind: "o_order_side o' = ''limit''" and al: "alive L (p_order plan)"
  shows "validate L (p_order plan) False = Inr ()"
proof -
  from plan obtain fs where v: "validate L o' True = Inr ()" and lg: "logged L (initial_plan L o') fs plan"
    and ok: "plan_ok L plan"
    by (rule plan_order_log)
  have nk: "\<not> (o_order_side o' = ''market'' \<and> o_order_type o' = ''buy'')" using kind by simp
  have none: "o_remaining_quote_amount o' = None" using validate_quantity_facts(6) [OF v nk] .
  have fr: "plan_frame (initial_plan L o') plan" using lg by (simp add: logged_def)
  have p: "p_order (initial_plan L o') = o'" by (simp add: initial_plan_def)
  have none': "o_remaining_quote_amount (p_order plan) = None"
    using plan_frame_simps(12) [OF fr] none p by simp
  have mv: "order_moved L o' (units_of L (p_total_amount plan)) (units_of L (p_total_quote plan)) (p_order plan)"
    using lg by (simp add: logged_def initial_plan_def zero_units)
  then have mv2: "o_amount (p_order plan) = o_amount o'"
      "units_of L (o_filled_amount (p_order plan)) + units_of L (o_remaining_amount (p_order plan)) =
       units_of L (o_filled_amount o') + units_of L (o_remaining_amount o')"
    using none by (simp_all add: order_moved_def)
  have eq: "p_order plan = o'\<lparr>o_remaining_amount := o_remaining_amount (p_order plan),
      o_filled_amount := o_filled_amount (p_order plan)\<rparr>"
    using fr none none' mv2(1) p by (cases o', cases "p_order plan") (simp add: plan_frame_def)
  show ?thesis
    by (rule validate_requantity [OF v nk eq _ _ al mv2(2)]) (use ok none' in \<open>simp_all add: plan_ok_def\<close>)
qed

end

section \<open>Committing a plan\<close>

text \<open>The book with the side that holds the makers of an order replaced.\<close>

definition with_maker_side :: "'d OrderEntry \<Rightarrow> 'd OrderBookSide \<Rightarrow> 'd OrderBook \<Rightarrow> 'd OrderBook" where
  "with_maker_side incoming s b =
     (if o_order_type incoming = ''sell'' then b\<lparr>buy_orders := s\<rparr> else b\<lparr>sell_orders := s\<rparr>)"

definition rests :: "'d decimal_lib \<Rightarrow> 'd MatchPlan \<Rightarrow> bool" where
  "rests L plan \<longleftrightarrow> o_order_side (p_order plan) = ''limit'' \<and> alive L (p_order plan)"

lemma filled_maker_frame:
  assumes "filled_maker L e n e'"
  shows "o_id e' = o_id e" "o_user_id e' = o_user_id e" "o_price e' = o_price e"
    "o_order_type e' = o_order_type e" "o_order_side e' = o_order_side e"
    "o_base_mint e' = o_base_mint e" "o_quote_mint e' = o_quote_mint e"
proof -
  have "\<exists>r f. e' = e\<lparr>o_remaining_amount := r, o_filled_amount := f\<rparr>"
    using assms unfolding filled_maker_def by blast
  then show "o_id e' = o_id e" "o_user_id e' = o_user_id e" "o_price e' = o_price e"
    "o_order_type e' = o_order_type e" "o_order_side e' = o_order_side e"
    "o_base_mint e' = o_base_mint e" "o_quote_mint e' = o_quote_mint e"
    by auto
qed

lemma distinct_mset_sub: "mset xs \<subseteq># mset ys \<Longrightarrow> distinct ys \<Longrightarrow> distinct xs"
  by (metis distinct_append ex_mset mset_append mset_eq_imp_distinct_iff subset_mset.add_diff_inverse)

lemma subseq_distinct_map: "subseq xs ys \<Longrightarrow> distinct (map g ys) \<Longrightarrow> distinct (map g xs)"
proof (induction rule: list_emb.induct)
  case (list_emb_Cons2 x y xs ys)
  then show ?case by (auto dest: subseq_set)
qed auto

lemma distinct_mset_subset:
  assumes "distinct xs" "set xs \<subseteq> set ys"
  shows "mset xs \<subseteq># mset ys"
proof (rule mset_subset_eqI)
  fix a
  show "count (mset xs) a \<le> count (mset ys) a"
  proof (cases "a \<in> set xs")
    case True
    with assms have "count (mset xs) a = 1" "a \<in># mset ys" by (auto simp: distinct_count_atmost_1)
    then show ?thesis by (simp add: count_greater_eq_one_iff)
  next
    case False
    then have "count (mset xs) a = 0" by (simp add: count_eq_zero_iff)
    then show ?thesis by linarith
  qed
qed

lemma mset_shrink:
  fixes S :: "'a multiset"
  assumes "S' + M = S + F" "F \<subseteq># M"
  shows "S' \<subseteq># S"
proof -
  from assms(2) obtain X where "M = F + X" by (auto simp: subset_mset.le_iff_add)
  with assms(1) have "(S' + X) + F = S + F" by (simp add: ac_simps)
  then have "S = S' + X" by simp
  then show ?thesis by simp
qed

lemma candidates_entries:
  "\<exists>zs. level_entries levels = map snd (candidates L plan levels) @ zs"
proof -
  have flat: "map snd (concat (map (\<lambda>(p, q). map (Pair p) q) ls)) = level_entries ls"
    for ls :: "('a \<times> 'a OrderEntry list) list"
    by (induction ls) (auto simp: level_entries_def comp_def)
  have "level_entries levels = level_entries (takeWhile P levels) @ level_entries (dropWhile P levels)" for P
    by (metis concat_append level_entries_def map_append takeWhile_dropWhile_id)
  then show ?thesis unfolding candidates_def flat by blast
qed

lemma level_entries_rev: "mset (level_entries (rev m)) = mset (level_entries m)"
  by (induction m) (simp_all add: level_entries_def)

context decimal_library
begin

lemma price_time_distinct:
  assumes "distinct (map o_id (side_entries (maker_side o' book)))"
  shows "distinct (map (\<lambda>c. o_id (snd c)) (price_time L o' book))"
proof -
  let ?levels = "if o_order_type o' = ''sell'' then rev (orders (maker_side o' book)) else orders (maker_side o' book)"
  have "mset (level_entries ?levels) = mset (side_entries (maker_side o' book))"
    by (simp add: side_entries_def level_entries_rev)
  then have "mset (map o_id (level_entries ?levels)) = mset (map o_id (side_entries (maker_side o' book)))"
    by (metis mset_map)
  then have "distinct (map o_id (level_entries ?levels))"
    using assms mset_eq_imp_distinct_iff by blast
  moreover obtain zs where "level_entries ?levels = map snd (price_time L o' book) @ zs"
    using candidates_entries unfolding price_time_def by blast
  ultimately show ?thesis by (simp add: comp_def)
qed

lemma price_time_queue:
  assumes "side_ok L (maker_side o' book)" "(p, e) \<in> set (price_time L o' book)"
  shows "e \<in> set (queue_at L (maker_side o' book) p)"
  using candidate_queue [OF assms(1), of p e] assms(2) by (simp add: price_time_def split: if_splits)

lemma plan_collected:
  assumes s: "side_ok L (maker_side o' book)" "distinct (map o_id (side_entries (maker_side o' book)))"
    and lg: "logged L (initial_plan L o') fs plan"
      "subseq (map (\<lambda>f. (f_price f, f_maker f)) fs) (price_time L o' book)"
  shows "collected L (maker_side o' book) (p_makers plan) fs"
    and "f \<in> set fs \<Longrightarrow> f_maker f \<in> set (side_entries (maker_side o' book))"
proof -
  have fill: "fill_ok L (initial_plan L o') f" "f_maker f \<in> set (queue_at L (maker_side o' book) (f_price f))"
    if "f \<in> set fs" for f
    using that lg(1) subseq_set [OF lg(2), of "(f_price f, f_maker f)"] price_time_queue [OF s(1)]
    by (auto simp: logged_def list_all_iff)
  then show "f \<in> set fs \<Longrightarrow> f_maker f \<in> set (side_entries (maker_side o' book))"
    using queue_at_subset by blast
  have after: "dec_eq_opt L (o_price (f_after f)) (Some (f_price f))" if "f \<in> set fs" for f
    using fill(1) [OF that] by (auto simp: fill_ok_def maker_ok_def filled_maker_frame(3))
  have "distinct (map (\<lambda>f. o_id (f_maker f)) fs)"
    using subseq_distinct_map [OF lg(2) price_time_distinct [OF s(2)]] by (simp add: comp_def)
  then have "collected L (maker_side o' book) (fold (record_fill L) fs []) fs"
    using s fill(2) after by (intro collected_log) auto
  then show "collected L (maker_side o' book) (p_makers plan) fs"
    using lg(1) by (simp add: logged_def initial_plan_def)
qed

lemma fill_after_entry:
  assumes "entry_ok L pair ty (f_maker f)" "fill_ok L plan f" "alive L (f_after f)"
  shows "entry_ok L pair ty (f_after f)"
proof -
  have fm: "filled_maker L (f_maker f) (fill_amount L f) (f_after f)" using assms(2) by (simp add: fill_ok_def)
  have "validate L (f_after f) False = Inr ()"
    using assms(1) by (intro filled_maker_valid [OF _ _ fm assms(3)]) (auto simp: entry_ok_def is_ok_iff)
  then show ?thesis
    using assms(1) filled_maker_frame [OF fm] by (simp add: entry_ok_def)
qed

lemma filled_ids: "list_all (fill_ok L plan) fs \<Longrightarrow>
    image_mset o_id (mset (filter (alive L) (map f_after fs))) \<subseteq># image_mset o_id (mset (map f_maker fs))"
proof (induction fs)
  case (Cons f fs)
  have "filled_maker L (f_maker f) (fill_amount L f) (f_after f)" using Cons.prems by (simp add: fill_ok_def)
  then have "o_id (f_after f) = o_id (f_maker f)" by (rule filled_maker_frame)
  with Cons show ?case by (auto intro: subset_mset.add_increasing2 subset_mset.order_trans)
qed simp

lemma commit_makers:
  assumes b: "book_ok L b" and plan: "plan_order L o' b = Inr plan"
  obtains fs s' where "logged L (initial_plan L o') fs plan" "plan_ok L plan" "validate L o' True = Inr ()"
    "subseq (map (\<lambda>f. (f_price f, f_maker f)) fs) (price_time L o' b)"
    "apply_prepared_orders L (p_makers plan) (maker_side o' b) = Inr s'"
    "book_ok L (with_maker_side o' s' b)"
    "mset (book_entries (with_maker_side o' s' b)) + mset (map f_maker fs) =
     mset (book_entries b) + mset (filter (alive L) (map f_after fs))"
    "\<And>f. f \<in> set fs \<Longrightarrow> f_maker f \<in> set (side_entries (maker_side o' b))"
proof -
  let ?s = "maker_side o' b" and ?ty = "if o_order_type o' = ''sell'' then ''buy'' else ''sell''"
  have s: "side_ok L ?s" "distinct (map o_id (side_entries ?s))"
    "list_all (entry_ok L (trading_pair b) ?ty) (side_entries ?s)"
    using b by (auto simp: book_ok_def maker_side_def book_entries_def)
  from plan obtain fs where lg: "validate L o' True = Inr ()" "logged L (initial_plan L o') fs plan" "plan_ok L plan"
    "subseq (map (\<lambda>f. (f_price f, f_maker f)) fs) (price_time L o' b)"
    by (rule plan_order_log)
  note col = plan_collected [OF s(1,2) lg(2,4)]
  have fok: "list_all (fill_ok L (initial_plan L o')) fs" using lg(2) by (simp add: logged_def)
  obtain s' where s': "apply_prepared_orders L (p_makers plan) ?s = Inr s'" "side_ok L s'"
    "mset (side_entries s') + mset (map f_maker fs) = mset (side_entries ?s) + mset (filter (alive L) (map f_after fs))"
    by (rule apply_collected [OF s(1) col(1)])
  have entries: "entry_ok L (trading_pair b) ?ty e" if "e \<in> set (side_entries s')" for e
  proof -
    have "e \<in># mset (side_entries ?s) + mset (filter (alive L) (map f_after fs))"
      using that s'(3) by (metis in_multiset_in_set union_iff)
    then show ?thesis
      using s(3) col(2) fok by (auto simp: list_all_iff intro: fill_after_entry)
  qed
  let ?b = "with_maker_side o' s' b"
  have total: "mset (book_entries ?b) + mset (map f_maker fs) =
      mset (book_entries b) + mset (filter (alive L) (map f_after fs))"
    using s'(3) by (cases "o_order_type o' = ''sell''")
      (simp_all add: with_maker_side_def book_entries_def maker_side_def ac_simps)
  have "image_mset o_id (mset (book_entries ?b)) + image_mset o_id (mset (map f_maker fs)) =
      image_mset o_id (mset (book_entries b)) + image_mset o_id (mset (filter (alive L) (map f_after fs)))"
    using arg_cong [OF total, of "image_mset o_id"] by simp
  then have "mset (map o_id (book_entries ?b)) \<subseteq># mset (map o_id (book_entries b))"
    using mset_shrink [OF _ filled_ids [OF fok]] by simp
  then have dist: "distinct (map o_id (book_entries ?b))"
    by (rule distinct_mset_sub) (use b in \<open>simp add: book_ok_def\<close>)
  have "book_ok L ?b"
    using b s'(2) entries dist
    by (auto simp: book_ok_def with_maker_side_def list_all_iff split: if_splits)
  with lg s' total col(2) show thesis by (intro that)
qed

lemma side_add_ok:
  assumes b: "book_ok L b" and e: "entry_ok L (trading_pair b) (o_order_type e) e"
    and ty: "o_order_type e \<in> {''buy'', ''sell''}" and fresh: "o_id e \<notin> o_id ` set (book_entries b)"
  obtains b' where "book_add_order L e b = Inr b'" "book_ok L b'" "trading_pair b' = trading_pair b"
    "mset (book_entries b') = add_mset e (mset (book_entries b))"
proof -
  have v: "validate L e False = Inr ()" "o_order_side e = ''limit''" using e by (auto simp: entry_ok_def is_ok_iff)
  then obtain p where p: "o_price e = Some p"
    using validate_quantity_facts(8) [OF v(1)] by auto
  let ?s = "if o_order_type e = ''buy'' then buy_orders b else sell_orders b"
  have "side_ok L ?s" using b by (simp add: book_ok_def)
  from this p obtain s' where s': "add_order L e ?s = Inr s'" "side_ok L s'"
    "mset (side_entries s') = add_mset e (mset (side_entries ?s))"
    by (rule add_order_Inr)
  then have set': "set (side_entries s') = insert e (set (side_entries ?s))"
    by (metis set_mset_add_mset_insert set_mset_mset)
  let ?b = "if o_order_type e = ''buy'' then b\<lparr>buy_orders := s'\<rparr> else b\<lparr>sell_orders := s'\<rparr>"
  have entries: "mset (book_entries ?b) = add_mset e (mset (book_entries b))"
    using s'(3) by (auto simp: book_entries_def)
  have "mset (map o_id (book_entries ?b)) = mset (o_id e # map o_id (book_entries b))"
    using arg_cong [OF entries, of "image_mset o_id"] by simp
  then have "distinct (map o_id (book_entries ?b))"
    using fresh b mset_eq_imp_distinct_iff [of "map o_id (book_entries ?b)" "o_id e # map o_id (book_entries b)"]
    by (simp add: book_ok_def)
  then have "book_ok L ?b"
    using b s'(2) e set' ty by (auto simp: book_ok_def list_all_iff split: if_splits)
  moreover have "book_add_order L e b = Inr ?b"
    using s'(1) ty by (auto simp: book_add_order_def)
  ultimately show thesis using entries by (intro that [of ?b]) auto
qed

lemma commit_book_Inr:
  assumes b: "book_ok L b" and plan: "plan_order L o' b = Inr plan"
    and pair: "trading_pair b = TradingPair_new (o_base_mint o') (o_quote_mint o')"
    and fresh: "o_id o' \<notin> o_id ` set (book_entries b)"
  obtains fs b' where "commit_book L plan b = Inr b'" "book_ok L b'" "trading_pair b' = trading_pair b"
    "logged L (initial_plan L o') fs plan" "plan_ok L plan" "validate L o' True = Inr ()"
    "mset (book_entries b') + mset (map f_maker fs) =
     mset (book_entries b) + mset (filter (alive L) (map f_after fs)) + (if rests L plan then {#p_order plan#} else {#})"
    "o_id ` set (book_entries b') \<subseteq> insert (o_id o') (o_id ` set (book_entries b))"
    "mset (map f_maker fs) \<subseteq># mset (book_entries b)"
proof -
  obtain fs s1 where lg: "logged L (initial_plan L o') fs plan" "plan_ok L plan" "validate L o' True = Inr ()"
    "apply_prepared_orders L (p_makers plan) (maker_side o' b) = Inr s1"
    "book_ok L (with_maker_side o' s1 b)"
    "mset (book_entries (with_maker_side o' s1 b)) + mset (map f_maker fs) =
     mset (book_entries b) + mset (filter (alive L) (map f_after fs))"
    "\<And>f. f \<in> set fs \<Longrightarrow> f_maker f \<in> set (side_entries (maker_side o' b))"
    and sub: "subseq (map (\<lambda>f. (f_price f, f_maker f)) fs) (price_time L o' b)"
    by (rule commit_makers [OF b plan]) (rule that)
  have "distinct (map o_id (side_entries (maker_side o' b)))"
    using b by (auto simp: book_ok_def maker_side_def book_entries_def)
  from subseq_distinct_map [OF sub price_time_distinct [OF this]] have "distinct (map f_maker fs)"
    by (simp add: comp_def distinct_map inj_on_def)
  moreover have "set (side_entries (maker_side o' b)) \<subseteq> set (book_entries b)"
    by (simp add: book_entries_def maker_side_def)
  then have "set (map f_maker fs) \<subseteq> set (book_entries b)" using lg(7) by auto
  ultimately have makers: "mset (map f_maker fs) \<subseteq># mset (book_entries b)" by (rule distinct_mset_subset)
  let ?b = "with_maker_side o' s1 b"
  have fr: "plan_frame (initial_plan L o') plan" and fok: "list_all (fill_ok L (initial_plan L o')) fs"
    using lg(1) by (simp_all add: logged_def)
  have ids: "o_id ` set (book_entries ?b) \<subseteq> o_id ` set (book_entries b)"
  proof
    fix i assume "i \<in> o_id ` set (book_entries ?b)"
    then obtain e where e: "i = o_id e" "e \<in># mset (book_entries b) + mset (filter (alive L) (map f_after fs))"
      using lg(6) by (metis (no_types, lifting) imageE in_multiset_in_set union_iff)
    have "o_id (f_after f) \<in> o_id ` set (book_entries b)" if "f \<in> set fs" for f
      using lg(7) [OF that] fok that
      by (auto simp: list_all_iff fill_ok_def filled_maker_frame(1) book_entries_def maker_side_def split: if_splits)
    with e show "i \<in> o_id ` set (book_entries b)" by auto
  qed
  have first: "commit_book L plan b =
      (if rests L plan then book_add_order L (p_order plan) ?b else Inr ?b)"
    using lg(4) plan_frame_simps [OF fr]
    by (auto simp: commit_book_def with_maker_side_def maker_side_def initial_plan_def rests_def alive_def)
  have tp: "trading_pair ?b = trading_pair b" by (simp add: with_maker_side_def)
  show thesis
  proof (cases "rests L plan")
    case False
    then show thesis using first lg ids tp makers by (intro that [of ?b fs]) auto
  next
    case True
    have "validate L (p_order plan) False = Inr ()"
      using True plan_frame_simps(6) [OF fr] by (intro planned_order_valid [OF plan]) (simp_all add: rests_def initial_plan_def)
    then have e: "entry_ok L (trading_pair ?b) (o_order_type (p_order plan)) (p_order plan)"
      using True plan_frame_simps [OF fr] tp pair
      by (simp add: entry_ok_def rests_def TradingPair_new_def initial_plan_def)
    have fr2: "o_id (p_order plan) = o_id o'" "o_order_type (p_order plan) = o_order_type o'"
      using plan_frame_simps [OF fr] by (simp_all add: initial_plan_def)
    have ty: "o_order_type (p_order plan) \<in> {''buy'', ''sell''}"
      using validate_facts(3) [OF lg(3)] fr2 by simp
    have nf: "o_id (p_order plan) \<notin> o_id ` set (book_entries ?b)"
      using fresh ids fr2 by auto
    obtain b' where b': "book_add_order L (p_order plan) ?b = Inr b'" "book_ok L b'"
      "trading_pair b' = trading_pair ?b" "mset (book_entries b') = add_mset (p_order plan) (mset (book_entries ?b))"
      by (rule side_add_ok [OF lg(5) e ty nf])
    then have set': "set (book_entries b') = insert (p_order plan) (set (book_entries ?b))"
      by (metis set_mset_add_mset_insert set_mset_mset)
    show thesis
    proof (rule that [OF _ b'(2) _ lg(1,2,3)])
      show "commit_book L plan b = Inr b'" using True first b' by simp
      show "mset (book_entries b') + mset (map f_maker fs) =
        mset (book_entries b) + mset (filter (alive L) (map f_after fs)) + (if rests L plan then {#p_order plan#} else {#})"
        using True lg(6) b'(4) by simp
      show "o_id ` set (book_entries b') \<subseteq> insert (o_id o') (o_id ` set (book_entries b))"
        using set' ids fr2 by auto
    qed (use b'(3) tp makers in simp_all)
  qed
qed

end

section \<open>What resting orders reserve\<close>

text \<open>
  A resting order holds a reservation on one account: a buy order its price times the open
  quantity in the quote asset, a sell order the open quantity in the base asset.
\<close>

definition entry_account :: "'d OrderEntry \<Rightarrow> account" where
  "entry_account e =
     (o_user_id e, if o_order_type e = ''buy'' then o_quote_mint e else o_base_mint e)"

definition entry_reserve :: "'d decimal_lib \<Rightarrow> 'd OrderEntry \<Rightarrow> int" where
  "entry_reserve L e =
     (if o_order_type e = ''buy''
      then (case o_price e of None \<Rightarrow> 0 | Some p \<Rightarrow> units_of L p) * units_of L (o_remaining_amount e) div FACTOR
      else units_of L (o_remaining_amount e))"

definition reserved :: "'d decimal_lib \<Rightarrow> 'd OrderEntry list \<Rightarrow> account \<Rightarrow> int" where
  "reserved L es k = (\<Sum>e \<leftarrow> es. if entry_account e = k then entry_reserve L e else 0)"

lemma reserved_simps [simp]:
  "reserved L [] k = 0"
  "reserved L (e # es) k = (if entry_account e = k then entry_reserve L e else 0) + reserved L es k"
  "reserved L (es @ es') k = reserved L es k + reserved L es' k"
  by (simp_all add: reserved_def)

lemma reserved_mset:
  assumes "mset es = mset es'"
  shows "reserved L es k = reserved L es' k"
proof -
  have "sum_mset (mset (map g es)) = sum_mset (mset (map g es'))" for g :: "'a OrderEntry \<Rightarrow> int"
    by (simp add: assms)
  then show ?thesis unfolding reserved_def sum_mset_sum_list .
qed

definition maker_cost :: "'d decimal_lib \<Rightarrow> 'd Fill \<Rightarrow> int" where
  "maker_cost L f = (if o_order_type (f_maker f) = ''buy'' then fill_quote L f else fill_amount L f)"

context decimal_library
begin

lemma units_of_cong: "dec_val L a = dec_val L b \<Longrightarrow> units_of L a = units_of L b"
proof (cases "units L a")
  case (Inr n)
  assume "dec_val L a = dec_val L b"
  with Inr show ?thesis using units_eq_val [of a b n] by simp
next
  case (Inl e)
  assume "dec_val L a = dec_val L b"
  then have "units L b = Inr n \<Longrightarrow> False" for n using Inl units_eq_val [of a b n] by simp
  with Inl show ?thesis by (cases "units L b") (auto simp: units_of_def)
qed

lemma fill_entry_reserve:
  assumes ok: "fill_ok L plan f"
  shows "entry_reserve L (f_maker f) = entry_reserve L (f_after f) + maker_cost L f"
    and "entry_account (f_after f) = entry_account (f_maker f)"
    and "\<not> alive L (f_after f) \<Longrightarrow> entry_reserve L (f_after f) = 0"
proof -
  have fm: "filled_maker L (f_maker f) (fill_amount L f) (f_after f)" using ok by (simp add: fill_ok_def)
  note fr = filled_maker_frame [OF fm]
  have rem: "units_of L (o_remaining_amount (f_maker f)) = units_of L (o_remaining_amount (f_after f)) + fill_amount L f"
    using fm by (simp add: filled_maker_def)
  obtain p where "o_price (f_maker f) = Some p" "dec_val L p = dec_val L (f_price f)"
    using ok by (auto simp: fill_ok_def maker_ok_def eq_opt_val)
  then have p: "o_price (f_maker f) = Some p" "units_of L p = units_of L (f_price f)"
    by (simp_all add: units_of_cong [of p "f_price f"])
  have "units_of L p * fill_amount L f = fill_quote L f * FACTOR"
    using fill_quote_exact [OF ok] p(2) by (simp add: fill_amount_def)
  then have "units_of L p * units_of L (o_remaining_amount (f_maker f)) =
      units_of L p * units_of L (o_remaining_amount (f_after f)) + fill_quote L f * FACTOR"
    by (simp add: rem distrib_left)
  then show "entry_reserve L (f_maker f) = entry_reserve L (f_after f) + maker_cost L f"
    using p fr rem by (simp add: entry_reserve_def maker_cost_def)
  show "entry_account (f_after f) = entry_account (f_maker f)" using fr by (simp add: entry_account_def)
  assume "\<not> alive L (f_after f)"
  then have "units_of L (o_remaining_amount (f_after f)) = 0"
    using fm units_of_nonneg(1) [of "o_remaining_amount (f_after f)"]
    by (auto simp: alive_def dec_simps filled_maker_def is_ok_iff units_sign not_less)
  then show "entry_reserve L (f_after f) = 0" by (simp add: entry_reserve_def split: option.split)
qed

lemma fills_reserved:
  "list_all (fill_ok L plan) fs \<Longrightarrow> reserved L (map f_maker fs) k =
     reserved L (filter (alive L) (map f_after fs)) k +
     (\<Sum>f \<leftarrow> fs. if entry_account (f_maker f) = k then maker_cost L f else 0)"
proof (induction fs)
  case (Cons f fs)
  then have ok: "fill_ok L plan f" by simp
  note r = fill_entry_reserve [OF ok]
  show ?case
    using Cons r by (cases "alive L (f_after f)") auto
qed simp

lemma commit_reserved:
  assumes "mset (book_entries b') + mset (map f_maker fs) =
     mset (book_entries b) + mset (filter (alive L) (map f_after fs)) + (if r then {#x#} else {#})"
    and "list_all (fill_ok L plan) fs"
  shows "reserved L (book_entries b') k = reserved L (book_entries b) k +
     (if r \<and> entry_account x = k then entry_reserve L x else 0) -
     (\<Sum>f \<leftarrow> fs. if entry_account (f_maker f) = k then maker_cost L f else 0)"
proof -
  have "mset (book_entries b' @ map f_maker fs) =
      mset (book_entries b @ filter (alive L) (map f_after fs) @ (if r then [x] else []))"
    using assms(1) by (simp add: ac_simps)
  from reserved_mset [OF this, of L k] fills_reserved [OF assms(2), of k] show ?thesis
    by (simp split: if_splits)
qed

end

section \<open>Properties\<close>

text \<open>
  Committing a plan to the book it was made for never panics and keeps the book's invariant:
  both sides ordered and counted, every resting order a valid open limit order of this market on
  its own side, all identifiers distinct. The resting orders afterwards are the old ones with each
  traded maker replaced by its remainder, or dropped when nothing is left of it, plus the incoming
  order when it is a limit order with an open quantity.
\<close>

theorem commit_book_preserves:
  assumes "decimal_library L" "book_ok L b" "plan_order L incoming b = Inr plan"
    and "trading_pair b = TradingPair_new (o_base_mint incoming) (o_quote_mint incoming)"
    and "o_id incoming \<notin> o_id ` set (book_entries b)"
  shows "\<exists>b' fs. commit_book L plan b = Inr b' \<and> book_ok L b' \<and>
    p_matches plan = map (fill_match (initial_plan L incoming)) fs \<and>
    mset (book_entries b') + mset (map f_maker fs) =
      mset (book_entries b) + mset (filter (alive L) (map f_after fs)) +
      (if rests L plan then {#p_order plan#} else {#})"
  by (rule decimal_library.commit_book_Inr [OF assms]) (auto simp: logged_def initial_plan_def)

end
