(* ===== verification/Submission.thy ===== *)
theory Submission
  imports Commit
begin

text \<open>
  The execution cache (\<open>engine/executor.rs\<close>) and the application of one new order
  (\<open>engine/runtime/submission.rs\<close>): plan the order, reserve its funds in a workspace of copied
  accounts, settle every planned trade there, release what is left of the reservation, and only
  then publish the book and the accounts. An error leaves book and cache untouched, so the result
  type carries no state in that case; a panic of the commit would be the value \<open>Panic\<close>, and it is
  proved not to occur.
\<close>

section \<open>Definitions\<close>

record 'd Executor =
  balance_cache :: "'d BalanceCache"

definition Executor_new :: "'d Executor" where
  "Executor_new = \<lparr>balance_cache = BalanceCache_new\<rparr>"

definition lock_balance_for_order ::
    "'d decimal_lib \<Rightarrow> u64 \<Rightarrow> u64 \<Rightarrow> string \<Rightarrow> 'd \<Rightarrow> 'd Executor \<Rightarrow> 'd Executor res" where
  "lock_balance_for_order L order_id user_id mint amount ex =
     with_context (''Failed to lock balance for order '' @ nat_str (uint order_id))
       (res_bind (lock_balance L user_id mint amount (balance_cache ex))
          (\<lambda>c. Inr (ex\<lparr>balance_cache := c\<rparr>)))"

definition unlock_balance_for_cancel ::
    "'d decimal_lib \<Rightarrow> u64 \<Rightarrow> u64 \<Rightarrow> string \<Rightarrow> 'd \<Rightarrow> 'd Executor \<Rightarrow> 'd Executor res" where
  "unlock_balance_for_cancel L order_id user_id mint amount ex =
     with_context (''Failed to unlock balance for order '' @ nat_str (uint order_id))
       (res_bind (unlock_balance L user_id mint amount (balance_cache ex))
          (\<lambda>c. Inr (ex\<lparr>balance_cache := c\<rparr>)))"

record 'd MarketCompletion =
  mc_order_id :: u64
  mc_user_id :: u64
  mc_order_type :: string
  mc_base_mint :: string
  mc_quote_mint :: string
  mc_filled_amount :: 'd
  mc_filled_quote_amount :: 'd
  mc_reserved_amount :: 'd
  mc_refund_amount :: 'd
  mc_trade_count :: nat
  mc_status :: string

record 'd AppliedSubmission =
  as_order_id :: u64
  as_matches :: "'d MatchResult list"
  as_completion :: "'d MarketCompletion option"

type_synonym 'd books = "(TradingPair, 'd OrderBook) hashmap"

definition refund_mint :: "'d OrderEntry \<Rightarrow> string" where
  "refund_mint order = (if o_order_type order = ''buy'' then o_quote_mint order else o_base_mint order)"

definition submission_reserve :: "'d decimal_lib \<Rightarrow> 'd OrderEntry \<Rightarrow> 'd res" where
  "submission_reserve L order =
     (if o_order_type order = ''buy'' then
        (case o_price order of
           Some price \<Rightarrow> quote L price (o_amount order)
         | None \<Rightarrow> expect ''validated market buy budget'' (o_quote_amount order))
      else Inr (o_amount order))"

definition trade_accounts :: "'d MatchResult \<Rightarrow> account list" where
  "trade_accounts t =
     [(m_buyer_id t, m_base_mint t), (m_buyer_id t, m_quote_mint t),
      (m_seller_id t, m_base_mint t), (m_seller_id t, m_quote_mint t)]"

definition submission_workspace ::
    "'d OrderEntry \<Rightarrow> 'd MatchResult list \<Rightarrow> 'd BalanceCache \<Rightarrow> 'd BalanceCache" where
  "submission_workspace order matches source =
     fold (\<lambda>(user, asset). copy_account_from source user asset)
       ((o_user_id order, refund_mint order) # concat (map trade_accounts matches)) BalanceCache_new"

definition submission_remaining :: "'d decimal_lib \<Rightarrow> 'd OrderEntry \<Rightarrow> 'd MatchPlan \<Rightarrow> 'd res" where
  "submission_remaining L order plan =
     (if o_order_side order = ''market'' then Inr (dec_zero L)
      else if o_order_type order = ''buy'' then
        res_bind (expect ''called `Option::unwrap()` on a `None` value'' (o_price order))
          (\<lambda>price. quote L price (o_remaining_amount (p_order plan)))
      else Inr (o_remaining_amount (p_order plan)))"

definition market_completion ::
    "'d decimal_lib \<Rightarrow> 'd OrderEntry \<Rightarrow> 'd MatchPlan \<Rightarrow> 'd \<Rightarrow> 'd \<Rightarrow> 'd MarketCompletion option" where
  "market_completion L order plan rsv refund =
     (if o_order_side order = ''market'' then
        Some \<lparr>mc_order_id = o_id order, mc_user_id = o_user_id order,
              mc_order_type = o_order_type order, mc_base_mint = o_base_mint order,
              mc_quote_mint = o_quote_mint order, mc_filled_amount = p_total_amount plan,
              mc_filled_quote_amount = p_total_quote plan, mc_reserved_amount = rsv,
              mc_refund_amount = refund, mc_trade_count = length (p_matches plan),
              mc_status = (if dec_is_zero L refund then ''filled'' else ''expired'')\<rparr>
      else None)"

definition submission_apply ::
    "'d decimal_lib \<Rightarrow> 'd OrderEntry \<Rightarrow> 'd books \<Rightarrow> 'd Executor \<Rightarrow>
     ('d AppliedSubmission \<times> 'd books \<times> 'd Executor) res" where
  "submission_apply L order books executor =
     (let pair = TradingPair_new (o_base_mint order) (o_quote_mint order);
          book = (case hm_get books pair of None \<Rightarrow> OrderBook_new pair | Some b \<Rightarrow> b) in
      res_bind (plan_order L order book) (\<lambda>plan.
      res_bind (submission_reserve L order) (\<lambda>rsv.
      let prepared0 = submission_workspace order (p_matches plan) (balance_cache executor) in
      res_bind (lock_balance L (o_user_id order) (refund_mint order) rsv prepared0) (\<lambda>prepared1.
      res_bind (res_fold (settle_trade L) (p_matches plan) prepared1) (\<lambda>prepared2.
      res_bind (submission_remaining L order plan) (\<lambda>remaining.
      let used = (if o_order_type order = ''buy'' then p_total_quote plan else p_total_amount plan) in
      res_bind (subtract L rsv used) (\<lambda>unused.
      res_bind (subtract L unused remaining) (\<lambda>refund.
      res_bind (if dec_lt L (dec_zero L) refund
                then unlock_balance L (o_user_id order) (refund_mint order) refund prepared2
                else Inr prepared2) (\<lambda>prepared3.
      res_bind (commit_book L plan book) (\<lambda>book'.
        Inr (\<lparr>as_order_id = o_id (p_order plan), as_matches = p_matches plan,
              as_completion = market_completion L order plan rsv refund\<rparr>,
             hm_insert pair book' books,
             executor\<lparr>balance_cache := commit_prepared prepared3 (balance_cache executor)\<rparr>)))))))))))"

section \<open>The invariant of the books\<close>

definition books_ok :: "'d decimal_lib \<Rightarrow> 'd books \<Rightarrow> bool" where
  "books_ok L books \<longleftrightarrow> distinct (map fst books) \<and>
     list_all (\<lambda>(pair, b). trading_pair b = pair \<and> book_ok L b) books"

definition all_entries :: "'d books \<Rightarrow> 'd OrderEntry list" where
  "all_entries books = concat (map (\<lambda>(pair, b). book_entries b) books)"

text \<open>The locked amount of an account that no resting order claims.\<close>

definition free_lock :: "'d decimal_lib \<Rightarrow> 'd books \<Rightarrow> 'd BalanceCache \<Rightarrow> account \<Rightarrow> int" where
  "free_lock L books c k = lk L c k - reserved L (all_entries books) k"

definition trade_quote :: "'d decimal_lib \<Rightarrow> 'd MatchResult \<Rightarrow> int" where
  "trade_quote L t = units_of L (m_price t) * units_of L (m_amount t) div FACTOR"

definition buyer_fee :: "'d decimal_lib \<Rightarrow> 'd MatchResult \<Rightarrow> int" where
  "buyer_fee L t = (case fee L (m_amount t) (m_buyer_fee_rate t) of Inl _ \<Rightarrow> 0 | Inr f \<Rightarrow> units_of L f)"

definition seller_fee :: "'d decimal_lib \<Rightarrow> 'd MatchResult \<Rightarrow> int" where
  "seller_fee L t =
     (case quote L (m_price t) (m_amount t) of Inl _ \<Rightarrow> 0
      | Inr q \<Rightarrow> (case fee L q (m_seller_fee_rate t) of Inl _ \<Rightarrow> 0 | Inr f \<Rightarrow> units_of L f))"

text \<open>The fees a list of trades takes out of an asset.\<close>

definition fees :: "'d decimal_lib \<Rightarrow> 'd MatchResult list \<Rightarrow> string \<Rightarrow> int" where
  "fees L ts a = (\<Sum>t \<leftarrow> ts. (if m_base_mint t = a then buyer_fee L t else 0) +
                             (if m_quote_mint t = a then seller_fee L t else 0))"

lemma all_entries_simps [simp]:
  "all_entries [] = []"
  "all_entries ((pair, b) # books) = book_entries b @ all_entries books"
  by (simp_all add: all_entries_def)

lemma reserved_books: "reserved L (all_entries books) k = hm_sum (\<lambda>_ b. reserved L (book_entries b) k) books"
  by (induction books) auto

lemma reserved_insert:
  "reserved L (all_entries (hm_insert pair b' books)) k =
     reserved L (all_entries books) k + reserved L (book_entries b') k -
     (case hm_get books pair of None \<Rightarrow> 0 | Some b \<Rightarrow> reserved L (book_entries b) k)"
  by (simp add: reserved_books hm_sum_insert hm_old_def)

lemma books_ok_insert:
  "books_ok L books \<Longrightarrow> trading_pair b = pair \<Longrightarrow> book_ok L b \<Longrightarrow> books_ok L (hm_insert pair b books)"
proof -
  have "list_all (\<lambda>(pair, b). trading_pair b = pair \<and> book_ok L b) m \<Longrightarrow> trading_pair b = pair \<Longrightarrow> book_ok L b \<Longrightarrow>
      list_all (\<lambda>(pair, b). trading_pair b = pair \<and> book_ok L b) (hm_insert pair b m)" for m
    by (induction m) auto
  then show "books_ok L books \<Longrightarrow> trading_pair b = pair \<Longrightarrow> book_ok L b \<Longrightarrow> books_ok L (hm_insert pair b books)"
    by (simp add: books_ok_def distinct_update)
qed

lemma books_ok_get: "books_ok L books \<Longrightarrow> hm_get books pair = Some b \<Longrightarrow> trading_pair b = pair \<and> book_ok L b"
  by (auto simp: books_ok_def list_all_iff dest!: map_of_SomeD)

lemma all_entries_get: "hm_get books pair = Some b \<Longrightarrow> set (book_entries b) \<subseteq> set (all_entries books)"
  by (force simp: all_entries_def dest!: map_of_SomeD)

lemma all_entries_insert: "set (all_entries (hm_insert pair b books)) \<subseteq> set (book_entries b) \<union> set (all_entries books)"
  by (induction books) (auto split: if_splits)

lemma all_entries_replace:
  "mset (all_entries (hm_insert pair b' books)) +
     mset (case hm_get books pair of None \<Rightarrow> [] | Some b \<Rightarrow> book_entries b) = mset (all_entries books) + mset (book_entries b')"
  by (induction books) (auto split: if_splits)

lemma entries_part:
  "mset (case hm_get books pair of None \<Rightarrow> [] | Some b \<Rightarrow> book_entries b) \<subseteq># mset (all_entries books)"
  by (induction books) (auto simp: subset_mset.add_increasing)

text \<open>Exchanging a part for one with the same keys and at most one new key keeps keys distinct.\<close>

lemma distinct_exchange:
  assumes "mset xs' + mset b = mset xs + mset b'" "mset b \<subseteq># mset xs"
    and "distinct (map f xs)" "distinct (map f b')" "f ` set b' \<subseteq> insert i (f ` set b)" "i \<notin> f ` set xs"
  shows "distinct (map f xs')"
proof -
  have one: "distinct ys \<longleftrightarrow> (\<forall>a. count (mset ys) a \<le> 1)" for ys :: "'b list"
  proof
    show "distinct ys \<Longrightarrow> \<forall>a. count (mset ys) a \<le> 1" by (simp add: distinct_count_atmost_1)
    assume le: "\<forall>a. count (mset ys) a \<le> 1"
    have "count (mset ys) a = (if a \<in> set ys then 1 else 0)" for a
    proof (cases "a \<in> set ys")
      case True
      then have "count (mset ys) a \<noteq> 0" by (simp only: count_eq_zero_iff set_mset_mset) simp
      with le [THEN spec, of a] have "count (mset ys) a = 1" by linarith
      with True show ?thesis by simp
    qed (simp add: count_eq_zero_iff)
    then show "distinct ys" by (simp add: distinct_count_atmost_1)
  qed
  let ?n = "\<lambda>ys a. count (mset (map f ys)) a"
  have "mset (map f xs') + mset (map f b) = mset (map f xs) + mset (map f b')"
    using arg_cong [OF assms(1), of "image_mset f"] by (simp only: image_mset_union mset_map)
  then have eq: "?n xs' a + ?n b a = ?n xs a + ?n b' a" for a by (metis count_union)
  have sub: "?n b a \<le> ?n xs a" for a
    using image_mset_subseteq_mono [OF assms(2), of f] by (simp only: subseteq_mset_def mset_map)
  have le: "?n xs a \<le> 1" "?n b' a \<le> 1" for a using assms(3,4) by (simp_all only: one)
  have "?n xs' a \<le> 1" for a
  proof (cases "?n b a = 0")
    case False
    with eq [of a] sub [of a] le [of a] show ?thesis by linarith
  next
    case b: True
    then have "a \<notin> f ` set b" by (auto simp: count_eq_zero_iff)
    with assms(5) have "a = i \<or> ?n b' a = 0" by (auto simp: count_eq_zero_iff)
    moreover have "?n xs i = 0" using assms(6) by (auto simp: count_eq_zero_iff)
    ultimately show ?thesis using eq [of a] b le [of a] by auto
  qed
  then show ?thesis unfolding one by blast
qed

lemma book_new [simp]: "book_entries (OrderBook_new pair) = []" "trading_pair (OrderBook_new pair) = pair"
  by (simp_all add: OrderBook_new_def OrderBookSide_new_def book_entries_def side_entries_def level_entries_def)

section \<open>Settling a list of trades\<close>

definition trade_lk :: "'d decimal_lib \<Rightarrow> 'd MatchResult \<Rightarrow> account \<Rightarrow> int" where
  "trade_lk L t k = (if (m_buyer_id t, m_quote_mint t) = k then trade_quote L t else 0) +
                    (if (m_seller_id t, m_base_mint t) = k then units_of L (m_amount t) else 0)"

context decimal_library
begin

lemma settle_trade_posted:
  assumes "cache_ok L c" "settle_trade L t c = Inr c'"
  obtains ps where "cache_ok L c'" "cache_posted L c ps c'" "fst ` set ps \<subseteq> set (trade_accounts t)"
    "accounts c \<subseteq> accounts c'" "accounts c' \<subseteq> accounts c \<union> set (trade_accounts t)"
    "\<And>k. lk_delta ps k = - trade_lk L t k" "\<And>a. asset_delta ps a = - fees L [t] a"
proof (rule settle_trade_Inr [OF assms], goal_cases)
  case (1 amount qt bf sf qv)
  have q: "trade_quote L t = qt" and a: "units_of L (m_amount t) = amount"
    using quote_units(2) [OF 1(3)] 1(2,4) by (simp_all add: trade_quote_def)
  have b: "buyer_fee L t = bf"
    using 1(5) by (cases "fee L (m_amount t) (m_buyer_fee_rate t)") (simp_all add: buyer_fee_def)
  have s: "seller_fee L t = sf"
    using 1(3,6) by (cases "fee L qv (m_seller_fee_rate t)") (simp_all add: seller_fee_def)
  show ?case
    by (rule 1(1) [OF 1(13,15)])
      (use 1(14,16) q a b s in \<open>auto simp: trade_accounts_def trade_lk_def fees_def\<close>)
qed

lemma settle_trades_posted:
  assumes "cache_ok L c" "res_fold (settle_trade L) ts c = Inr c'"
  shows "\<exists>ps. cache_ok L c' \<and> cache_posted L c ps c' \<and> fst ` set ps \<subseteq> set (concat (map trade_accounts ts)) \<and>
    accounts c \<subseteq> accounts c' \<and> accounts c' \<subseteq> accounts c \<union> set (concat (map trade_accounts ts)) \<and>
    (\<forall>k. lk_delta ps k = - (\<Sum>t \<leftarrow> ts. trade_lk L t k)) \<and> (\<forall>a. asset_delta ps a = - fees L ts a)"
  using assms
proof (induction ts arbitrary: c)
  case Nil
  then show ?case by (intro exI [of _ "[]"]) (simp add: fees_def)
next
  case (Cons t ts)
  from Cons.prems(2) obtain c1 where c1: "settle_trade L t c = Inr c1" "res_fold (settle_trade L) ts c1 = Inr c'"
    by (auto simp: res_bind_Inr_iff)
  obtain ps where p: "cache_ok L c1" "cache_posted L c ps c1" "fst ` set ps \<subseteq> set (trade_accounts t)"
    "accounts c \<subseteq> accounts c1" "accounts c1 \<subseteq> accounts c \<union> set (trade_accounts t)"
    "\<And>k. lk_delta ps k = - trade_lk L t k" "\<And>a. asset_delta ps a = - fees L [t] a"
    by (rule settle_trade_posted [OF Cons.prems(1) c1(1)]) (rule that)
  from Cons.IH [OF p(1) c1(2)] obtain qs where q: "cache_ok L c'" "cache_posted L c1 qs c'"
    "fst ` set qs \<subseteq> set (concat (map trade_accounts ts))"
    "accounts c1 \<subseteq> accounts c'" "accounts c' \<subseteq> accounts c1 \<union> set (concat (map trade_accounts ts))"
    "\<forall>k. lk_delta qs k = - (\<Sum>t \<leftarrow> ts. trade_lk L t k)" "\<forall>a. asset_delta qs a = - fees L ts a"
    by blast
  have "cache_posted L c (ps @ qs) c'" by (rule posted_trans [OF p(2) q(2)])
  moreover have "\<forall>a. asset_delta (ps @ qs) a = - fees L (t # ts) a"
    using p(7) q(7) by (simp add: fees_def)
  moreover have "\<forall>k. lk_delta (ps @ qs) k = - (\<Sum>t \<leftarrow> t # ts. trade_lk L t k)"
    using p(6) q(6) by simp
  moreover have "fst ` set (ps @ qs) \<subseteq> set (concat (map trade_accounts (t # ts)))"
    "accounts c' \<subseteq> accounts c \<union> set (concat (map trade_accounts (t # ts)))"
    using p(3,5) q(3,5) by auto
  ultimately show ?case using p(4) q(1,4) by (intro exI [of _ "ps @ qs"]) blast
qed

section \<open>One submission\<close>

lemma book_ok_new [simp]: "book_ok L (OrderBook_new pair)"
  using side_ok_new by (simp add: book_ok_def OrderBook_new_def OrderBookSide_new_def book_entries_def
      side_entries_def level_entries_def)

lemma pair_book:
  assumes "books_ok L books"
  defines "book pair \<equiv> (case hm_get books pair of None \<Rightarrow> OrderBook_new pair | Some b \<Rightarrow> b)"
  shows "book_ok L (book pair) \<and> trading_pair (book pair) = pair \<and> set (book_entries (book pair)) \<subseteq> set (all_entries books)"
proof (cases "hm_get books pair")
  case None
  then show ?thesis by (simp add: book_def)
next
  case (Some b)
  with books_ok_get [OF assms(1) Some] all_entries_get [OF Some] show ?thesis by (simp add: book_def)
qed

lemma workspace_ok:
  assumes "cache_ok L c"
  shows "cache_ok L (submission_workspace o' ts c)"
    and "k = (o_user_id o', refund_mint o') \<or> k \<in> set (concat (map trade_accounts ts)) \<Longrightarrow>
      av L (submission_workspace o' ts c) k = av L c k \<and> lk L (submission_workspace o' ts c) k = lk L c k"
    and "accounts (submission_workspace o' ts c) \<subseteq>
      insert (o_user_id o', refund_mint o') (set (concat (map trade_accounts ts)))"
proof -
  let ?ks = "(o_user_id o', refund_mint o') # concat (map trade_accounts ts)"
  note copy = copy_accounts [OF assms, where ks = ?ks, folded submission_workspace_def]
  show "cache_ok L (submission_workspace o' ts c)" by (rule copy(2))
  show "k = (o_user_id o', refund_mint o') \<or> k \<in> set (concat (map trade_accounts ts)) \<Longrightarrow>
      av L (submission_workspace o' ts c) k = av L c k \<and> lk L (submission_workspace o' ts c) k = lk L c k"
    using copy(1) [of k] by (auto simp: av_def lk_def)
  show "accounts (submission_workspace o' ts c) \<subseteq>
      insert (o_user_id o', refund_mint o') (set (concat (map trade_accounts ts)))"
  proof
    fix k assume "k \<in> accounts (submission_workspace o' ts c)"
    then show "k \<in> insert (o_user_id o', refund_mint o') (set (concat (map trade_accounts ts)))"
      using copy(1) [of k] by (auto simp: accounts_dom split: if_splits)
  qed
qed

text \<open>What the trades of a log take from the locks: the cost of the order and of each maker.\<close>

lemma fills_lk:
  assumes ty: "o_order_type o' \<in> {''buy'', ''sell''}" and ok: "list_all (fill_ok L (initial_plan L o')) fs"
  shows "(\<Sum>t \<leftarrow> map (fill_match (initial_plan L o')) fs. trade_lk L t k) =
    (if (o_user_id o', refund_mint o') = k
     then (if o_order_type o' = ''buy'' then sum_list (map (fill_quote L) fs) else sum_list (map (fill_amount L) fs)) else 0) +
    (\<Sum>f \<leftarrow> fs. if entry_account (f_maker f) = k then maker_cost L f else 0)"
  using ok
proof (induction fs)
  case (Cons f fs)
  have "trade_lk L (fill_match (initial_plan L o') f) k =
      (if (o_user_id o', refund_mint o') = k then (if o_order_type o' = ''buy'' then fill_quote L f else fill_amount L f) else 0) +
      (if entry_account (f_maker f) = k then maker_cost L f else 0)"
    using Cons.prems ty
    by (auto simp: fill_ok_def maker_ok_def initial_plan_def trade_lk_def fill_match_def plan_match_def Let_def
        entry_account_def maker_cost_def refund_mint_def trade_quote_def fill_quote_def fill_amount_def)
  with Cons show ?case by simp
qed simp

lemma remaining_reserve:
  assumes v: "validate L o' True = Inr ()" and fr: "plan_frame (initial_plan L o') plan" and ok: "plan_ok L plan"
    and rem: "submission_remaining L o' plan = Inr r"
  shows "is_ok (units L r)"
    and "(if (o_user_id o', refund_mint o') = k then units_of L r else 0) =
      (if rests L plan \<and> entry_account (p_order plan) = k then entry_reserve L (p_order plan) else 0)"
proof -
  note fs = plan_frame_simps [OF fr, unfolded initial_plan_def, simplified]
  have acct: "entry_account (p_order plan) = (o_user_id o', refund_mint o')"
    using fs by (simp add: entry_account_def refund_mint_def)
  have "is_ok (units L r) \<and> units_of L r = (if rests L plan then entry_reserve L (p_order plan) else 0)"
  proof (cases "o_order_side o' = ''market''")
    case True
    then show ?thesis using rem fs zero_units by (simp add: submission_remaining_def rests_def)
  next
    case False
    then have lim: "o_order_side o' = ''limit''" using validate_facts(4) [OF v] by simp
    have nk: "\<not> (o_order_side o' = ''market'' \<and> o_order_type o' = ''buy'')" using False by simp
    have none: "o_remaining_quote_amount (p_order plan) = None"
      using validate_quantity_facts(6) [OF v nk] fs by simp
    have urem: "is_ok (units L (o_remaining_amount (p_order plan)))" using ok none by (simp add: plan_ok_def)
    have dead: "\<not> alive L (p_order plan) \<Longrightarrow> units_of L (o_remaining_amount (p_order plan)) = 0"
      using urem units_of_nonneg(1) [of "o_remaining_amount (p_order plan)"]
      by (auto simp: alive_def dec_simps is_ok_iff units_sign not_less)
    show ?thesis
    proof (cases "o_order_type o' = ''buy''")
      case True
      with rem False obtain p where p: "o_price o' = Some p" "quote L p (o_remaining_amount (p_order plan)) = Inr r"
        by (auto simp: submission_remaining_def res_bind_Inr_iff expect_Inr_iff)
      note q = quote_units [OF p(2)]
      have "entry_reserve L (p_order plan) = units_of L r"
        using True p(1) fs q(2) by (simp add: entry_reserve_def)
      with q dead show ?thesis using lim fs by (auto simp: rests_def entry_reserve_def)
    next
      case False
      with rem lim urem dead show ?thesis
        using fs by (auto simp: submission_remaining_def rests_def entry_reserve_def)
    qed
  qed
  then show "is_ok (units L r)"
    "(if (o_user_id o', refund_mint o') = k then units_of L r else 0) =
      (if rests L plan \<and> entry_account (p_order plan) = k then entry_reserve L (p_order plan) else 0)"
    using acct by auto
qed

text \<open>The funds of one submission: reserve, settle, release, all within the workspace.\<close>

lemma submission_funds:
  assumes c: "cache_ok L c"
    and lock: "lock_balance L u m rsv p0 = Inr p1" and settle: "res_fold (settle_trade L) ts p1 = Inr p2"
    and sub: "subtract L rsv used = Inr unused" "subtract L unused rem = Inr refund"
    and unlock: "(if dec_lt L (dec_zero L) refund then unlock_balance L u m refund p2 else Inr p2) = Inr p3"
    and ws: "p0 = submission_workspace o' ts c" "u = o_user_id o'" "m = refund_mint o'"
  shows "cache_ok L (commit_prepared p3 c)"
    and "\<exists>ps. cache_posted L c ps (commit_prepared p3 c) \<and>
      (\<forall>k. lk_delta ps k = (if (u, m) = k then units_of L used + units_of L rem else 0) - (\<Sum>t \<leftarrow> ts. trade_lk L t k)) \<and>
      (\<forall>a. asset_delta ps a = - fees L ts a)"
    and "units_of L rsv = units_of L used + units_of L rem + units_of L refund"
proof -
  let ?N = "insert (u, m) (set (concat (map trade_accounts ts)))"
  note w = workspace_ok [OF c, where o' = o' and ts = ts, folded ws]
  obtain n where l: "units L rsv = Inr n" "0 < n" "cache_ok L p1" "cache_posted L p0 [((u, m), - n, n)] p1"
    "accounts p1 = accounts p0"
    by (rule lock_balance_Inr [OF w(1) lock])
  from settle_trades_posted [OF l(3) settle] obtain ps where s: "cache_ok L p2" "cache_posted L p1 ps p2"
    "fst ` set ps \<subseteq> set (concat (map trade_accounts ts))" "accounts p1 \<subseteq> accounts p2"
    "accounts p2 \<subseteq> accounts p1 \<union> set (concat (map trade_accounts ts))"
    "\<forall>k. lk_delta ps k = - (\<Sum>t \<leftarrow> ts. trade_lk L t k)" "\<forall>a. asset_delta ps a = - fees L ts a"
    by blast
  note su = subtract_units [OF sub(1)] subtract_units [OF sub(2)]
  show rsv: "units_of L rsv = units_of L used + units_of L rem + units_of L refund" using su by simp
  let ?r = "units_of L refund"
  obtain rs where r: "cache_ok L p3" "cache_posted L p2 rs p3" "accounts p3 = accounts p2"
    "fst ` set rs \<subseteq> {(u, m)}" "\<And>k. lk_delta rs k = (if (u, m) = k then - ?r else 0)" "\<And>a. asset_delta rs a = 0"
  proof (cases "dec_lt L (dec_zero L) refund")
    case True
    with unlock have "unlock_balance L u m refund p2 = Inr p3" by simp
    from s(1) this obtain x where "units L refund = Inr x" "cache_ok L p3" "cache_posted L p2 [((u, m), x, - x)] p3"
      "accounts p3 = accounts p2"
      by (rule unlock_balance_Inr)
    then show thesis by (intro that [of "[((u, m), x, - x)]"]) auto
  next
    case False
    then have "?r = 0"
      using su(6) units_of_nonneg(1) [of refund] by (auto simp: is_ok_iff dec_simps units_sign not_less)
    with False unlock s(1) show thesis by (intro that [of "[]"]) auto
  qed
  let ?ps = "[((u, m), - n, n)] @ ps @ rs"
  have "cache_posted L p0 ?ps p3"
    using posted_trans [OF l(4) posted_trans [OF s(2) r(2)]] .
  moreover have "fst ` set ?ps \<subseteq> ?N" using s(3) r(4) by auto
  moreover have "accounts p0 \<subseteq> accounts p3" "accounts p3 \<subseteq> ?N" using l(5) s(4,5) r(3) w(3) by auto
  moreover have "\<And>k. k \<in> ?N \<Longrightarrow> av L p0 k = av L c k \<and> lk L p0 k = lk L c k" using w(2) by blast
  ultimately have "cache_posted L c ?ps (commit_prepared p3 c)"
    using r(1) by (intro commit_prepared_posted [of ?N p0 c p3]) auto
  moreover have "lk_delta ?ps k = (if (u, m) = k then units_of L used + units_of L rem else 0) - (\<Sum>t \<leftarrow> ts. trade_lk L t k)" for k
    using s(6) [THEN spec, of k] r(5) rsv l(1) by simp
  moreover have "asset_delta ?ps a = - fees L ts a" for a
    using s(7) r(6) by simp
  ultimately show "\<exists>ps. cache_posted L c ps (commit_prepared p3 c) \<and>
      (\<forall>k. lk_delta ps k = (if (u, m) = k then units_of L used + units_of L rem else 0) - (\<Sum>t \<leftarrow> ts. trade_lk L t k)) \<and>
      (\<forall>a. asset_delta ps a = - fees L ts a)"
    by blast
  show "cache_ok L (commit_prepared p3 c)" by (rule commit_prepared_ok [OF r(1) c])
qed

lemma submission_apply_Inr:
  assumes c: "cache_ok L (balance_cache ex)" and b: "books_ok L books"
    and fresh: "o_id o' \<notin> o_id ` set (all_entries books)"
    and run: "submission_apply L o' books ex = Inr (applied, books', ex')"
  shows "cache_ok L (balance_cache ex')" "books_ok L books'"
    "o_id ` set (all_entries books') \<subseteq> insert (o_id o') (o_id ` set (all_entries books))"
    "free_lock L books' (balance_cache ex') k = free_lock L books (balance_cache ex) k"
    "asset_total L (balance_cache ex') a = asset_total L (balance_cache ex) a - fees L (as_matches applied) a"
    "as_completion applied = Some mc \<Longrightarrow> units_of L (mc_reserved_amount mc) =
       units_of L (if mc_order_type mc = ''buy'' then mc_filled_quote_amount mc else mc_filled_amount mc) +
       units_of L (mc_refund_amount mc)"
    "distinct (map o_id (all_entries books)) \<Longrightarrow> distinct (map o_id (all_entries books'))"
proof -
  let ?pair = "TradingPair_new (o_base_mint o') (o_quote_mint o')" and ?c = "balance_cache ex"
  define book where "book = (case hm_get books ?pair of None \<Rightarrow> OrderBook_new ?pair | Some b \<Rightarrow> b)"
  from run obtain plan rsv p1 p2 rem unused refund p3 book' where r:
    "plan_order L o' book = Inr plan" "submission_reserve L o' = Inr rsv"
    "lock_balance L (o_user_id o') (refund_mint o') rsv (submission_workspace o' (p_matches plan) ?c) = Inr p1"
    "res_fold (settle_trade L) (p_matches plan) p1 = Inr p2" "submission_remaining L o' plan = Inr rem"
    "subtract L rsv (if o_order_type o' = ''buy'' then p_total_quote plan else p_total_amount plan) = Inr unused"
    "subtract L unused rem = Inr refund"
    "(if dec_lt L (dec_zero L) refund then unlock_balance L (o_user_id o') (refund_mint o') refund p2 else Inr p2) = Inr p3"
    "commit_book L plan book = Inr book'"
    and out: "applied = \<lparr>as_order_id = o_id (p_order plan), as_matches = p_matches plan,
        as_completion = market_completion L o' plan rsv refund\<rparr>"
      "books' = hm_insert ?pair book' books" "ex' = ex\<lparr>balance_cache := commit_prepared p3 ?c\<rparr>"
    unfolding submission_apply_def Let_def book_def [symmetric] res_bind_Inr_iff by auto
  let ?used = "if o_order_type o' = ''buy'' then p_total_quote plan else p_total_amount plan"
  note funds = submission_funds [OF c r(3,4,6,7,8) refl refl refl]
  have bk: "book_ok L book" "trading_pair book = ?pair" "o_id o' \<notin> o_id ` set (book_entries book)"
    "set (book_entries book) \<subseteq> set (all_entries books)"
    using pair_book [OF b, of ?pair] fresh unfolding book_def by blast+
  obtain fs b2 where cb: "commit_book L plan book = Inr b2" "book_ok L b2" "trading_pair b2 = trading_pair book"
    "logged L (initial_plan L o') fs plan" "plan_ok L plan" "validate L o' True = Inr ()"
    "mset (book_entries b2) + mset (map f_maker fs) =
     mset (book_entries book) + mset (filter (alive L) (map f_after fs)) + (if rests L plan then {#p_order plan#} else {#})"
    "o_id ` set (book_entries b2) \<subseteq> insert (o_id o') (o_id ` set (book_entries book))"
    by (rule commit_book_Inr [OF bk(1) r(1) bk(2,3)]) (rule that)
  have b2: "b2 = book'" using cb(1) r(9) by simp
  have lg: "list_all (fill_ok L (initial_plan L o')) fs" "p_matches plan = map (fill_match (initial_plan L o')) fs"
    "plan_frame (initial_plan L o') plan" "units_of L (p_total_amount plan) = sum_list (map (fill_amount L) fs)"
    "units_of L (p_total_quote plan) = sum_list (map (fill_quote L) fs)"
    using cb(4) by (simp_all add: logged_def initial_plan_def zero_units)
  show "cache_ok L (balance_cache ex')" using funds(1) by (simp add: out)
  show "books_ok L books'" using books_ok_insert [OF b, of book' ?pair] cb(2,3) bk(2) b2 by (simp add: out)
  show "o_id ` set (all_entries books') \<subseteq> insert (o_id o') (o_id ` set (all_entries books))"
    using image_mono [OF all_entries_insert [of ?pair book' books], of o_id] cb(8) image_mono [OF bk(4), of o_id]
    unfolding b2 out image_Un by blast
  show "distinct (map o_id (all_entries books'))" if "distinct (map o_id (all_entries books))"
    unfolding out(2)
  proof (rule distinct_exchange [OF _ _ that])
    show "mset (all_entries (hm_insert ?pair book' books)) + mset (book_entries book) =
        mset (all_entries books) + mset (book_entries book')"
      using all_entries_replace [of ?pair book' books] by (simp add: book_def split: option.splits)
    show "mset (book_entries book) \<subseteq># mset (all_entries books)"
      using entries_part [of books ?pair] by (simp add: book_def split: option.splits)
  qed (use cb(2,8) b2 fresh in \<open>simp_all add: book_ok_def\<close>)
  from funds(2) obtain ps where ps: "cache_posted L ?c ps (commit_prepared p3 ?c)"
    "\<forall>k. lk_delta ps k = (if (o_user_id o', refund_mint o') = k then units_of L ?used + units_of L rem else 0) -
       (\<Sum>t \<leftarrow> p_matches plan. trade_lk L t k)"
    "\<forall>a. asset_delta ps a = - fees L (p_matches plan) a"
    by blast
  show "asset_total L (balance_cache ex') a = asset_total L ?c a - fees L (as_matches applied) a"
    using cache.posted_total [OF c funds(1) ps(1), of a] ps(3) by (simp add: out)
  have used: "units_of L ?used = (if o_order_type o' = ''buy'' then sum_list (map (fill_quote L) fs)
      else sum_list (map (fill_amount L) fs))"
    using lg(4,5) by simp
  have "(\<Sum>t \<leftarrow> p_matches plan. trade_lk L t k) = (if (o_user_id o', refund_mint o') = k then units_of L ?used else 0) +
      (\<Sum>f \<leftarrow> fs. if entry_account (f_maker f) = k then maker_cost L f else 0)"
    using fills_lk [OF validate_facts(3) [OF cb(6)] lg(1), of k] by (simp only: lg(2) used)
  then have "lk L (commit_prepared p3 ?c) k = lk L ?c k +
      (if (o_user_id o', refund_mint o') = k then units_of L rem else 0) -
      (\<Sum>f \<leftarrow> fs. if entry_account (f_maker f) = k then maker_cost L f else 0)"
    using posted_at(2) [OF ps(1), of k] ps(2) [THEN spec, of k] by (simp split: if_splits)
  moreover have "reserved L (all_entries books') k = reserved L (all_entries books) k +
      (if rests L plan \<and> entry_account (p_order plan) = k then entry_reserve L (p_order plan) else 0) -
      (\<Sum>f \<leftarrow> fs. if entry_account (f_maker f) = k then maker_cost L f else 0)"
    using commit_reserved [OF cb(7) lg(1), of k] b2
    by (cases "hm_get books ?pair") (simp_all add: out reserved_insert book_def)
  ultimately show "free_lock L books' (balance_cache ex') k = free_lock L books ?c k"
    using remaining_reserve(2) [OF cb(6) lg(3) cb(5) r(5), of k] by (simp add: free_lock_def out)
  assume "as_completion applied = Some mc"
  then show "units_of L (mc_reserved_amount mc) =
       units_of L (if mc_order_type mc = ''buy'' then mc_filled_quote_amount mc else mc_filled_amount mc) +
       units_of L (mc_refund_amount mc)"
    using funds(3) r(5) zero_units
    by (auto simp: out market_completion_def submission_remaining_def split: if_splits)
qed

text \<open>The resting orders after a submission, as the fills of its trades and the remainder that rests.\<close>

lemma submission_fills:
  assumes b: "books_ok L books" and fresh: "o_id o' \<notin> o_id ` set (all_entries books)"
    and run: "submission_apply L o' books ex = Inr (applied, books', ex')"
  obtains plan fs where "logged L (initial_plan L o') fs plan" "plan_ok L plan" "validate L o' True = Inr ()"
    "as_matches applied = map (fill_match (initial_plan L o')) fs"
    "mset (map f_maker fs) \<subseteq># mset (all_entries books)"
    "mset (all_entries books') + mset (map f_maker fs) = mset (all_entries books) +
      mset (filter (alive L) (map f_after fs)) + (if rests L plan then {#p_order plan#} else {#})"
proof -
  let ?pair = "TradingPair_new (o_base_mint o') (o_quote_mint o')"
  define book where "book = (case hm_get books ?pair of None \<Rightarrow> OrderBook_new ?pair | Some b \<Rightarrow> b)"
  from run obtain plan book' where r: "plan_order L o' book = Inr plan" "commit_book L plan book = Inr book'"
    and out: "as_matches applied = p_matches plan" "books' = hm_insert ?pair book' books"
    unfolding submission_apply_def Let_def book_def [symmetric] res_bind_Inr_iff by auto
  have bk: "book_ok L book" "trading_pair book = ?pair" "o_id o' \<notin> o_id ` set (book_entries book)"
    using pair_book [OF b, of ?pair] fresh unfolding book_def by blast+
  obtain fs b2 where cb: "commit_book L plan book = Inr b2" "logged L (initial_plan L o') fs plan" "plan_ok L plan"
    "validate L o' True = Inr ()" "mset (map f_maker fs) \<subseteq># mset (book_entries book)"
    "mset (book_entries b2) + mset (map f_maker fs) =
     mset (book_entries book) + mset (filter (alive L) (map f_after fs)) + (if rests L plan then {#p_order plan#} else {#})"
    by (rule commit_book_Inr [OF bk(1) r(1) bk(2,3)]) (rule that)
  have part: "mset (all_entries books') + mset (book_entries book) = mset (all_entries books) + mset (book_entries book')"
    "mset (book_entries book) \<subseteq># mset (all_entries books)"
    using all_entries_replace [of ?pair book' books] entries_part [of books ?pair]
    by (simp_all add: out(2) book_def split: option.splits)
  show thesis
  proof (rule that [OF cb(2,3,4)])
    show "as_matches applied = map (fill_match (initial_plan L o')) fs"
      using cb(2) by (simp add: out logged_def initial_plan_def)
    show "mset (map f_maker fs) \<subseteq># mset (all_entries books)" using cb(5) part(2) by (rule subset_mset.order_trans)
    show "mset (all_entries books') + mset (map f_maker fs) = mset (all_entries books) +
      mset (filter (alive L) (map f_after fs)) + (if rests L plan then {#p_order plan#} else {#})"
      using mset_cancel [OF part(1), of "mset (map f_maker fs)"] cb(1,6) r(2) by (simp add: add.assoc)
  qed
qed

lemma submission_never_Panic:
  assumes b: "books_ok L books" and fresh: "o_id o' \<notin> o_id ` set (all_entries books)"
  shows "submission_apply L o' books ex \<noteq> Inl (Panic e)"
proof
  let ?pair = "TradingPair_new (o_base_mint o') (o_quote_mint o')"
  define book where "book = (case hm_get books ?pair of None \<Rightarrow> OrderBook_new ?pair | Some b \<Rightarrow> b)"
  have bk: "book_ok L book" "trading_pair book = ?pair" "o_id o' \<notin> o_id ` set (book_entries book)"
    using pair_book [OF b, of ?pair] fresh unfolding book_def by blast+
  have settle: "res_fold (settle_trade L) ts p \<noteq> Inl (Panic e)" for ts p
    by (induction ts arbitrary: p) (auto simp: res_bind_Panic_iff settle_trade_not_Panic)
  assume "submission_apply L o' books ex = Inl (Panic e)"
  then obtain plan where plan: "plan_order L o' book = Inr plan"
    and bad: "submission_reserve L o' = Inl (Panic e) \<or> submission_remaining L o' plan = Inl (Panic e) \<or>
      commit_book L plan book = Inl (Panic e)"
    unfolding submission_apply_def Let_def book_def [symmetric]
    by (auto simp: res_bind_Panic_iff plan_order_not_Panic settle lock_balance_def unlock_balance_def split: if_splits)
  have v: "validate L o' True = Inr ()" using plan by (auto simp: plan_order_flat res_bind_Inr_iff)
  have "commit_book L plan book \<noteq> Inl (Panic e)"
    by (rule commit_book_Inr [OF bk(1) plan bk(2,3)]) simp
  moreover have "submission_reserve L o' \<noteq> Inl (Panic e) \<and> submission_remaining L o' plan \<noteq> Inl (Panic e)"
  proof (cases "o_order_side o' = ''market'' \<and> o_order_type o' = ''buy''")
    case True
    with v obtain q where "o_quote_amount o' = Some q" "o_price o' = None"
      by (auto elim: validate_budget_facts)
    with True show ?thesis by (simp add: submission_reserve_def submission_remaining_def)
  next
    case False
    have "o_order_side o' = ''market'' \<or> (\<exists>p. o_price o' = Some p)"
      using validate_quantity_facts(8) [OF v False] validate_facts(4) [OF v] by blast
    with False show ?thesis
      by (auto simp: submission_reserve_def submission_remaining_def quote_not_Panic)
  qed
  ultimately show False using bad by blast
qed

lemma fees_nonneg: "0 \<le> fees L ts a"
proof -
  have "0 \<le> buyer_fee L t" "0 \<le> seller_fee L t" for t
    using units_of_nonneg(1) by (auto simp: buyer_fee_def seller_fee_def split: sum.split)
  then show ?thesis unfolding fees_def by (intro sum_list_nonneg) auto
qed

end

section \<open>Properties\<close>

definition sample_books :: "refdec books" where
  "sample_books =
     [(TradingPair_new ''SOL'' ''USDT'',
       \<lparr>trading_pair = TradingPair_new ''SOL'' ''USDT'', buy_orders = OrderBookSide_new,
        sell_orders = \<lparr>orders = [(RefDec 100 0, [sample_order 12 2 ''sell'' 100 3])], total_orders = 1\<rparr>\<rparr>)]"

definition sample_executor :: "refdec Executor" where
  "sample_executor = \<lparr>balance_cache = sample_cache\<rparr>"

lemma sample_submission:
  "books_ok ref_decimal sample_books" "cache_ok ref_decimal (balance_cache sample_executor)"
  "o_id (sample_order 50 1 ''buy'' 100 2) \<notin> o_id ` set (all_entries sample_books)"
  "\<exists>applied books' ex'. submission_apply ref_decimal (sample_order 50 1 ''buy'' 100 2) sample_books sample_executor =
     Inr (applied, books', ex')"
proof -
  show "books_ok ref_decimal sample_books" by code_simp
  show "cache_ok ref_decimal (balance_cache sample_executor)" by code_simp
  show "o_id (sample_order 50 1 ''buy'' 100 2) \<notin> o_id ` set (all_entries sample_books)" by code_simp
  have "is_ok (submission_apply ref_decimal (sample_order 50 1 ''buy'' 100 2) sample_books sample_executor)"
    by code_simp
  then show "\<exists>applied books' ex'. submission_apply ref_decimal (sample_order 50 1 ''buy'' 100 2) sample_books
      sample_executor = Inr (applied, books', ex')"
    by (auto simp: is_ok_iff)
qed

text \<open>
  C21. A successful submission conserves value: every stored amount stays valid and the total of
  each asset over all accounts, available and locked, falls by exactly the fees of its trades in
  that asset and by nothing else. The books keep their invariant and gain at most the identifier
  of the new order.
\<close>

theorem submission_apply_conserves:
  assumes "decimal_library L" "cache_ok L (balance_cache ex)" "books_ok L books"
    and "o_id order \<notin> o_id ` set (all_entries books)"
    and "submission_apply L order books ex = Inr (applied, books', ex')"
  shows "cache_ok L (balance_cache ex') \<and> books_ok L books' \<and>
    o_id ` set (all_entries books') \<subseteq> insert (o_id order) (o_id ` set (all_entries books)) \<and>
    (\<forall>a. asset_total L (balance_cache ex') a =
       asset_total L (balance_cache ex) a - fees L (as_matches applied) a \<and>
       0 \<le> fees L (as_matches applied) a)"
  using decimal_library.submission_apply_Inr [OF assms] decimal_library.fees_nonneg [OF assms(1)] by blast

theorem submission_apply_conserves_witness:
  "\<exists>applied books' ex'. submission_apply ref_decimal (sample_order 50 1 ''buy'' 100 2) sample_books sample_executor =
     Inr (applied, books', ex') \<and> cache_ok ref_decimal (balance_cache ex') \<and>
     asset_total ref_decimal (balance_cache ex') ''USDT'' =
       asset_total ref_decimal (balance_cache sample_executor) ''USDT'' - fees ref_decimal (as_matches applied) ''USDT''"
proof -
  from sample_submission(4) obtain applied books' ex' where
    run: "submission_apply ref_decimal (sample_order 50 1 ''buy'' 100 2) sample_books sample_executor =
      Inr (applied, books', ex')" by blast
  from submission_apply_conserves [OF refd.decimal_library_axioms sample_submission(2,1,3) run] run
  show ?thesis by blast
qed

text \<open>
  C22. Resting orders stay funded: for every account, the locked amount that is not claimed by a
  resting order is the same before and after a submission. What the new order leaves open is
  locked for it, and what a maker pays comes out of its own reservation and no one else's.
\<close>

theorem submission_apply_backs_reservations:
  assumes "decimal_library L" "cache_ok L (balance_cache ex)" "books_ok L books"
    and "o_id order \<notin> o_id ` set (all_entries books)"
    and "submission_apply L order books ex = Inr (applied, books', ex')"
  shows "free_lock L books' (balance_cache ex') k = free_lock L books (balance_cache ex) k"
  using decimal_library.submission_apply_Inr(4) [OF assms] .

theorem submission_apply_backs_reservations_witness:
  "\<exists>applied books' ex'. submission_apply ref_decimal (sample_order 50 1 ''buy'' 100 2) sample_books sample_executor =
     Inr (applied, books', ex') \<and>
     free_lock ref_decimal books' (balance_cache ex') (2, ''SOL'') = 0"
proof -
  from sample_submission(4) obtain applied books' ex' where
    run: "submission_apply ref_decimal (sample_order 50 1 ''buy'' 100 2) sample_books sample_executor =
      Inr (applied, books', ex')" by blast
  have "free_lock ref_decimal sample_books (balance_cache sample_executor) (2, ''SOL'') = 0" by code_simp
  with submission_apply_backs_reservations [OF refd.decimal_library_axioms sample_submission(2,1,3) run, of "(2, ''SOL'')"] run
  show ?thesis by metis
qed


definition sample_market :: "refdec OrderEntry" where
  "sample_market = (sample_order 51 1 ''buy'' 100 2)\<lparr>o_order_side := ''market'', o_price := None,
     o_amount := RefDec 0 0, o_remaining_amount := RefDec 0 0, o_quote_amount := Some (RefDec 250 0),
     o_remaining_quote_amount := Some (RefDec 250 0)\<rparr>"


end
