(* ===== verification/Engine_State.thy ===== *)
theory Engine_State
  imports Submission
begin

text \<open>
  The state the matching worker owns (\<open>EngineState\<close> of \<open>runtime/engine.rs\<close>) with the output batch
  of a command (\<open>runtime/output.rs\<close>), and the two commands that move funds in and out: deposits
  (\<open>runtime/deposit.rs\<close>) and the life cycle of a withdrawal (\<open>runtime/withdrawal.rs\<close>). The matcher
  field has no state and is left out. An operation that keeps a receipt even when it fails returns
  the new state beside its result.
\<close>

section \<open>Data\<close>

type_synonym uuid = "128 word"

record 'd DepositCredit =
  dc_deposit_id :: uuid
  dc_user_id :: u64
  dc_asset :: string
  dc_amount :: 'd

record 'd DepositReceipt =
  dr_original :: "'d DepositCredit"
  dr_rejection :: "string option"

record 'd WithdrawalFunds =
  wf_withdrawal_id :: uuid
  wf_user_id :: u64
  wf_asset :: string
  wf_amount :: 'd

datatype WithdrawalAction = Reserve | Release | Complete

fun event_type :: "WithdrawalAction \<Rightarrow> string" where
  "event_type Reserve = ''withdrawal_reserved''"
| "event_type Release = ''withdrawal_released''"
| "event_type Complete = ''withdrawal_completed''"

record 'd WithdrawalCommand =
  wc_action :: WithdrawalAction
  wc_funds :: "'d WithdrawalFunds"

datatype WithdrawalStatus = Reserved | Released | Completed | StatusRejected string

record 'd WithdrawalReceipt =
  wr_original :: "'d WithdrawalFunds"
  wr_status :: WithdrawalStatus

text \<open>The derived equalities compare the amounts numerically.\<close>

definition deposit_credit_eq :: "'d decimal_lib \<Rightarrow> 'd DepositCredit \<Rightarrow> 'd DepositCredit \<Rightarrow> bool" where
  "deposit_credit_eq L a b \<longleftrightarrow>
     dc_deposit_id a = dc_deposit_id b \<and> dc_user_id a = dc_user_id b \<and> dc_asset a = dc_asset b \<and>
     dec_eq L (dc_amount a) (dc_amount b)"

definition withdrawal_funds_eq :: "'d decimal_lib \<Rightarrow> 'd WithdrawalFunds \<Rightarrow> 'd WithdrawalFunds \<Rightarrow> bool" where
  "withdrawal_funds_eq L a b \<longleftrightarrow>
     wf_withdrawal_id a = wf_withdrawal_id b \<and> wf_user_id a = wf_user_id b \<and> wf_asset a = wf_asset b \<and>
     dec_eq L (wf_amount a) (wf_amount b)"

record 'd TradeOutput =
  to_trade :: "'d MatchResult"
  to_buyer_fee :: 'd
  to_seller_fee :: 'd

datatype 'd OutputBatch =
    WithdrawalChanged "'d WithdrawalCommand"
  | WithdrawalRejected "'d WithdrawalFunds" string
  | DepositCredited "'d DepositCredit"
  | Submitted u64 "'d TradeOutput list" "'d MarketCompletion option"
  | BatchCancelled "'d OrderEntry"
  | BatchRejected "'d OrderEntry" string

record 'd EngineState =
  withdrawal_receipts :: "(uuid, 'd WithdrawalReceipt) hashmap"
  deposit_receipts :: "(uuid, 'd DepositReceipt) hashmap"
  submissions :: "(u64, 'd OrderEntry) hashmap"
  cancellations :: "(u64, 'd OrderEntry) hashmap"
  orderbooks :: "'d books"
  executor :: "'d Executor"

definition EngineState_new :: "'d EngineState" where
  "EngineState_new =
     \<lparr>withdrawal_receipts = [], deposit_receipts = [], submissions = [], cancellations = [],
      orderbooks = [], executor = Executor_new\<rparr>"

abbreviation cache_of :: "'d EngineState \<Rightarrow> 'd BalanceCache" where
  "cache_of st \<equiv> balance_cache (executor st)"

definition with_cache :: "'d BalanceCache \<Rightarrow> 'd EngineState \<Rightarrow> 'd EngineState" where
  "with_cache c st = st\<lparr>executor := (executor st)\<lparr>balance_cache := c\<rparr>\<rparr>"

text \<open>\<open>OutputBatch::submitted\<close>: an \<open>expect\<close> on a result panics on its error.\<close>

definition expect_ok :: "string \<Rightarrow> 'a res \<Rightarrow> 'a res" where
  "expect_ok msg m = (case m of Inl (Error e) \<Rightarrow> Inl (Panic msg) | Inl (Panic p) \<Rightarrow> Inl (Panic p) | Inr x \<Rightarrow> Inr x)"

definition trade_output :: "'d decimal_lib \<Rightarrow> 'd MatchResult \<Rightarrow> 'd TradeOutput res" where
  "trade_output L trade =
     res_bind (expect_ok ''validated fee'' (fee L (m_amount trade) (m_buyer_fee_rate trade))) (\<lambda>bf.
     res_bind (expect_ok ''validated value'' (quote L (m_price trade) (m_amount trade))) (\<lambda>value.
     res_bind (expect_ok ''validated fee'' (fee L value (m_seller_fee_rate trade))) (\<lambda>sf.
       Inr \<lparr>to_trade = trade, to_buyer_fee = bf, to_seller_fee = sf\<rparr>)))"

definition submitted :: "'d decimal_lib \<Rightarrow> 'd AppliedSubmission \<Rightarrow> 'd OutputBatch res" where
  "submitted L applied =
     res_bind (res_map (trade_output L) (as_matches applied)) (\<lambda>trades.
       Inr (Submitted (as_order_id applied) trades (as_completion applied)))"

section \<open>Deposits\<close>

definition deposit_compute ::
    "'d decimal_lib \<Rightarrow> 'd DepositCredit \<Rightarrow> 'd BalanceCache \<Rightarrow> 'd BalanceCache res" where
  "deposit_compute L credit c =
     (let old = (case get_balance (dc_user_id credit) (dc_asset credit) c of
                   None \<Rightarrow> dec_zero L | Some b \<Rightarrow> available b) in
      res_bind (add L old (dc_amount credit)) (\<lambda>nxt.
        Inr (get_balance_mut L (dc_user_id credit) (dc_asset credit) (\<lambda>b. b\<lparr>available := nxt\<rparr>) c)))"

definition deposit_apply ::
    "'d decimal_lib \<Rightarrow> 'd EngineState \<Rightarrow> 'd DepositCredit \<Rightarrow> 'd EngineState \<times> 'd OutputBatch option res" where
  "deposit_apply L st credit =
     (case hm_get (deposit_receipts st) (dc_deposit_id credit) of
        Some receipt \<Rightarrow>
          (st, ensure (deposit_credit_eq L (dr_original receipt) credit)
                 ''Deposit id conflicts with original financial content''
                 (case dr_rejection receipt of Some reason \<Rightarrow> Inl (Error reason) | None \<Rightarrow> Inr None))
      | None \<Rightarrow>
          (case ensure (\<not> uuid_is_nil L (dc_deposit_id credit) \<and> dc_user_id credit > 0)
                  ''Invalid deposit identity''
                (ensure (dc_asset credit \<noteq> [] \<and> length (dc_asset credit) \<le> 128 \<and>
                         trim (dc_asset credit) = dc_asset credit)
                  ''Invalid deposit asset''
                (ensure (dec_lt L (dec_zero L) (dc_amount credit)) ''Deposit amount must be positive''
                (units L (dc_amount credit)))) of
             Inl e \<Rightarrow> (st, Inl e)
           | Inr _ \<Rightarrow>
               (let receipt = (\<lambda>rejection. \<lparr>dr_original = credit, dr_rejection = rejection\<rparr>);
                    insert_receipt = (\<lambda>rejection s. s\<lparr>deposit_receipts :=
                        hm_insert (dc_deposit_id credit) (receipt rejection) (deposit_receipts s)\<rparr>) in
                case deposit_compute L credit (cache_of st) of
                  Inr c \<Rightarrow> (insert_receipt None (with_cache c st), Inr (Some (DepositCredited credit)))
                | Inl (Error reason) \<Rightarrow> (insert_receipt (Some reason) st, Inl (Error reason))
                | Inl (Panic p) \<Rightarrow> (st, Inl (Panic p)))))"

section \<open>Withdrawals\<close>

definition is_ascii_uppercase :: "char \<Rightarrow> bool" where
  "is_ascii_uppercase c \<longleftrightarrow> of_char c \<ge> (65::int) \<and> of_char c \<le> (90::int)"

definition withdrawal_check :: "'d decimal_lib \<Rightarrow> 'd WithdrawalFunds \<Rightarrow> int res" where
  "withdrawal_check L funds =
     ensure (\<not> uuid_is_nil L (wf_withdrawal_id funds) \<and> wf_user_id funds > 0 \<and> wf_user_id funds \<le> i64_max)
       ''Invalid withdrawal identity''
     (ensure (wf_asset funds \<noteq> [] \<and> length (wf_asset funds) \<le> 128 \<and>
              list_all (\<lambda>c. is_ascii_uppercase c \<or> is_ascii_digit c) (wf_asset funds))
       ''Invalid withdrawal asset''
     (ensure (dec_lt L (dec_zero L) (wf_amount funds)) ''Withdrawal amount must be positive''
       (units L (wf_amount funds))))"

datatype proceed = Done | Proceed

definition withdrawal_stage ::
    "'d decimal_lib \<Rightarrow> 'd WithdrawalReceipt option \<Rightarrow> 'd WithdrawalCommand \<Rightarrow> proceed res" where
  "withdrawal_stage L receipt command =
     (case receipt of
        Some r \<Rightarrow>
          ensure (withdrawal_funds_eq L (wr_original r) (wc_funds command))
            ''Withdrawal id conflicts with original financial content''
            (case (wr_status r, wc_action command) of
               (StatusRejected reason, _) \<Rightarrow> Inl (Error reason)
             | (Reserved, Reserve) \<Rightarrow> Inr Done
             | (Released, Release) \<Rightarrow> Inr Done
             | (Completed, Complete) \<Rightarrow> Inr Done
             | (Reserved, _) \<Rightarrow> Inr Proceed
             | _ \<Rightarrow> Inl (Error ''Withdrawal reservation is already finalized''))
      | None \<Rightarrow>
          ensure (wc_action command = Reserve) ''Withdrawal reservation does not exist'' (Inr Proceed))"

definition withdrawal_complete ::
    "'d decimal_lib \<Rightarrow> 'd WithdrawalFunds \<Rightarrow> 'd BalanceCache \<Rightarrow> 'd BalanceCache res" where
  "withdrawal_complete L funds c =
     res_bind (ok_or ''Missing withdrawal balance'' (get_balance (wf_user_id funds) (wf_asset funds) c)) (\<lambda>old.
       res_bind (subtract L (locked old) (wf_amount funds)) (\<lambda>nxt.
         Inr (get_balance_mut L (wf_user_id funds) (wf_asset funds) (\<lambda>b. b\<lparr>locked := nxt\<rparr>) c)))"

definition withdrawal_move ::
    "'d decimal_lib \<Rightarrow> 'd WithdrawalCommand \<Rightarrow> 'd BalanceCache \<Rightarrow> 'd BalanceCache res" where
  "withdrawal_move L command c =
     (let funds = wc_funds command in
      case wc_action command of
        Reserve \<Rightarrow> lock_balance L (wf_user_id funds) (wf_asset funds) (wf_amount funds) c
      | Release \<Rightarrow> unlock_balance L (wf_user_id funds) (wf_asset funds) (wf_amount funds) c
      | Complete \<Rightarrow> withdrawal_complete L funds c)"

fun final_status :: "WithdrawalAction \<Rightarrow> WithdrawalStatus" where
  "final_status Reserve = Reserved"
| "final_status Release = Released"
| "final_status Complete = Completed"

definition insert_withdrawal ::
    "'d WithdrawalFunds \<Rightarrow> WithdrawalStatus \<Rightarrow> 'd EngineState \<Rightarrow> 'd EngineState" where
  "insert_withdrawal funds status st =
     st\<lparr>withdrawal_receipts := hm_insert (wf_withdrawal_id funds)
          \<lparr>wr_original = funds, wr_status = status\<rparr> (withdrawal_receipts st)\<rparr>"

definition withdrawal_apply ::
    "'d decimal_lib \<Rightarrow> 'd EngineState \<Rightarrow> 'd WithdrawalCommand \<Rightarrow> 'd EngineState \<times> 'd OutputBatch option res" where
  "withdrawal_apply L st command =
     (let funds = wc_funds command in
      case res_bind (withdrawal_check L funds)
             (\<lambda>_. withdrawal_stage L (hm_get (withdrawal_receipts st) (wf_withdrawal_id funds)) command) of
        Inl e \<Rightarrow> (st, Inl e)
      | Inr Done \<Rightarrow> (st, Inr None)
      | Inr Proceed \<Rightarrow>
          (case withdrawal_move L command (cache_of st) of
             Inr c \<Rightarrow> (insert_withdrawal funds (final_status (wc_action command)) (with_cache c st),
                       Inr (Some (WithdrawalChanged command)))
           | Inl (Error reason) \<Rightarrow>
               (if wc_action command = Reserve
                then (insert_withdrawal funds (StatusRejected reason) st,
                      Inr (Some (WithdrawalRejected funds reason)))
                else (st, Inl (Error reason)))
           | Inl (Panic p) \<Rightarrow> (st, Inl (Panic p))))"

section \<open>Funds as postings\<close>

definition action_postings :: "WithdrawalAction \<Rightarrow> account \<Rightarrow> int \<Rightarrow> posting list" where
  "action_postings a k n =
     (case a of Reserve \<Rightarrow> [(k, - n, n)] | Release \<Rightarrow> [(k, n, - n)] | Complete \<Rightarrow> [(k, 0, - n)])"

definition funds_account :: "'d WithdrawalFunds \<Rightarrow> account" where
  "funds_account f = (wf_user_id f, wf_asset f)"

text \<open>What the open withdrawals of an account have reserved.\<close>

definition pending_withdrawals :: "'d decimal_lib \<Rightarrow> 'd EngineState \<Rightarrow> account \<Rightarrow> int" where
  "pending_withdrawals L st k =
     hm_sum (\<lambda>_ r. if wr_status r = Reserved \<and> funds_account (wr_original r) = k
                  then units_of L (wf_amount (wr_original r)) else 0) (withdrawal_receipts st)"

definition deposit_postings :: "'d decimal_lib \<Rightarrow> 'd DepositCredit \<Rightarrow> 'd OutputBatch option res \<Rightarrow> posting list" where
  "deposit_postings L credit r =
     (case r of Inr (Some _) \<Rightarrow> [((dc_user_id credit, dc_asset credit), units_of L (dc_amount credit), 0)] | _ \<Rightarrow> [])"

definition withdrawal_postings ::
    "'d decimal_lib \<Rightarrow> 'd WithdrawalCommand \<Rightarrow> 'd OutputBatch option res \<Rightarrow> posting list" where
  "withdrawal_postings L command r =
     (case r of Inr (Some (WithdrawalChanged _)) \<Rightarrow>
        action_postings (wc_action command) (funds_account (wc_funds command)) (units_of L (wf_amount (wc_funds command)))
      | _ \<Rightarrow> [])"

text \<open>The life cycle of one withdrawal as an abstract state machine over its recorded status.\<close>

inductive withdrawal_step :: "WithdrawalAction \<Rightarrow> WithdrawalStatus option \<Rightarrow> WithdrawalStatus option \<Rightarrow> bool" where
  opens: "withdrawal_step Reserve None (Some Reserved)"
| refuses: "withdrawal_step Reserve None (Some (StatusRejected reason))"
| closes: "a \<noteq> Reserve \<Longrightarrow> withdrawal_step a (Some Reserved) (Some (final_status a))"
| stays: "withdrawal_step a s s"

inductive_simps withdrawal_step_None: "withdrawal_step a None s"
inductive_simps withdrawal_step_Some: "withdrawal_step a (Some t) s"

definition status_of :: "'d EngineState \<Rightarrow> uuid \<Rightarrow> WithdrawalStatus option" where
  "status_of st i = map_option wr_status (hm_get (withdrawal_receipts st) i)"

definition withdrawals :: "'d decimal_lib \<Rightarrow> 'd WithdrawalCommand list \<Rightarrow> 'd EngineState \<Rightarrow> 'd EngineState" where
  "withdrawals L = fold (\<lambda>command st. fst (withdrawal_apply L st command))"

lemma with_cache_simps [simp]:
  "balance_cache (executor (with_cache c st)) = c" "orderbooks (with_cache c st) = orderbooks st"
  "submissions (with_cache c st) = submissions st" "cancellations (with_cache c st) = cancellations st"
  "deposit_receipts (with_cache c st) = deposit_receipts st"
  "withdrawal_receipts (with_cache c st) = withdrawal_receipts st"
  by (simp_all add: with_cache_def)

lemma insert_withdrawal_simps [simp]:
  "executor (insert_withdrawal f s st) = executor st" "orderbooks (insert_withdrawal f s st) = orderbooks st"
  "submissions (insert_withdrawal f s st) = submissions st" "cancellations (insert_withdrawal f s st) = cancellations st"
  "deposit_receipts (insert_withdrawal f s st) = deposit_receipts st"
  "hm_get (withdrawal_receipts (insert_withdrawal f s st)) i =
     (if i = wf_withdrawal_id f then Some \<lparr>wr_original = f, wr_status = s\<rparr> else hm_get (withdrawal_receipts st) i)"
  by (simp_all add: insert_withdrawal_def)

lemma pending_withdrawals_frame [simp]:
  "pending_withdrawals L (with_cache c st) k = pending_withdrawals L st k"
  "pending_withdrawals L (st\<lparr>deposit_receipts := d\<rparr>) k = pending_withdrawals L st k"
  "pending_withdrawals L (st\<lparr>submissions := m\<rparr>) k = pending_withdrawals L st k"
  "pending_withdrawals L (st\<lparr>cancellations := m\<rparr>) k = pending_withdrawals L st k"
  "pending_withdrawals L (st\<lparr>orderbooks := b\<rparr>) k = pending_withdrawals L st k"
  "pending_withdrawals L (st\<lparr>executor := e\<rparr>) k = pending_withdrawals L st k"
  by (simp_all add: pending_withdrawals_def)

lemma pending_insert:
  "pending_withdrawals L (insert_withdrawal f s st) k = pending_withdrawals L st k
     - (case hm_get (withdrawal_receipts st) (wf_withdrawal_id f) of None \<Rightarrow> 0
        | Some r \<Rightarrow> if wr_status r = Reserved \<and> funds_account (wr_original r) = k
                    then units_of L (wf_amount (wr_original r)) else 0)
     + (if s = Reserved \<and> funds_account f = k then units_of L (wf_amount f) else 0)"
  by (simp add: pending_withdrawals_def insert_withdrawal_def hm_sum_insert hm_old_def)

context decimal_library
begin

text \<open>Assigning one half of an account through \<open>get_balance_mut\<close>.\<close>

lemma assign_available:
  assumes c: "cache_ok L c" and v: "is_ok (units L v)"
  shows "cache_ok L (get_balance_mut L u m (\<lambda>b. b\<lparr>available := v\<rparr>) c)"
    and "cache_posted L c [((u, m), units_of L v - av L c (u, m), 0)]
      (get_balance_mut L u m (\<lambda>b. b\<lparr>available := v\<rparr>) c)"
proof -
  let ?b = "case get_balance u m c of None \<Rightarrow> Balance_new L | Some b \<Rightarrow> b"
  have b: "balance_ok L ?b"
    using cache_ok_get [OF c, of "(u, m)"] zero_units
    by (auto simp: get_balance_def Balance_new_def balance_ok_def split: option.split)
  have l: "units_of L (locked ?b) = lk L c (u, m)"
    using zero_units by (auto simp: get_balance_def lk_def Balance_new_def split: option.split)
  show "cache_ok L (get_balance_mut L u m (\<lambda>b. b\<lparr>available := v\<rparr>) c)"
    unfolding get_balance_mut_def Let_def using b v by (intro cache_ok_insert [OF c]) (simp add: balance_ok_def)
  show "cache_posted L c [((u, m), units_of L v - av L c (u, m), 0)]
      (get_balance_mut L u m (\<lambda>b. b\<lparr>available := v\<rparr>) c)"
    unfolding get_balance_mut_def Let_def using l by (simp add: posted_def av_insert lk_insert)
qed

lemma assign_locked:
  assumes c: "cache_ok L c" and v: "is_ok (units L v)"
  shows "cache_ok L (get_balance_mut L u m (\<lambda>b. b\<lparr>locked := v\<rparr>) c)"
    and "cache_posted L c [((u, m), 0, units_of L v - lk L c (u, m))]
      (get_balance_mut L u m (\<lambda>b. b\<lparr>locked := v\<rparr>) c)"
proof -
  let ?b = "case get_balance u m c of None \<Rightarrow> Balance_new L | Some b \<Rightarrow> b"
  have b: "balance_ok L ?b"
    using cache_ok_get [OF c, of "(u, m)"] zero_units
    by (auto simp: get_balance_def Balance_new_def balance_ok_def split: option.split)
  have l: "units_of L (available ?b) = av L c (u, m)"
    using zero_units by (auto simp: get_balance_def av_def Balance_new_def split: option.split)
  show "cache_ok L (get_balance_mut L u m (\<lambda>b. b\<lparr>locked := v\<rparr>) c)"
    unfolding get_balance_mut_def Let_def using b v by (intro cache_ok_insert [OF c]) (simp add: balance_ok_def)
  show "cache_posted L c [((u, m), 0, units_of L v - lk L c (u, m))]
      (get_balance_mut L u m (\<lambda>b. b\<lparr>locked := v\<rparr>) c)"
    unfolding get_balance_mut_def Let_def using l by (simp add: posted_def av_insert lk_insert)
qed

lemma deposit_compute_Inr:
  assumes c: "cache_ok L c" and run: "deposit_compute L credit c = Inr c'"
  shows "cache_ok L c'" "cache_posted L c [((dc_user_id credit, dc_asset credit), units_of L (dc_amount credit), 0)] c'"
proof -
  let ?old = "case get_balance (dc_user_id credit) (dc_asset credit) c of None \<Rightarrow> dec_zero L | Some b \<Rightarrow> available b"
  from run obtain v where v: "add L ?old (dc_amount credit) = Inr v"
    "c' = get_balance_mut L (dc_user_id credit) (dc_asset credit) (\<lambda>b. b\<lparr>available := v\<rparr>) c"
    by (auto simp: deposit_compute_def Let_def res_bind_Inr_iff)
  have "units_of L ?old = av L c (dc_user_id credit, dc_asset credit)"
    using zero_units by (auto simp: get_balance_def av_def split: option.split)
  with add_units [OF v(1)] assign_available [where c = c and v = v and u = "dc_user_id credit" and m = "dc_asset credit", OF c]
  show "cache_ok L c'"
    "cache_posted L c [((dc_user_id credit, dc_asset credit), units_of L (dc_amount credit), 0)] c'"
    by (simp_all add: v(2))
qed

lemma withdrawal_move_Inr:
  assumes c: "cache_ok L c" and run: "withdrawal_move L command c = Inr c'"
  shows "cache_ok L c'" "cache_posted L c (action_postings (wc_action command) (funds_account (wc_funds command))
    (units_of L (wf_amount (wc_funds command)))) c'"
proof -
  let ?f = "wc_funds command"
  have "cache_ok L c' \<and> cache_posted L c (action_postings (wc_action command) (funds_account ?f)
    (units_of L (wf_amount ?f))) c'"
  proof (cases "wc_action command")
    case Reserve
    with run have "lock_balance L (wf_user_id ?f) (wf_asset ?f) (wf_amount ?f) c = Inr c'"
      by (simp add: withdrawal_move_def Let_def)
    then obtain n where "units L (wf_amount ?f) = Inr n" "cache_ok L c'"
      "cache_posted L c [((wf_user_id ?f, wf_asset ?f), - n, n)] c'"
      by (rule lock_balance_Inr [OF c]) (rule that)
    with Reserve show ?thesis by (simp add: action_postings_def funds_account_def units_of_def)
  next
    case Release
    with run have "unlock_balance L (wf_user_id ?f) (wf_asset ?f) (wf_amount ?f) c = Inr c'"
      by (simp add: withdrawal_move_def Let_def)
    then obtain n where "units L (wf_amount ?f) = Inr n" "cache_ok L c'"
      "cache_posted L c [((wf_user_id ?f, wf_asset ?f), n, - n)] c'"
      by (rule unlock_balance_Inr [OF c]) (rule that)
    with Release show ?thesis by (simp add: action_postings_def funds_account_def units_of_def)
  next
    case Complete
    with run obtain old v where v: "get_balance (wf_user_id ?f) (wf_asset ?f) c = Some old"
      "subtract L (locked old) (wf_amount ?f) = Inr v"
      "c' = get_balance_mut L (wf_user_id ?f) (wf_asset ?f) (\<lambda>b. b\<lparr>locked := v\<rparr>) c"
      by (auto simp: withdrawal_move_def withdrawal_complete_def Let_def res_bind_Inr_iff ok_or_Inr_iff)
    have "units_of L (locked old) = lk L c (funds_account ?f)"
      using v(1) by (simp add: get_balance_def lk_def funds_account_def)
    with subtract_units [OF v(2)] Complete
      assign_locked [where c = c and v = v and u = "wf_user_id ?f" and m = "wf_asset ?f", OF c] show ?thesis
      by (simp add: v(3) action_postings_def funds_account_def)
  qed
  then show "cache_ok L c'" "cache_posted L c (action_postings (wc_action command) (funds_account ?f)
    (units_of L (wf_amount ?f))) c'" by blast+
qed

lemma funds_not_Panic [simp]:
  "deposit_compute L credit c \<noteq> Inl (Panic p)" "withdrawal_move L command c \<noteq> Inl (Panic p)"
  "withdrawal_check L f \<noteq> Inl (Panic p)" "withdrawal_stage L r command \<noteq> Inl (Panic p)"
  by (auto simp: deposit_compute_def withdrawal_move_def withdrawal_complete_def withdrawal_check_def
      withdrawal_stage_def Let_def lock_balance_def unlock_balance_def res_bind_Panic_iff ensure_Panic_iff
      split: WithdrawalAction.splits WithdrawalStatus.splits option.splits)

lemmas cache_total = cache.posted_total

lemma deposit_credit_eq_simps:
  "deposit_credit_eq L a a" "deposit_credit_eq L a b \<Longrightarrow> deposit_credit_eq L b a"
  "deposit_credit_eq L a b \<Longrightarrow> deposit_credit_eq L b c \<Longrightarrow> deposit_credit_eq L a c"
  by (auto simp: deposit_credit_eq_def dec_simps)

lemma withdrawal_funds_eq_simps:
  "withdrawal_funds_eq L a a" "withdrawal_funds_eq L a b \<Longrightarrow> withdrawal_funds_eq L b a"
  "withdrawal_funds_eq L a b \<Longrightarrow> withdrawal_funds_eq L b c \<Longrightarrow> withdrawal_funds_eq L a c"
  by (auto simp: withdrawal_funds_eq_def dec_simps)

lemma units_of_eq: "dec_eq L a b \<Longrightarrow> units_of L a = units_of L b"
  by (rule units_of_cong) (simp add: dec_simps)

text \<open>The three ways a deposit command can end.\<close>

lemma deposit_apply_cases:
  assumes "deposit_apply L st credit = (st', r)"
  obtains (Old) receipt where "hm_get (deposit_receipts st) (dc_deposit_id credit) = Some receipt" "st' = st"
      "r = (if deposit_credit_eq L (dr_original receipt) credit
            then (case dr_rejection receipt of Some reason \<Rightarrow> Inl (Error reason) | None \<Rightarrow> Inr None)
            else Inl (Error ''Deposit id conflicts with original financial content''))"
  | (Invalid) msg where "hm_get (deposit_receipts st) (dc_deposit_id credit) = None" "st' = st" "r = Inl (Error msg)"
  | (Refused) msg where "hm_get (deposit_receipts st) (dc_deposit_id credit) = None" "r = Inl (Error msg)"
      "st' = st\<lparr>deposit_receipts := hm_insert (dc_deposit_id credit)
         \<lparr>dr_original = credit, dr_rejection = Some msg\<rparr> (deposit_receipts st)\<rparr>"
  | (Credited) c n where "hm_get (deposit_receipts st) (dc_deposit_id credit) = None"
      "units L (dc_amount credit) = Inr n" "dec_lt L (dec_zero L) (dc_amount credit)"
      "deposit_compute L credit (cache_of st) = Inr c" "r = Inr (Some (DepositCredited credit))"
      "st' = (with_cache c st)\<lparr>deposit_receipts := hm_insert (dc_deposit_id credit)
         \<lparr>dr_original = credit, dr_rejection = None\<rparr> (deposit_receipts st)\<rparr>"
proof (cases "hm_get (deposit_receipts st) (dc_deposit_id credit)")
  case (Some receipt)
  then show thesis using assms by (intro Old) (auto simp: deposit_apply_def split: if_splits)
next
  case None
  let ?check = "ensure (\<not> uuid_is_nil L (dc_deposit_id credit) \<and> dc_user_id credit > 0)
                  ''Invalid deposit identity''
                (ensure (dc_asset credit \<noteq> [] \<and> length (dc_asset credit) \<le> 128 \<and>
                         trim (dc_asset credit) = dc_asset credit)
                  ''Invalid deposit asset''
                (ensure (dec_lt L (dec_zero L) (dc_amount credit)) ''Deposit amount must be positive''
                (units L (dc_amount credit))))"
  have no_panic: "?check \<noteq> Inl (Panic p)" for p by (simp add: ensure_Panic_iff)
  show thesis
  proof (cases ?check)
    case (Inl e)
    with no_panic obtain msg where "e = Error msg" by (cases e) auto
    with Inl None assms show thesis by (intro Invalid) (auto simp: deposit_apply_def)
  next
    case (Inr n)
    show thesis
    proof (cases "deposit_compute L credit (cache_of st)")
      case (Inl e)
      then obtain msg where "e = Error msg" by (cases e) auto
      with Inl Inr None assms show thesis by (intro Refused [of msg]) (auto simp: deposit_apply_def Let_def)
    next
      case c: (Inr c)
      from Inr have "units L (dc_amount credit) = Inr n" "dec_lt L (dec_zero L) (dc_amount credit)"
        by (auto simp: ensure_Inr_iff)
      with c Inr None assms show thesis by (intro Credited [of n c]) (auto simp: deposit_apply_def Let_def)
    qed
  qed
qed

text \<open>The ways a withdrawal command can end.\<close>

lemma withdrawal_apply_cases:
  assumes "withdrawal_apply L st command = (st', r)"
  obtains (Error) msg where "st' = st" "r = Inl (Error msg)"
  | (Again) receipt where "st' = st" "r = Inr None"
      "hm_get (withdrawal_receipts st) (wf_withdrawal_id (wc_funds command)) = Some receipt"
      "withdrawal_funds_eq L (wr_original receipt) (wc_funds command)"
      "wr_status receipt = final_status (wc_action command)"
  | (Refused) reason where "hm_get (withdrawal_receipts st) (wf_withdrawal_id (wc_funds command)) = None"
      "wc_action command = Reserve" "withdrawal_move L command (cache_of st) = Inl (Error reason)"
      "is_ok (units L (wf_amount (wc_funds command)))"
      "st' = insert_withdrawal (wc_funds command) (StatusRejected reason) st"
      "r = Inr (Some (WithdrawalRejected (wc_funds command) reason))"
  | (Opened) c where "hm_get (withdrawal_receipts st) (wf_withdrawal_id (wc_funds command)) = None"
      "wc_action command = Reserve" "withdrawal_move L command (cache_of st) = Inr c"
      "st' = insert_withdrawal (wc_funds command) Reserved (with_cache c st)"
      "r = Inr (Some (WithdrawalChanged command))"
  | (Closed) receipt c where
      "hm_get (withdrawal_receipts st) (wf_withdrawal_id (wc_funds command)) = Some receipt"
      "withdrawal_funds_eq L (wr_original receipt) (wc_funds command)" "wr_status receipt = Reserved"
      "wc_action command \<noteq> Reserve" "withdrawal_move L command (cache_of st) = Inr c"
      "st' = insert_withdrawal (wc_funds command) (final_status (wc_action command)) (with_cache c st)"
      "r = Inr (Some (WithdrawalChanged command))"
proof (cases "res_bind (withdrawal_check L (wc_funds command))
    (\<lambda>_. withdrawal_stage L (hm_get (withdrawal_receipts st) (wf_withdrawal_id (wc_funds command))) command)")
  case (Inl e)
  then obtain msg where "e = Error msg" by (cases e) (auto simp: res_bind_Panic_iff)
  with Inl assms show thesis by (intro Error) (auto simp: withdrawal_apply_def Let_def)
next
  case (Inr go)
  let ?r = "hm_get (withdrawal_receipts st) (wf_withdrawal_id (wc_funds command))"
  from Inr have ok: "is_ok (units L (wf_amount (wc_funds command)))" and go: "withdrawal_stage L ?r command = Inr go"
    by (auto simp: res_bind_Inr_iff withdrawal_check_def ensure_Inr_iff)
  show thesis
  proof (cases go)
    case Done
    with go obtain receipt where "?r = Some receipt" "withdrawal_funds_eq L (wr_original receipt) (wc_funds command)"
      "wr_status receipt = final_status (wc_action command)"
      by (auto simp: withdrawal_stage_def ensure_Inr_iff split: option.splits WithdrawalStatus.splits WithdrawalAction.splits)
    with Done Inr assms show thesis by (intro Again) (auto simp: withdrawal_apply_def Let_def)
  next
    case Proceed
    with go have stage: "?r = None \<and> wc_action command = Reserve \<or> (\<exists>receipt. ?r = Some receipt \<and>
        withdrawal_funds_eq L (wr_original receipt) (wc_funds command) \<and> wr_status receipt = Reserved \<and>
        wc_action command \<noteq> Reserve)"
      by (auto simp: withdrawal_stage_def ensure_Inr_iff split: option.splits WithdrawalStatus.splits WithdrawalAction.splits)
    show thesis
    proof (cases "withdrawal_move L command (cache_of st)")
      case (Inl e)
      then obtain msg where "e = Error msg" by (cases e) auto
      with Inl Inr Proceed assms stage ok show thesis
        by (cases "wc_action command = Reserve") (auto simp: withdrawal_apply_def Let_def intro: Error Refused)
    next
      case c: (Inr c)
      with Inr Proceed assms stage show thesis
        by (auto simp: withdrawal_apply_def Let_def intro: Opened Closed)
    qed
  qed
qed

text \<open>What one deposit and one withdrawal command do to the accounts and to the rest of the state.\<close>

lemma deposit_effect:
  assumes c: "cache_ok L (cache_of st)" and run: "deposit_apply L st credit = (st', r)"
  shows "cache_ok L (cache_of st') \<and> cache_posted L (cache_of st) (deposit_postings L credit r) (cache_of st') \<and>
    orderbooks st' = orderbooks st \<and> submissions st' = submissions st \<and> cancellations st' = cancellations st \<and>
    withdrawal_receipts st' = withdrawal_receipts st \<and> (\<forall>p. r \<noteq> Inl (Panic p)) \<and>
    (\<forall>b. r = Inr (Some b) \<longrightarrow> b = DepositCredited credit \<and> 0 < units_of L (dc_amount credit))"
  using run
proof (cases rule: deposit_apply_cases)
  case (Credited c' n)
  with deposit_compute_Inr [OF c Credited(4)] units_sign [OF Credited(2)] show ?thesis
    by (simp add: deposit_postings_def dec_simps)
qed (use c in \<open>auto simp: deposit_postings_def split: option.split if_split\<close>)

lemma withdrawal_effect:
  assumes c: "cache_ok L (cache_of st)" and run: "withdrawal_apply L st command = (st', r)"
  shows "cache_ok L (cache_of st') \<and> cache_posted L (cache_of st) (withdrawal_postings L command r) (cache_of st') \<and>
    (\<forall>k. pending_withdrawals L st' k = pending_withdrawals L st k + lk_delta (withdrawal_postings L command r) k) \<and>
    orderbooks st' = orderbooks st \<and> submissions st' = submissions st \<and> cancellations st' = cancellations st \<and>
    deposit_receipts st' = deposit_receipts st \<and> (\<forall>p. r \<noteq> Inl (Panic p))"
  using run
proof (cases rule: withdrawal_apply_cases)
  case (Opened c')
  with withdrawal_move_Inr [OF c Opened(3)] show ?thesis
    by (simp add: withdrawal_postings_def action_postings_def pending_insert)
next
  case (Closed receipt c')
  have "funds_account (wr_original receipt) = funds_account (wc_funds command)"
    "units_of L (wf_amount (wr_original receipt)) = units_of L (wf_amount (wc_funds command))"
    using Closed(2) by (auto simp: withdrawal_funds_eq_def funds_account_def intro: units_of_eq)
  with withdrawal_move_Inr [OF c Closed(5)] Closed show ?thesis
    by (cases "wc_action command") (simp_all add: withdrawal_postings_def action_postings_def pending_insert)
qed (use c in \<open>auto simp: withdrawal_postings_def pending_insert\<close>)

lemma withdrawal_status_step:
  assumes run: "withdrawal_apply L st command = (st', r)"
  shows "i \<noteq> wf_withdrawal_id (wc_funds command) \<Longrightarrow>
      hm_get (withdrawal_receipts st') i = hm_get (withdrawal_receipts st) i"
    "withdrawal_step (wc_action command) (status_of st (wf_withdrawal_id (wc_funds command)))
      (status_of st' (wf_withdrawal_id (wc_funds command)))"
    "(\<exists>b. r = Inr (Some b)) \<longleftrightarrow> status_of st' (wf_withdrawal_id (wc_funds command)) \<noteq>
      status_of st (wf_withdrawal_id (wc_funds command))"
    "r = Inr (Some b) \<Longrightarrow> b = WithdrawalChanged command \<and>
        status_of st' (wf_withdrawal_id (wc_funds command)) = Some (final_status (wc_action command)) \<or>
      (\<exists>reason. b = WithdrawalRejected (wc_funds command) reason \<and>
        status_of st' (wf_withdrawal_id (wc_funds command)) = Some (StatusRejected reason))"
  using run
  by (cases rule: withdrawal_apply_cases; cases "wc_action command";
      auto simp: status_of_def withdrawal_step_None withdrawal_step_Some intro: withdrawal_step.intros)+

end

text \<open>A finished status is never left.\<close>

definition status_reaches :: "WithdrawalStatus option \<Rightarrow> WithdrawalStatus option \<Rightarrow> bool" where
  "status_reaches s t \<longleftrightarrow>
     s = t \<or> s = None \<or> (s = Some Reserved \<and> (t = Some Released \<or> t = Some Completed))"

lemma status_reaches_refl [simp]: "status_reaches s s"
  by (simp add: status_reaches_def)

lemma status_reaches_trans: "status_reaches s t \<Longrightarrow> status_reaches t u \<Longrightarrow> status_reaches s u"
  by (auto simp: status_reaches_def)

lemma withdrawal_step_reaches: "withdrawal_step a s t \<Longrightarrow> status_reaches s t"
  by (induction rule: withdrawal_step.induct) (case_tac a; auto simp: status_reaches_def)+

context decimal_library
begin

lemma withdrawal_reaches: "status_reaches (status_of st i) (status_of (fst (withdrawal_apply L st command)) i)"
proof (cases "withdrawal_apply L st command")
  case (Pair st' r)
  from withdrawal_status_step [OF Pair] show ?thesis
    by (cases "i = wf_withdrawal_id (wc_funds command)")
      (auto simp: Pair status_of_def dest!: withdrawal_step_reaches)
qed

lemma withdrawals_reach: "status_reaches (status_of st i) (status_of (withdrawals L commands st) i)"
proof (induction commands arbitrary: st)
  case (Cons command commands)
  from Cons.IH [of "fst (withdrawal_apply L st command)"] show ?case
    by (simp add: withdrawals_def) (rule status_reaches_trans [OF withdrawal_reaches])
qed (simp add: withdrawals_def)

text \<open>A deposit identifier answers from its receipt once it has one.\<close>

lemma deposit_recorded:
  assumes "hm_get (deposit_receipts st) (dc_deposit_id credit) = Some receipt"
    and "deposit_credit_eq L (dr_original receipt) original" "dc_deposit_id credit = dc_deposit_id original"
  shows "deposit_apply L st credit =
    (st, if deposit_credit_eq L original credit
         then (case dr_rejection receipt of Some reason \<Rightarrow> Inl (Error reason) | None \<Rightarrow> Inr None)
         else Inl (Error ''Deposit id conflicts with original financial content''))"
proof -
  have "deposit_credit_eq L (dr_original receipt) credit \<longleftrightarrow> deposit_credit_eq L original credit"
    using assms(2) by (auto simp: deposit_credit_eq_def dec_simps)
  with assms(1) show ?thesis by (simp add: deposit_apply_def)
qed

lemma deposit_again:
  assumes run: "deposit_apply L st credit = (st', r)"
  shows "deposit_apply L st' credit = (st', case r of Inl e \<Rightarrow> Inl e | Inr _ \<Rightarrow> Inr None)"
    and "is_ok r \<Longrightarrow> dc_deposit_id other = dc_deposit_id credit \<Longrightarrow> deposit_apply L st' other =
      (st', if deposit_credit_eq L credit other then Inr None
            else Inl (Error ''Deposit id conflicts with original financial content''))"
proof -
  let ?conflict = "Inl (Error ''Deposit id conflicts with original financial content'')"
  show "deposit_apply L st' credit = (st', case r of Inl e \<Rightarrow> Inl e | Inr _ \<Rightarrow> Inr None)"
    using run
  proof (cases rule: deposit_apply_cases)
    case (Old receipt)
    then have "(\<exists>e. r = Inl e) \<or> r = Inr None" by (simp split: option.split)
    then show ?thesis using run Old(2) by (elim disjE exE) simp_all
  next
    case (Invalid msg)
    with run show ?thesis by simp
  next
    case (Refused msg)
    from Refused(3) have "hm_get (deposit_receipts st') (dc_deposit_id credit) =
      Some \<lparr>dr_original = credit, dr_rejection = Some msg\<rparr>" by simp
    from deposit_recorded [OF this, of credit] Refused(2) show ?thesis
      by (simp add: deposit_credit_eq_simps(1))
  next
    case (Credited c n)
    from Credited(6) have "hm_get (deposit_receipts st') (dc_deposit_id credit) =
      Some \<lparr>dr_original = credit, dr_rejection = None\<rparr>" by simp
    from deposit_recorded [OF this, of credit] Credited(5) show ?thesis
      by (simp add: deposit_credit_eq_simps(1))
  qed
  assume ok: "is_ok r" and i: "dc_deposit_id other = dc_deposit_id credit"
  have "\<exists>receipt. hm_get (deposit_receipts st') (dc_deposit_id credit) = Some receipt \<and>
      deposit_credit_eq L (dr_original receipt) credit \<and> dr_rejection receipt = None"
    using run
  proof (cases rule: deposit_apply_cases)
    case (Old receipt)
    with ok show ?thesis by (auto simp: is_ok_def split: if_splits option.splits)
  qed (use ok in \<open>simp_all add: is_ok_def deposit_credit_eq_simps(1)\<close>)
  then obtain receipt where "hm_get (deposit_receipts st') (dc_deposit_id other) = Some receipt"
      "deposit_credit_eq L (dr_original receipt) credit" "dr_rejection receipt = None"
    using i by auto
  from deposit_recorded [OF this(1,2) i] this(3)
  show "deposit_apply L st' other = (st', if deposit_credit_eq L credit other then Inr None else ?conflict)"
    by simp
qed

end

section \<open>Properties\<close>

definition sample_uuid :: uuid where
  "sample_uuid = 7"

definition sample_credit :: "refdec DepositCredit" where
  "sample_credit = \<lparr>dc_deposit_id = sample_uuid, dc_user_id = 1, dc_asset = ''USDT'', dc_amount = RefDec 25 1\<rparr>"

definition sample_funds :: "refdec WithdrawalFunds" where
  "sample_funds = \<lparr>wf_withdrawal_id = sample_uuid, wf_user_id = 1, wf_asset = ''USDT'', wf_amount = RefDec 100 0\<rparr>"

definition sample_state :: "refdec EngineState" where
  "sample_state = EngineState_new\<lparr>orderbooks := sample_books, executor := sample_executor\<rparr>"



text \<open>
  C37. A deposit command credits exactly its amount or nothing. When it produces an output, the
  available half of the named account and the total of the asset grow by the positive amount,
  and otherwise no account changes. Locked amounts, books, order receipts and withdrawals are
  never touched, every stored amount stays valid, and the command cannot panic.
\<close>

theorem deposit_credits_exactly:
  assumes "decimal_library L" "cache_ok L (cache_of st)" "deposit_apply L st credit = (st', r)"
  shows "cache_ok L (cache_of st') \<and> (\<forall>p. r \<noteq> Inl (Panic p)) \<and>
    (\<forall>k. av L (cache_of st') k = av L (cache_of st) k +
        (if k = (dc_user_id credit, dc_asset credit) \<and> r = Inr (Some (DepositCredited credit))
         then units_of L (dc_amount credit) else 0) \<and>
      lk L (cache_of st') k = lk L (cache_of st) k) \<and>
    (\<forall>a. asset_total L (cache_of st') a = asset_total L (cache_of st) a +
        (if a = dc_asset credit \<and> r = Inr (Some (DepositCredited credit)) then units_of L (dc_amount credit) else 0)) \<and>
    (r = Inr (Some (DepositCredited credit)) \<longrightarrow> 0 < units_of L (dc_amount credit)) \<and>
    orderbooks st' = orderbooks st \<and> submissions st' = submissions st \<and> cancellations st' = cancellations st \<and>
    withdrawal_receipts st' = withdrawal_receipts st"
proof -
  note e = decimal_library.deposit_effect [OF assms]
  then have out: "(\<exists>b. r = Inr (Some b)) \<longleftrightarrow> r = Inr (Some (DepositCredited credit))" by blast
  have total: "asset_total L (cache_of st') a = asset_total L (cache_of st) a + asset_delta (deposit_postings L credit r) a" for a
    using e by (intro decimal_library.cache_total [OF assms(1,2)]) blast+
  have post: "av L (cache_of st') k = av L (cache_of st) k + av_delta (deposit_postings L credit r) k"
    "lk L (cache_of st') k = lk L (cache_of st) k + lk_delta (deposit_postings L credit r) k" for k
    by (rule posted_at [OF e [THEN conjunct2, THEN conjunct1]])+
  have ps: "deposit_postings L credit r = (if r = Inr (Some (DepositCredited credit))
      then [((dc_user_id credit, dc_asset credit), units_of L (dc_amount credit), 0)] else [])"
    using out by (auto simp: deposit_postings_def split: sum.split option.split)
  from e have "r = Inr (Some (DepositCredited credit)) \<longrightarrow> 0 < units_of L (dc_amount credit)"
    "cache_ok L (cache_of st')" "\<forall>p. r \<noteq> Inl (Panic p)" "orderbooks st' = orderbooks st"
    "submissions st' = submissions st" "cancellations st' = cancellations st"
    "withdrawal_receipts st' = withdrawal_receipts st" by blast+
  then show ?thesis by (simp add: total post ps)
qed

theorem deposit_credits_exactly_witness:
  "\<exists>st' r. deposit_apply ref_decimal sample_state sample_credit = (st', r) \<and> cache_ok ref_decimal (cache_of st') \<and>
     asset_total ref_decimal (cache_of st') ''SOL'' = asset_total ref_decimal (cache_of sample_state) ''SOL''"
proof -
  have ok: "cache_ok ref_decimal (cache_of sample_state)" by code_simp
  obtain st' r where run: "deposit_apply ref_decimal sample_state sample_credit = (st', r)" by fastforce
  have "''SOL'' \<noteq> dc_asset sample_credit" by (simp add: sample_credit_def)
  with deposit_credits_exactly [OF refd.decimal_library_axioms ok run] run show ?thesis by auto
qed



text \<open>
  C35. Open withdrawals stay funded. Every command keeps, for each account, the locked amount that
  is not claimed by an open withdrawal, and the total of an asset falls only when a withdrawal of
  that asset completes, by exactly its amount. Nothing is overdrawn and the command cannot panic.
\<close>

theorem withdrawal_funds_backed:
  assumes "decimal_library L" "cache_ok L (cache_of st)" "withdrawal_apply L st command = (st', r)"
  shows "cache_ok L (cache_of st') \<and> (\<forall>p. r \<noteq> Inl (Panic p)) \<and>
    (\<forall>k. lk L (cache_of st') k - pending_withdrawals L st' k = lk L (cache_of st) k - pending_withdrawals L st k) \<and>
    (\<forall>a. asset_total L (cache_of st') a = asset_total L (cache_of st) a -
       (if wc_action command = Complete \<and> a = wf_asset (wc_funds command) \<and> r = Inr (Some (WithdrawalChanged command))
        then units_of L (wf_amount (wc_funds command)) else 0))"
proof -
  note e = decimal_library.withdrawal_effect [OF assms]
  have changed: "(\<exists>b. r = Inr (Some (WithdrawalChanged b))) \<longleftrightarrow> r = Inr (Some (WithdrawalChanged command))"
    using decimal_library.withdrawal_status_step(4) [OF assms(1,3)] by blast
  have "asset_total L (cache_of st') a = asset_total L (cache_of st) a + asset_delta (withdrawal_postings L command r) a" for a
    using e by (intro decimal_library.cache_total [OF assms(1,2)]) blast+
  moreover have "asset_delta (withdrawal_postings L command r) a =
      - (if wc_action command = Complete \<and> a = wf_asset (wc_funds command) \<and> r = Inr (Some (WithdrawalChanged command))
        then units_of L (wf_amount (wc_funds command)) else 0)" for a
  proof (cases "r = Inr (Some (WithdrawalChanged command))")
    case True
    then show ?thesis
      by (cases "wc_action command") (auto simp: withdrawal_postings_def action_postings_def funds_account_def)
  next
    case False
    with changed have "withdrawal_postings L command r = []"
      by (auto simp: withdrawal_postings_def split: sum.split option.split OutputBatch.split)
    with False show ?thesis by simp
  qed
  moreover have "lk L (cache_of st') k = lk L (cache_of st) k + lk_delta (withdrawal_postings L command r) k" for k
    by (rule posted_at [OF e [THEN conjunct2, THEN conjunct1]])
  ultimately show ?thesis using e by simp
qed

theorem withdrawal_funds_backed_witness:
  "\<exists>st' r. withdrawal_apply ref_decimal sample_state \<lparr>wc_action = Reserve, wc_funds = sample_funds\<rparr> = (st', r) \<and>
     cache_ok ref_decimal (cache_of st') \<and>
     asset_total ref_decimal (cache_of st') ''USDT'' = asset_total ref_decimal (cache_of sample_state) ''USDT''"
proof -
  have ok: "cache_ok ref_decimal (cache_of sample_state)" by code_simp
  obtain st' r where run: "withdrawal_apply ref_decimal sample_state \<lparr>wc_action = Reserve, wc_funds = sample_funds\<rparr> = (st', r)"
    by fastforce
  from withdrawal_funds_backed [OF refd.decimal_library_axioms ok run] run show ?thesis by auto
qed

end
