(* ===== verification/Cancel_Order.thy ===== *)
theory Cancel_Order
  imports Engine_State
begin

text \<open>
  Cancelling a resting order (\<open>cancel_order\<close> of \<open>runtime/threads.rs\<close>): look the order up in both
  sides of the book, check that it belongs to the caller and is a well-formed resting order,
  release its reservation and only then take it out of the book. An error leaves book and cache as
  they were; the \<open>expect\<close> on the removal is the value \<open>Panic\<close> and is proved unreachable.
\<close>

section \<open>Definitions\<close>

text \<open>\<open>iter().find_map(..)\<close> over the price levels: the level and the first entry with the identifier.\<close>

fun find_order :: "u64 \<Rightarrow> ('d \<times> 'd OrderEntry list) list \<Rightarrow> ('d \<times> 'd OrderEntry) option" where
  "find_order order_id [] = None"
| "find_order order_id ((level, queue) # levels) =
     (case find (\<lambda>order. o_id order = order_id) queue of
        Some order \<Rightarrow> Some (level, order)
      | None \<Rightarrow> find_order order_id levels)"

definition find_resting :: "u64 \<Rightarrow> 'd OrderBook \<Rightarrow> ('d \<times> bool \<times> 'd OrderEntry) option" where
  "find_resting order_id book =
     (case find_order order_id (orders (buy_orders book)) of
        Some (level, order) \<Rightarrow> Some (level, True, order)
      | None \<Rightarrow> (case find_order order_id (orders (sell_orders book)) of
                   Some (level, order) \<Rightarrow> Some (level, False, order)
                 | None \<Rightarrow> None))"

definition book_side :: "bool \<Rightarrow> 'd OrderBook \<Rightarrow> 'd OrderBookSide" where
  "book_side buy book = (if buy then buy_orders book else sell_orders book)"

definition with_side :: "bool \<Rightarrow> 'd OrderBookSide \<Rightarrow> 'd OrderBook \<Rightarrow> 'd OrderBook" where
  "with_side buy s book = (if buy then book\<lparr>buy_orders := s\<rparr> else book\<lparr>sell_orders := s\<rparr>)"

definition cancel_order ::
    "'d decimal_lib \<Rightarrow> u64 \<Rightarrow> u64 \<Rightarrow> TradingPair \<Rightarrow> 'd books \<Rightarrow> 'd Executor \<Rightarrow>
     ('d OrderEntry \<times> 'd books \<times> 'd Executor) res" where
  "cancel_order L order_id user_id pair books ex =
     res_bind (ok_or ''OrderBook not found'' (hm_get books pair)) (\<lambda>book.
     res_bind (ok_or ''Order not found'' (find_resting order_id book)) (\<lambda>(level, buy, found).
     ensure (o_user_id found = user_id) ''Unauthorized cancellation''
     (ensure (o_order_side found = ''limit'' \<and> o_order_type found = (if buy then ''buy'' else ''sell''))
       ''Invalid resting order kind''
     (ensure (dec_eq_opt L (o_price found) (Some level) \<and> dec_lt L (dec_zero L) level \<and>
              dec_lt L (dec_zero L) (o_remaining_amount found))
       ''Invalid resting order price or remaining quantity''
     (ensure (o_base_mint found = tp_base_mint pair \<and> o_quote_mint found = tp_quote_mint pair)
       ''Resting order market differs from book''
     (let asset = (if buy then o_quote_mint found else o_base_mint found) in
      res_bind (if buy then quote L level (o_remaining_amount found) else Inr (o_remaining_amount found)) (\<lambda>unlock.
      ensure (total_orders (book_side buy book) > 0) ''Invalid order counter''
      (res_bind (unlock_balance_for_cancel L order_id user_id asset unlock ex) (\<lambda>ex'.
       res_bind (remove_order L order_id level (book_side buy book)) (\<lambda>(gone, side').
       res_bind (expect ''validated order remains during exclusive borrow'' gone) (\<lambda>_.
         Inr (found, hm_insert pair (with_side buy side' book) books, ex'))))))))))))"

section \<open>What a cancellation does\<close>

lemma find_order_SomeD:
  "find_order i m = Some (level, e) \<Longrightarrow> \<exists>q. (level, q) \<in> set m \<and> e \<in> set q \<and> o_id e = i"
proof (induction m)
  case (Cons x m)
  show ?case
  proof (cases "find (\<lambda>order. o_id order = i) (snd x)")
    case None
    with Cons show ?thesis by (cases x) auto
  next
    case (Some e')
    then have "e' \<in> set (snd x)" "o_id e' = i" by (auto simp: find_Some_iff)
    with Some Cons.prems show ?thesis by (cases x) auto
  qed
qed simp

lemma find_order_None: "find_order i m = None \<longleftrightarrow> (\<forall>(level, q) \<in> set m. i \<notin> o_id ` set q)"
  by (induction m) (auto simp: find_None_iff split: option.splits)

lemma book_side_simps [simp]:
  "trading_pair (with_side buy s book) = trading_pair book"
  "mset (book_entries (with_side buy s book)) = mset (side_entries s) + mset (side_entries (book_side (\<not> buy) book))"
  "book_side buy (with_side buy s book) = s" "book_side (\<not> buy) (with_side buy s book) = book_side (\<not> buy) book"
  by (simp_all add: with_side_def book_side_def book_entries_def)

lemma book_entries_sides:
  "mset (book_entries book) = mset (side_entries (book_side buy book)) + mset (side_entries (book_side (\<not> buy) book))"
  by (simp add: book_side_def book_entries_def)

context decimal_library
begin

lemma find_resting_SomeD:
  assumes ok: "book_ok L book" and f: "find_resting i book = Some (level, buy, e)"
  shows "e \<in> set (queue_at L (book_side buy book) level)" "o_id e = i"
    "side_ok L (book_side buy book)" "entry_ok L (trading_pair book) (if buy then ''buy'' else ''sell'') e"
proof -
  from f obtain q where q: "(level, q) \<in> set (orders (book_side buy book))" "e \<in> set q" "o_id e = i"
    by (auto simp: find_resting_def book_side_def split: option.splits dest!: find_order_SomeD)
  show s: "side_ok L (book_side buy book)" using ok by (simp add: book_ok_def book_side_def)
  from q(1) have "queue_at L (book_side buy book) level = q"
    using side_okD(1) [OF s] by (simp add: queue_at_def bt_get_complete)
  with q show "e \<in> set (queue_at L (book_side buy book) level)" "o_id e = i" by simp_all
  then have "e \<in> set (side_entries (book_side buy book))" using queue_at_subset by blast
  then show "entry_ok L (trading_pair book) (if buy then ''buy'' else ''sell'') e"
    using ok by (auto simp: book_ok_def book_side_def list_all_iff split: if_splits)
qed

text \<open>The removal takes out the entry that was looked up, and nothing else.\<close>

lemma remove_found:
  assumes ok: "book_ok L book" and f: "find_resting i book = Some (level, buy, e)"
  obtains s' where "remove_order L i level (book_side buy book) = Inr (Some e, s')"
    "book_ok L (with_side buy s' book)"
    "mset (book_entries book) = add_mset e (mset (book_entries (with_side buy s' book)))"
proof -
  note fr = find_resting_SomeD [OF ok f]
  have dist: "distinct (map o_id (side_entries (book_side buy book)))"
    using ok by (auto simp: book_ok_def book_entries_def book_side_def)
  from fr(3) show thesis
  proof (cases rule: remove_order_Inr [where i = i and p = level])
    case absent
    with fr(1,2) show thesis by blast
  next
    case (found e' us vs s')
    have "e' \<in> set (side_entries (book_side buy book))" "e \<in> set (side_entries (book_side buy book))"
      using queue_at_subset [of "book_side buy book" level] fr(1) found(4) by auto
    then have e': "e' = e" using dist found(3) fr(2) by (auto simp: distinct_map dest: inj_onD)
    have entries: "mset (book_entries book) = add_mset e (mset (book_entries (with_side buy s' book)))"
      using found(7) by (simp add: e' book_entries_sides [of book buy])
    have "mset (map o_id (book_entries book)) = add_mset i (mset (map o_id (book_entries (with_side buy s' book))))"
      using entries fr(2) by simp
    then have "distinct (map o_id (book_entries (with_side buy s' book)))"
      using ok by (metis book_ok_def distinct_mset_sub mset_subset_eq_add_mset_cancel mset_subset_eq_insertD
          subset_mset.order_refl subset_mset.less_imp_le multi_psub_of_add_self)
    moreover have "set (side_entries s') \<subseteq> set (side_entries (book_side buy book))"
      using found(7) by (metis set_mset_add_mset_insert set_mset_mset subset_insertI)
    ultimately have "book_ok L (with_side buy s' book)"
      using ok found(2) by (cases buy) (auto simp: book_ok_def with_side_def book_side_def list_all_iff)
    with found(1) entries show thesis by (intro that) (simp_all add: e')
  qed
qed

text \<open>A successful cancellation releases exactly what the order had reserved.\<close>

lemma cancel_order_Inr:
  assumes c: "cache_ok L (balance_cache ex)" and b: "books_ok L books"
    and run: "cancel_order L i u pair books ex = Inr (found, books', ex')"
  shows "cache_ok L (balance_cache ex')" "books_ok L books'" "o_id found = i" "o_user_id found = u"
    "o_base_mint found = tp_base_mint pair" "o_quote_mint found = tp_quote_mint pair"
    "mset (all_entries books) = add_mset found (mset (all_entries books'))"
    "cache_posted L (balance_cache ex) [(entry_account found, entry_reserve L found, - entry_reserve L found)] (balance_cache ex')"
    "0 < entry_reserve L found"
proof -
  from run obtain book level buy v gone s' where r: "hm_get books pair = Some book"
    "find_resting i book = Some (level, buy, found)" "o_user_id found = u"
    "o_order_type found = (if buy then ''buy'' else ''sell'')" "dec_eq_opt L (o_price found) (Some level)"
    "o_base_mint found = tp_base_mint pair" "o_quote_mint found = tp_quote_mint pair"
    "(if buy then quote L level (o_remaining_amount found) else Inr (o_remaining_amount found)) = Inr v"
    "unlock_balance L u (if buy then o_quote_mint found else o_base_mint found) v (balance_cache ex) = Inr (balance_cache ex')"
    "remove_order L i level (book_side buy book) = Inr (Some gone, s')"
    "books' = hm_insert pair (with_side buy s' book) books"
    unfolding cancel_order_def Let_def unlock_balance_for_cancel_def
    by (auto simp: res_bind_Inr_iff ensure_Inr_iff ok_or_Inr_iff expect_Inr_iff with_context_Inr_iff)
  have bk: "book_ok L book" "trading_pair book = pair" using books_ok_get [OF b r(1)] by simp_all
  obtain t where t: "remove_order L i level (book_side buy book) = Inr (Some found, t)"
    "book_ok L (with_side buy t book)"
    "mset (book_entries book) = add_mset found (mset (book_entries (with_side buy t book)))"
    by (rule remove_found [OF bk(1) r(2)])
  with r(10) have st: "t = s'" by simp
  show "books_ok L books'" unfolding r(11) using books_ok_insert [OF b, of "with_side buy s' book" pair] t(2) bk(2) st by simp
  show "o_id found = i" using find_resting_SomeD(2) [OF bk(1) r(2)] .
  show "o_user_id found = u" "o_base_mint found = tp_base_mint pair" "o_quote_mint found = tp_quote_mint pair"
    by (fact r)+
  show "mset (all_entries books) = add_mset found (mset (all_entries books'))"
    using all_entries_replace [of pair "with_side buy s' book" books] t(3) st unfolding r(1,11) by simp
  obtain n where n: "units L v = Inr n" "0 < n" "cache_ok L (balance_cache ex')"
    "cache_posted L (balance_cache ex) [((u, if buy then o_quote_mint found else o_base_mint found), n, - n)] (balance_cache ex')"
    by (rule unlock_balance_Inr [OF c r(9)]) (rule that)
  have "entry_account found = (u, if buy then o_quote_mint found else o_base_mint found)"
    using r(3,4) by (simp add: entry_account_def)
  moreover have "entry_reserve L found = n"
  proof (cases buy)
    case True
    from r(5) obtain p where p: "o_price found = Some p" "units_of L p = units_of L level"
      by (auto simp: dec_simps intro: units_of_cong)
    from quote_units(2) [of level "o_remaining_amount found" v] r(8) True n(1)
    show ?thesis using r(4) p by (simp add: entry_reserve_def FACTOR_def)
  next
    case False
    with r(4,8) n(1) show ?thesis by (simp add: entry_reserve_def)
  qed
  ultimately show "cache_ok L (balance_cache ex')" "0 < entry_reserve L found"
    "cache_posted L (balance_cache ex) [(entry_account found, entry_reserve L found, - entry_reserve L found)] (balance_cache ex')"
    using n by simp_all
qed

lemma cancel_entries:
  assumes "cache_ok L (balance_cache ex)" "books_ok L books" "cancel_order L i u pair books ex = Inr (found, books', ex')"
  shows "set (all_entries books') \<subseteq> set (all_entries books)" "found \<in> set (all_entries books)"
    "distinct (map o_id (all_entries books)) \<Longrightarrow> distinct (i # map o_id (all_entries books'))"
proof -
  note r = cancel_order_Inr(3,7) [OF assms]
  have "mset (all_entries books) = mset (found # all_entries books')" using r(2) by simp
  from mset_eq_setD [OF this] show "set (all_entries books') \<subseteq> set (all_entries books)" "found \<in> set (all_entries books)"
    by auto
  have "mset (map o_id (all_entries books)) = mset (i # map o_id (all_entries books'))"
    using arg_cong [OF r(2), of "image_mset o_id"] r(1) by simp
  from mset_eq_imp_distinct_iff [OF this]
  show "distinct (map o_id (all_entries books)) \<Longrightarrow> distinct (i # map o_id (all_entries books'))" by simp
qed

lemma cancel_never_Panic:
  assumes b: "books_ok L books"
  shows "cancel_order L i u pair books ex \<noteq> Inl (Panic p)"
proof
  assume "cancel_order L i u pair books ex = Inl (Panic p)"
  then obtain book level buy found where r: "hm_get books pair = Some book"
    "find_resting i book = Some (level, buy, found)"
    and bad: "remove_order L i level (book_side buy book) = Inl (Panic p) \<or>
      (\<exists>s'. remove_order L i level (book_side buy book) = Inr (None, s'))"
    unfolding cancel_order_def Let_def unlock_balance_for_cancel_def unlock_balance_def
    by (auto simp: res_bind_Panic_iff ensure_Panic_iff with_context_Panic_iff ok_or_Inr_iff quote_not_Panic
        expect_def split: if_splits option.splits)
  from books_ok_get [OF b r(1)] have "book_ok L book" by simp
  then show False by (rule remove_found [OF _ r(2)]) (use bad in auto)
qed

lemma cancel_free_lock:
  assumes "cache_ok L (balance_cache ex)" "books_ok L books" "cancel_order L i u pair books ex = Inr (found, books', ex')"
  shows "free_lock L books' (balance_cache ex') k = free_lock L books (balance_cache ex) k"
    and "asset_total L (balance_cache ex') a = asset_total L (balance_cache ex) a"
proof -
  note r = cancel_order_Inr [OF assms]
  have "mset (all_entries books) = mset (found # all_entries books')" using r(7) by simp
  then have "reserved L (all_entries books) k = reserved L (found # all_entries books') k" by (rule reserved_mset)
  with posted_at(2) [OF r(8), of k] show "free_lock L books' (balance_cache ex') k = free_lock L books (balance_cache ex) k"
    by (simp add: free_lock_def)
  show "asset_total L (balance_cache ex') a = asset_total L (balance_cache ex) a"
    using cache.posted_conserves [OF assms(1) r(1) r(8)] by simp
qed

end

end
