(* ===== verification/Journal.thy ===== *)
theory Journal
  imports Cancel_Order
begin

text \<open>
  The commands the matching worker executes and the outcomes it records (\<open>runtime/journal.rs\<close>).
  \<open>execute\<close> threads the engine state: a command that fails may still have recorded a receipt, so
  the state stands beside the result. \<open>journal_apply\<close> turns every error into a recorded outcome;
  only a panic is left as a failure, and it is proved unreachable for every history of commands.
\<close>

section \<open>Definitions\<close>

datatype 'd Command =
    Withdrawal "'d WithdrawalCommand"
  | CreditDeposit "'d DepositCredit"
  | Submit "'d OrderEntry"
  | Cancel u64 u64 TradingPair
  | BalanceDelta u64 string 'd
  | Lock u64 string 'd
  | Unlock u64 string 'd

datatype 'd Outcome =
    Applied "'d OutputBatch option"
  | Failed string
  | DuplicateCancellation "'d OrderEntry"

definition receipt_conflict :: string where
  "receipt_conflict = ''Order id is already bound to another command''"

definition execute_submit ::
    "'d decimal_lib \<Rightarrow> 'd EngineState \<Rightarrow> 'd OrderEntry \<Rightarrow> 'd EngineState \<times> 'd OutputBatch option res" where
  "execute_submit L st order =
     (case hm_get (submissions st) (o_id order) of
        Some original \<Rightarrow>
          (st, ensure (order_entry_eq L (order\<lparr>o_created_at := o_created_at original\<rparr>) original)
                 receipt_conflict (Inr None))
      | None \<Rightarrow>
          (let st1 = st\<lparr>submissions := hm_insert (o_id order) order (submissions st)\<rparr> in
           case submission_apply L order (orderbooks st1) (executor st1) of
             Inr (applied, books, ex) \<Rightarrow>
               (st1\<lparr>orderbooks := books, executor := ex\<rparr>, res_bind (submitted L applied) (\<lambda>b. Inr (Some b)))
           | Inl (Error reason) \<Rightarrow> (st1, Inr (Some (BatchRejected order reason)))
           | Inl (Panic p) \<Rightarrow> (st1, Inl (Panic p))))"

definition execute_cancel ::
    "'d decimal_lib \<Rightarrow> 'd EngineState \<Rightarrow> u64 \<Rightarrow> u64 \<Rightarrow> TradingPair \<Rightarrow> 'd EngineState \<times> 'd OutputBatch option res" where
  "execute_cancel L st order_id user_id pair =
     (case cancel_order L order_id user_id pair (orderbooks st) (executor st) of
        Inl e \<Rightarrow> (st, Inl e)
      | Inr (order, books, ex) \<Rightarrow>
          (st\<lparr>orderbooks := books, executor := ex,
              cancellations := hm_insert order_id order (cancellations st)\<rparr>,
           Inr (Some (BatchCancelled order))))"

definition execute_balance ::
    "'d decimal_lib \<Rightarrow> 'd EngineState \<Rightarrow> u64 \<Rightarrow> string \<Rightarrow> 'd \<Rightarrow> 'd EngineState \<times> 'd OutputBatch option res" where
  "execute_balance L st user_id mint delta =
     (let old = (case get_balance user_id mint (cache_of st) of None \<Rightarrow> dec_zero L | Some b \<Rightarrow> available b) in
      case ensure (user_id > 0 \<and> mint \<noteq> [] \<and> trim mint = mint) ''Invalid balance account''
             (if dec_le L (dec_zero L) delta then add L old delta else subtract L old (dec_abs L delta)) of
        Inl e \<Rightarrow> (st, Inl e)
      | Inr nxt \<Rightarrow>
          (with_cache (get_balance_mut L user_id mint (\<lambda>b. b\<lparr>available := nxt\<rparr>) (cache_of st)) st, Inr None))"

definition execute_executor ::
    "'d EngineState \<Rightarrow> 'd Executor res \<Rightarrow> 'd EngineState \<times> 'd OutputBatch option res" where
  "execute_executor st r = (case r of Inl e \<Rightarrow> (st, Inl e) | Inr ex \<Rightarrow> (st\<lparr>executor := ex\<rparr>, Inr None))"

fun execute ::
    "'d decimal_lib \<Rightarrow> 'd EngineState \<Rightarrow> 'd Command \<Rightarrow> 'd EngineState \<times> 'd OutputBatch option res" where
  "execute L st (Withdrawal command) = withdrawal_apply L st command"
| "execute L st (CreditDeposit credit) = deposit_apply L st credit"
| "execute L st (Submit order) = execute_submit L st order"
| "execute L st (Cancel order_id user_id pair) = execute_cancel L st order_id user_id pair"
| "execute L st (BalanceDelta user_id mint delta) = execute_balance L st user_id mint delta"
| "execute L st (Lock user_id mint amount) =
     execute_executor st (lock_balance_for_order L 0 user_id mint amount (executor st))"
| "execute L st (Unlock user_id mint amount) =
     execute_executor st (unlock_balance_for_cancel L 0 user_id mint amount (executor st))"

definition recorded_cancellation :: "'d EngineState \<Rightarrow> 'd Command \<Rightarrow> 'd Outcome option" where
  "recorded_cancellation st command =
     (case command of
        Cancel order_id user_id pair \<Rightarrow>
          (case hm_get (cancellations st) order_id of
             Some order \<Rightarrow>
               Some (if o_user_id order = user_id \<and> o_base_mint order = tp_base_mint pair \<and>
                        o_quote_mint order = tp_quote_mint pair
                     then DuplicateCancellation order
                     else Failed ''Unauthorized cancellation'')
           | None \<Rightarrow> None)
      | _ \<Rightarrow> None)"

definition journal_apply ::
    "'d decimal_lib \<Rightarrow> 'd EngineState \<Rightarrow> 'd Command \<Rightarrow> ('d EngineState \<times> 'd Outcome) res" where
  "journal_apply L st command =
     (case recorded_cancellation st command of
        Some outcome \<Rightarrow> Inr (st, outcome)
      | None \<Rightarrow>
          (case execute L st command of
             (st', Inr output) \<Rightarrow> Inr (st', Applied output)
           | (st', Inl (Error e)) \<Rightarrow> Inr (st', Failed e)
           | (st', Inl (Panic p)) \<Rightarrow> Inl (Panic p)))"

text \<open>A history: the commands in the order the worker executed them, with their outcomes.\<close>

fun run_commands ::
    "'d decimal_lib \<Rightarrow> 'd Command list \<Rightarrow> 'd EngineState \<Rightarrow> ('d EngineState \<times> 'd Outcome list) res" where
  "run_commands L [] st = Inr (st, [])"
| "run_commands L (command # commands) st =
     res_bind (journal_apply L st command) (\<lambda>(st1, outcome).
       res_bind (run_commands L commands st1) (\<lambda>(st2, outcomes). Inr (st2, outcome # outcomes)))"

section \<open>The invariant of the engine\<close>

text \<open>Every resting order has been submitted, and no two orders rest under one identifier.\<close>

definition engine_ok :: "'d decimal_lib \<Rightarrow> 'd EngineState \<Rightarrow> bool" where
  "engine_ok L st \<longleftrightarrow>
     cache_ok L (cache_of st) \<and> books_ok L (orderbooks st) \<and>
     list_all (\<lambda>e. hm_get (submissions st) (o_id e) \<noteq> None) (all_entries (orderbooks st)) \<and>
     distinct (map o_id (all_entries (orderbooks st)))"

text \<open>What a recorded outcome moved: the asset totals, and locks that no order or withdrawal owns.\<close>

fun outcome_delta :: "'d decimal_lib \<Rightarrow> 'd Command \<Rightarrow> 'd Outcome \<Rightarrow> string \<Rightarrow> int" where
  "outcome_delta L (CreditDeposit credit) (Applied (Some _)) a =
     (if dc_asset credit = a then units_of L (dc_amount credit) else 0)"
| "outcome_delta L (Withdrawal command) (Applied (Some (WithdrawalChanged _))) a =
     (if wc_action command = Complete \<and> wf_asset (wc_funds command) = a
      then - units_of L (wf_amount (wc_funds command)) else 0)"
| "outcome_delta L (Submit order) (Applied (Some (Submitted _ trades _))) a = - fees L (map to_trade trades) a"
| "outcome_delta L (BalanceDelta user_id mint delta) (Applied _) a =
     (if mint = a then (if dec_le L (dec_zero L) delta then units_of L delta else - units_of L (dec_abs L delta)) else 0)"
| "outcome_delta L _ _ a = 0"

fun standalone_lock :: "'d decimal_lib \<Rightarrow> 'd Command \<Rightarrow> 'd Outcome \<Rightarrow> account \<Rightarrow> int" where
  "standalone_lock L (Lock user_id mint amount) (Applied _) k = (if (user_id, mint) = k then units_of L amount else 0)"
| "standalone_lock L (Unlock user_id mint amount) (Applied _) k = (if (user_id, mint) = k then - units_of L amount else 0)"
| "standalone_lock L _ _ k = 0"

definition unclaimed :: "'d decimal_lib \<Rightarrow> 'd EngineState \<Rightarrow> account \<Rightarrow> int" where
  "unclaimed L st k = free_lock L (orderbooks st) (cache_of st) k - pending_withdrawals L st k"

text \<open>Receipts are kept and an order that left the book does not come back.\<close>

definition resting :: "'d EngineState \<Rightarrow> u64 \<Rightarrow> bool" where
  "resting st i \<longleftrightarrow> i \<in> o_id ` set (all_entries (orderbooks st))"

definition kept :: "'d EngineState \<Rightarrow> 'd EngineState \<Rightarrow> bool" where
  "kept st st' \<longleftrightarrow>
     (\<forall>i e. hm_get (submissions st) i = Some e \<longrightarrow> hm_get (submissions st') i = Some e) \<and>
     (\<forall>i e. hm_get (cancellations st) i = Some e \<longrightarrow> hm_get (cancellations st') i = Some e) \<and>
     (\<forall>i e. hm_get (submissions st) i = Some e \<and> \<not> resting st i \<longrightarrow> \<not> resting st' i)"

lemma kept_refl [simp]: "kept st st"
  by (simp add: kept_def)

lemma kept_trans: "kept a b \<Longrightarrow> kept b c \<Longrightarrow> kept a c"
  unfolding kept_def by metis

section \<open>One command\<close>

fun outcome_of :: "'d OutputBatch option res \<Rightarrow> 'd Outcome" where
  "outcome_of (Inr output) = Applied output"
| "outcome_of (Inl (Error e)) = Failed e"
| "outcome_of (Inl (Panic p)) = Failed p"

definition step_ok ::
    "'d decimal_lib \<Rightarrow> 'd EngineState \<Rightarrow> 'd Command \<Rightarrow> 'd EngineState \<Rightarrow> 'd Outcome \<Rightarrow> bool" where
  "step_ok L st command st' outcome \<longleftrightarrow>
     engine_ok L st' \<and>
     (\<forall>a. asset_total L (cache_of st') a = asset_total L (cache_of st) a + outcome_delta L command outcome a) \<and>
     (\<forall>k. unclaimed L st' k = unclaimed L st k + standalone_lock L command outcome k)"

lemma step_ok_refl:
  assumes "engine_ok L st" "\<And>a. outcome_delta L command outcome a = 0" "\<And>k. standalone_lock L command outcome k = 0"
  shows "step_ok L st command st outcome"
  using assms by (simp add: step_ok_def)

lemma engine_okD:
  assumes "engine_ok L st"
  shows "cache_ok L (cache_of st)" "books_ok L (orderbooks st)"
    "hm_get (submissions st) i = None \<Longrightarrow> i \<notin> o_id ` set (all_entries (orderbooks st))"
    "distinct (map o_id (all_entries (orderbooks st)))"
  using assms by (auto simp: engine_ok_def list_all_iff)

lemma failed_delta [simp]: "outcome_delta L command (Failed e) a = 0" "standalone_lock L command (Failed e) k = 0"
  by (cases command; simp)+

lemma duplicate_delta [simp]:
  "outcome_delta L command (DuplicateCancellation e) a = 0" "standalone_lock L command (DuplicateCancellation e) k = 0"
  by (cases command; simp)+

context decimal_library
begin

text \<open>A change of the accounts alone keeps the invariant and moves what its postings say.\<close>

lemma posted_step:
  assumes ok: "engine_ok L st" and c: "cache_ok L (cache_of st')"
    and ps: "cache_posted L (cache_of st) ps (cache_of st')"
    and same: "orderbooks st' = orderbooks st" "submissions st' = submissions st"
    and total: "\<And>a. asset_delta ps a = outcome_delta L command outcome a"
    and locks: "\<And>k. lk_delta ps k - (pending_withdrawals L st' k - pending_withdrawals L st k) =
      standalone_lock L command outcome k"
  shows "step_ok L st command st' outcome"
  unfolding step_ok_def
proof (intro conjI allI)
  show "engine_ok L st'" using ok c same by (simp add: engine_ok_def)
  show "asset_total L (cache_of st') a = asset_total L (cache_of st) a + outcome_delta L command outcome a" for a
    using cache_total [OF engine_okD(1) [OF ok] c ps] total by simp
  show "unclaimed L st' k = unclaimed L st k + standalone_lock L command outcome k" for k
    using posted_at(2) [OF ps, of k] locks [of k] by (simp add: unclaimed_def free_lock_def same)
qed

lemma deposit_step:
  assumes ok: "engine_ok L st" and run: "deposit_apply L st credit = (st', r)"
  shows "step_ok L st (CreditDeposit credit) st' (outcome_of r)" "\<And>p. r \<noteq> Inl (Panic p)"
proof -
  note e = deposit_effect [OF engine_okD(1) [OF ok] run]
  then show "\<And>p. r \<noteq> Inl (Panic p)" by blast
  have "pending_withdrawals L st' k = pending_withdrawals L st k" for k
    using e by (simp add: pending_withdrawals_def)
  moreover have "asset_delta (deposit_postings L credit r) a = outcome_delta L (CreditDeposit credit) (outcome_of r) a"
    "lk_delta (deposit_postings L credit r) k = 0" for a k
    by (cases r rule: outcome_of.cases; auto simp: deposit_postings_def split: option.split)+
  ultimately show "step_ok L st (CreditDeposit credit) st' (outcome_of r)"
    using e by (intro posted_step [OF ok, where ps = "deposit_postings L credit r"]) simp_all
qed

lemma withdrawal_step:
  assumes ok: "engine_ok L st" and run: "withdrawal_apply L st command = (st', r)"
  shows "step_ok L st (Withdrawal command) st' (outcome_of r)" "\<And>p. r \<noteq> Inl (Panic p)"
proof -
  note e = withdrawal_effect [OF engine_okD(1) [OF ok] run]
  then show "\<And>p. r \<noteq> Inl (Panic p)" by blast
  have total: "asset_delta (withdrawal_postings L command r) a = outcome_delta L (Withdrawal command) (outcome_of r) a" for a
    by (cases r rule: outcome_of.cases; cases "wc_action command")
      (auto simp: withdrawal_postings_def action_postings_def funds_account_def split: option.splits OutputBatch.splits)
  from e have "pending_withdrawals L st' k = pending_withdrawals L st k + lk_delta (withdrawal_postings L command r) k" for k
    by blast
  with e show "step_ok L st (Withdrawal command) st' (outcome_of r)"
    by (intro posted_step [OF ok, where ps = "withdrawal_postings L command r"] total) simp_all
qed

lemma balance_step:
  assumes ok: "engine_ok L st" and run: "execute_balance L st u m d = (st', r)"
  shows "step_ok L st (BalanceDelta u m d) st' (outcome_of r)" "\<And>p. r \<noteq> Inl (Panic p)"
proof -
  let ?old = "case get_balance u m (cache_of st) of None \<Rightarrow> dec_zero L | Some b \<Rightarrow> available b"
  let ?new = "ensure (u > 0 \<and> m \<noteq> [] \<and> trim m = m) ''Invalid balance account''
    (if dec_le L (dec_zero L) d then add L ?old d else subtract L ?old (dec_abs L d))"
  show np: "\<And>p. r \<noteq> Inl (Panic p)"
    using run by (auto simp: execute_balance_def Let_def ensure_Panic_iff split: sum.splits if_splits)
  show "step_ok L st (BalanceDelta u m d) st' (outcome_of r)"
  proof (cases ?new)
    case (Inl e)
    with run np have "st' = st" "r = Inl e" "\<And>p. e \<noteq> Panic p"
      by (auto simp: execute_balance_def Let_def)
    then show ?thesis using ok by (cases e) (auto intro: step_ok_refl)
  next
    case (Inr v)
    have old: "units_of L ?old = av L (cache_of st) (u, m)"
      using zero_units by (auto simp: get_balance_def av_def split: option.split)
    have st': "st' = with_cache (get_balance_mut L u m (\<lambda>b. b\<lparr>available := v\<rparr>) (cache_of st)) st" "r = Inr None"
      using Inr run by (simp_all add: execute_balance_def Let_def)
    from Inr have v: "(if dec_le L (dec_zero L) d then add L ?old d else subtract L ?old (dec_abs L d)) = Inr v"
      by (simp add: ensure_Inr_iff)
    let ?n = "if dec_le L (dec_zero L) d then units_of L d else - units_of L (dec_abs L d)"
    have u: "is_ok (units L v)" "units_of L v - av L (cache_of st) (u, m) = ?n"
      using v add_units [of ?old d v] subtract_units [of ?old "dec_abs L d" v] old by (auto split: if_splits)
    note a = assign_available [OF engine_okD(1) [OF ok] u(1), of u m]
    show ?thesis
      by (rule posted_step [OF ok, where ps = "[((u, m), ?n, 0)]"]) (use a u(2) in \<open>simp_all add: st'\<close>)
  qed
qed

lemma lock_step:
  assumes ok: "engine_ok L st"
    and run: "execute_executor st (lock_balance_for_order L i u m v (executor st)) = (st', r)"
  shows "step_ok L st (Lock u m v) st' (outcome_of r)" "\<And>p. r \<noteq> Inl (Panic p)"
proof -
  show np: "\<And>p. r \<noteq> Inl (Panic p)"
    using run by (auto simp: execute_executor_def lock_balance_for_order_def lock_balance_def res_bind_Panic_iff
        with_context_Panic_iff split: sum.splits)
  show "step_ok L st (Lock u m v) st' (outcome_of r)"
  proof (cases "lock_balance_for_order L i u m v (executor st)")
    case (Inl e)
    with run np have "st' = st" "r = Inl e" "\<And>p. e \<noteq> Panic p" by (auto simp: execute_executor_def)
    then show ?thesis using ok by (cases e) (auto intro: step_ok_refl)
  next
    case (Inr ex)
    then have lock: "lock_balance L u m v (cache_of st) = Inr (balance_cache ex)"
      by (auto simp: lock_balance_for_order_def res_bind_Inr_iff with_context_Inr_iff)
    have st': "st' = st\<lparr>executor := ex\<rparr>" "r = Inr None" using Inr run by (simp_all add: execute_executor_def)
    obtain n where "units L v = Inr n" "cache_ok L (balance_cache ex)"
      "cache_posted L (cache_of st) [((u, m), - n, n)] (balance_cache ex)"
      by (rule lock_balance_Inr [OF engine_okD(1) [OF ok] lock]) (rule that)
    then show ?thesis
      by (intro posted_step [OF ok, where ps = "[((u, m), - n, n)]"]) (simp_all add: st')
  qed
qed

lemma unlock_step:
  assumes ok: "engine_ok L st"
    and run: "execute_executor st (unlock_balance_for_cancel L i u m v (executor st)) = (st', r)"
  shows "step_ok L st (Unlock u m v) st' (outcome_of r)" "\<And>p. r \<noteq> Inl (Panic p)"
proof -
  show np: "\<And>p. r \<noteq> Inl (Panic p)"
    using run by (auto simp: execute_executor_def unlock_balance_for_cancel_def unlock_balance_def res_bind_Panic_iff
        with_context_Panic_iff split: sum.splits)
  show "step_ok L st (Unlock u m v) st' (outcome_of r)"
  proof (cases "unlock_balance_for_cancel L i u m v (executor st)")
    case (Inl e)
    with run np have "st' = st" "r = Inl e" "\<And>p. e \<noteq> Panic p" by (auto simp: execute_executor_def)
    then show ?thesis using ok by (cases e) (auto intro: step_ok_refl)
  next
    case (Inr ex)
    then have lock: "unlock_balance L u m v (cache_of st) = Inr (balance_cache ex)"
      by (auto simp: unlock_balance_for_cancel_def res_bind_Inr_iff with_context_Inr_iff)
    have st': "st' = st\<lparr>executor := ex\<rparr>" "r = Inr None" using Inr run by (simp_all add: execute_executor_def)
    obtain n where "units L v = Inr n" "cache_ok L (balance_cache ex)"
      "cache_posted L (cache_of st) [((u, m), n, - n)] (balance_cache ex)"
      by (rule unlock_balance_Inr [OF engine_okD(1) [OF ok] lock]) (rule that)
    then show ?thesis
      by (intro posted_step [OF ok, where ps = "[((u, m), n, - n)]"]) (simp_all add: st')
  qed
qed

text \<open>Settlement computed the very amounts that the output needs, so building it cannot fail.\<close>

lemma settled_output:
  assumes "settle_trade L t c = Inr c'"
  shows "\<exists>out. trade_output L t = Inr out \<and> to_trade out = t"
  using assms by (auto simp: settle_trade_def trade_output_def Let_def res_bind_Inr_iff ensure_Inr_iff expect_ok_def)

lemma settled_outputs:
  "res_fold (settle_trade L) ts c = Inr c' \<Longrightarrow> \<exists>outs. res_map (trade_output L) ts = Inr outs \<and> map to_trade outs = ts"
proof (induction ts arbitrary: c)
  case (Cons t ts)
  then obtain c1 where "settle_trade L t c = Inr c1" "res_fold (settle_trade L) ts c1 = Inr c'"
    by (auto simp: res_bind_Inr_iff)
  with Cons.IH settled_output show ?case by fastforce
qed simp

lemma submitted_Inr:
  assumes "submission_apply L o' books ex = Inr (applied, books', ex')"
  obtains trades where "submitted L applied = Inr (Submitted (as_order_id applied) trades (as_completion applied))"
    "map to_trade trades = as_matches applied"
proof -
  from assms obtain p1 p2 where "res_fold (settle_trade L) (as_matches applied) p1 = Inr p2"
    by (auto simp: submission_apply_def Let_def res_bind_Inr_iff)
  then obtain outs where "res_map (trade_output L) (as_matches applied) = Inr outs" "map to_trade outs = as_matches applied"
    using settled_outputs by blast
  then show thesis by (intro that [of outs]) (simp_all add: submitted_def)
qed

lemma submit_step:
  assumes ok: "engine_ok L st" and run: "execute_submit L st order = (st', r)"
  shows "step_ok L st (Submit order) st' (outcome_of r)" "\<And>p. r \<noteq> Inl (Panic p)"
proof -
  have "step_ok L st (Submit order) st' (outcome_of r) \<and> (\<forall>p. r \<noteq> Inl (Panic p))"
  proof (cases "hm_get (submissions st) (o_id order)")
    case (Some original)
    with run have "st' = st" "r = Inr None \<or> r = Inl (Error receipt_conflict)"
      by (auto simp: execute_submit_def ensure_def split: if_splits)
    with ok show ?thesis by (auto intro: step_ok_refl)
  next
    case None
    note c = engine_okD(1,2) [OF ok] and fresh = engine_okD(3) [OF ok None]
    let ?st1 = "st\<lparr>submissions := hm_insert (o_id order) order (submissions st)\<rparr>"
    have ok1: "engine_ok L ?st1" using ok by (auto simp: engine_ok_def list_all_iff)
    show ?thesis
    proof (cases "submission_apply L order (orderbooks st) (executor st)")
      case (Inl e)
      with submission_never_Panic [OF c(2) fresh] obtain msg where e: "e = Error msg" by (cases e) auto
      with Inl None run have "st' = ?st1" "r = Inr (Some (BatchRejected order msg))"
        by (auto simp: execute_submit_def Let_def)
      with ok1 show ?thesis by (simp add: step_ok_def unclaimed_def)
    next
      case (Inr res)
      obtain applied books ex where res: "res = (applied, books, ex)" by (cases res) auto
      note run1 = Inr [unfolded res]
      note s = submission_apply_Inr [OF c fresh run1]
      obtain trades where t: "submitted L applied = Inr (Submitted (as_order_id applied) trades (as_completion applied))"
        "map to_trade trades = as_matches applied"
        by (rule submitted_Inr [OF run1])
      have st': "st' = ?st1\<lparr>orderbooks := books, executor := ex\<rparr>"
        "r = Inr (Some (Submitted (as_order_id applied) trades (as_completion applied)))"
        using None run run1 t(1) by (simp_all add: execute_submit_def Let_def)
      have "hm_get (submissions st') (o_id e) \<noteq> None" if "e \<in> set (all_entries books)" for e
        using s(3) that ok by (fastforce simp: st' engine_ok_def list_all_iff)
      then have "engine_ok L st'"
        using s(1,2) s(7) [OF engine_okD(4) [OF ok]] by (simp add: engine_ok_def st' list_all_iff)
      with s(4,5) t(2) show ?thesis by (simp add: step_ok_def st' unclaimed_def)
    qed
  qed
  then show "step_ok L st (Submit order) st' (outcome_of r)" "\<And>p. r \<noteq> Inl (Panic p)" by blast+
qed

lemma cancel_step:
  assumes ok: "engine_ok L st" and run: "execute_cancel L st i u pair = (st', r)"
  shows "step_ok L st (Cancel i u pair) st' (outcome_of r)" "\<And>p. r \<noteq> Inl (Panic p)"
proof -
  note c = engine_okD(1,2) [OF ok]
  have "step_ok L st (Cancel i u pair) st' (outcome_of r) \<and> (\<forall>p. r \<noteq> Inl (Panic p))"
  proof (cases "cancel_order L i u pair (orderbooks st) (executor st)")
    case (Inl e)
    with cancel_never_Panic [OF c(2)] obtain msg where "e = Error msg" by (cases e) auto
    with Inl run have "st' = st" "r = Inl (Error msg)" by (simp_all add: execute_cancel_def)
    with ok show ?thesis by (auto intro: step_ok_refl)
  next
    case (Inr res)
    obtain found books ex where res: "res = (found, books, ex)" by (cases res) auto
    note run1 = Inr [unfolded res]
    note s = cancel_order_Inr [OF c run1] cancel_free_lock [OF c run1]
    have st': "st' = st\<lparr>orderbooks := books, executor := ex, cancellations := hm_insert i found (cancellations st)\<rparr>"
      "r = Inr (Some (BatchCancelled found))"
      using run run1 by (simp_all add: execute_cancel_def)
    have "engine_ok L st'"
      using s(1,2) ok cancel_entries(1) [OF c run1] cancel_entries(3) [OF c run1 engine_okD(4) [OF ok]]
      by (auto simp: engine_ok_def st' list_all_iff)
    with s(10,11) show ?thesis by (simp add: step_ok_def st' unclaimed_def)
  qed
  then show "step_ok L st (Cancel i u pair) st' (outcome_of r)" "\<And>p. r \<noteq> Inl (Panic p)" by blast+
qed

lemmas command_steps = deposit_step withdrawal_step balance_step lock_step unlock_step submit_step cancel_step

lemma execute_step:
  assumes "engine_ok L st" "execute L st command = (st', r)"
  shows "step_ok L st command st' (outcome_of r)" "\<And>p. r \<noteq> Inl (Panic p)"
proof -
  have "step_ok L st command st' (outcome_of r) \<and> (\<forall>p. r \<noteq> Inl (Panic p))"
    using assms(2) command_steps [OF assms(1)] by (cases command) simp_all
  then show "step_ok L st command st' (outcome_of r)" "\<And>p. r \<noteq> Inl (Panic p)" by simp_all
qed

lemma journal_apply_cases:
  assumes ok: "engine_ok L st"
  shows "(\<exists>outcome. recorded_cancellation st command = Some outcome \<and> journal_apply L st command = Inr (st, outcome) \<and>
      step_ok L st command st outcome) \<or>
    (\<exists>st' r. recorded_cancellation st command = None \<and> execute L st command = (st', r) \<and>
      journal_apply L st command = Inr (st', outcome_of r) \<and> step_ok L st command st' (outcome_of r))"
proof (cases "recorded_cancellation st command")
  case (Some out)
  then have "(\<exists>e. out = DuplicateCancellation e) \<or> (\<exists>msg. out = Failed msg)"
    by (auto simp: recorded_cancellation_def split: Command.splits option.splits if_splits)
  then have "step_ok L st command st out" using ok by (auto intro: step_ok_refl)
  with Some show ?thesis by (simp add: journal_apply_def)
next
  case None
  obtain st' r where run: "execute L st command = (st', r)" by fastforce
  note s = execute_step [OF ok run]
  have "journal_apply L st command = Inr (st', outcome_of r)"
    using run None s(2) by (cases r rule: outcome_of.cases) (auto simp: journal_apply_def)
  with s(1) run None show ?thesis by simp
qed

lemma journal_apply_total:
  assumes ok: "engine_ok L st"
  shows "\<exists>st' outcome. journal_apply L st command = Inr (st', outcome) \<and> step_ok L st command st' outcome"
  using journal_apply_cases [OF ok, of command] by blast

text \<open>Histories: the effects of the commands add up.\<close>

lemma run_commands_total:
  assumes "engine_ok L st"
  shows "\<exists>st' outcomes. run_commands L commands st = Inr (st', outcomes) \<and> length outcomes = length commands \<and>
    engine_ok L st' \<and>
    (\<forall>a. asset_total L (cache_of st') a = asset_total L (cache_of st) a +
       (\<Sum>(c, out) \<leftarrow> zip commands outcomes. outcome_delta L c out a)) \<and>
    (\<forall>k. unclaimed L st' k = unclaimed L st k + (\<Sum>(c, out) \<leftarrow> zip commands outcomes. standalone_lock L c out k))"
  using assms
proof (induction commands arbitrary: st)
  case (Cons command commands)
  from journal_apply_total [OF Cons.prems] obtain st1 out where
    s: "journal_apply L st command = Inr (st1, out)" "step_ok L st command st1 out" by blast
  from s(2) have "engine_ok L st1" by (simp add: step_ok_def)
  from Cons.IH [OF this] obtain st' outs where r: "run_commands L commands st1 = Inr (st', outs)"
    "length outs = length commands" "engine_ok L st'"
    "\<And>a. asset_total L (cache_of st') a = asset_total L (cache_of st1) a +
       (\<Sum>(c, out) \<leftarrow> zip commands outs. outcome_delta L c out a)"
    "\<And>k. unclaimed L st' k = unclaimed L st1 k + (\<Sum>(c, out) \<leftarrow> zip commands outs. standalone_lock L c out k)"
    by blast
  have "unclaimed L st1 k = unclaimed L st k + standalone_lock L command out k"
    "asset_total L (cache_of st1) a = asset_total L (cache_of st) a + outcome_delta L command out a" for a k
    using s(2) by (simp_all only: step_ok_def)
  with s(1) r show ?case by (intro exI [of _ st'] exI [of _ "out # outs"]) simp
qed simp

text \<open>Every command keeps the receipts.\<close>

lemma execute_keeps:
  assumes ok: "engine_ok L st" and run: "execute L st command = (st', r)"
    and fresh: "recorded_cancellation st command = None"
  shows "hm_get (submissions st) i = Some e \<longrightarrow> hm_get (submissions st') i = Some e"
    and "hm_get (cancellations st) i = Some e \<longrightarrow> hm_get (cancellations st') i = Some e"
    and "hm_get (submissions st) i = Some e \<and> i \<notin> o_id ` set (all_entries (orderbooks st)) \<longrightarrow>
      i \<notin> o_id ` set (all_entries (orderbooks st'))"
proof -
  note c = engine_okD(1,2) [OF ok]
  have "(hm_get (submissions st) i = Some e \<longrightarrow> hm_get (submissions st') i = Some e) \<and>
    (hm_get (cancellations st) i = Some e \<longrightarrow> hm_get (cancellations st') i = Some e) \<and>
    (hm_get (submissions st) i = Some e \<and> i \<notin> o_id ` set (all_entries (orderbooks st)) \<longrightarrow>
      i \<notin> o_id ` set (all_entries (orderbooks st')))"
  proof (cases command)
    case (Withdrawal w)
    with run withdrawal_effect [OF c(1)] show ?thesis by fastforce
  next
    case (CreditDeposit d)
    with run deposit_effect [OF c(1)] show ?thesis by fastforce
  next
    case (Submit order)
    show ?thesis
    proof (cases "hm_get (submissions st) (o_id order)")
      case None
      from submission_apply_Inr(3) [OF c engine_okD(3) [OF ok None]] run Submit None show ?thesis
        by (fastforce simp: execute_submit_def Let_def split: sum.splits prod.splits failure.splits)
    qed (use run Submit in \<open>auto simp: execute_submit_def\<close>)
  next
    case (Cancel j u pair)
    with fresh have j: "hm_get (cancellations st) j = None" by (simp add: recorded_cancellation_def split: option.splits)
    show ?thesis
    proof (cases "cancel_order L j u pair (orderbooks st) (executor st)")
      case (Inr res)
      obtain found books ex where res: "res = (found, books, ex)" by (cases res) auto
      with cancel_entries(1) [OF c Inr [unfolded res]] Inr run Cancel j show ?thesis
        by (auto simp: execute_cancel_def)
    qed (use run Cancel in \<open>auto simp: execute_cancel_def\<close>)
  qed (use run in \<open>auto simp: execute_balance_def execute_executor_def Let_def split: sum.splits\<close>)
  then show "hm_get (submissions st) i = Some e \<longrightarrow> hm_get (submissions st') i = Some e"
    "hm_get (cancellations st) i = Some e \<longrightarrow> hm_get (cancellations st') i = Some e"
    "hm_get (submissions st) i = Some e \<and> i \<notin> o_id ` set (all_entries (orderbooks st)) \<longrightarrow>
      i \<notin> o_id ` set (all_entries (orderbooks st'))"
    by blast+
qed

lemma journal_apply_kept:
  assumes ok: "engine_ok L st" and run: "journal_apply L st command = Inr (st', out)"
  shows "kept st st'" "engine_ok L st'"
proof -
  have "st' = st \<or> (\<exists>r. recorded_cancellation st command = None \<and> execute L st command = (st', r))"
    using journal_apply_cases [OF ok, of command] run by auto
  then show "kept st st'"
  proof (elim disjE exE conjE)
    fix r
    assume r: "recorded_cancellation st command = None" "execute L st command = (st', r)"
    show ?thesis unfolding kept_def resting_def by (intro conjI allI execute_keeps [OF ok r(2,1)])
  qed simp
  obtain st1 out1 where "journal_apply L st command = Inr (st1, out1)" "engine_ok L st1"
    using journal_apply_total [OF ok, of command] unfolding step_ok_def by blast
  with run show "engine_ok L st'" by simp
qed

lemma run_commands_kept:
  assumes "engine_ok L st" "run_commands L commands st = Inr (st', outs)"
  shows "kept st st'" "engine_ok L st'"
proof -
  have "kept st st' \<and> engine_ok L st'"
    using assms
  proof (induction commands arbitrary: st outs)
    case (Cons command commands)
    then obtain st1 out outs1 where s: "journal_apply L st command = Inr (st1, out)"
      "run_commands L commands st1 = Inr (st', outs1)"
      by (auto simp: res_bind_Inr_iff)
    note k = journal_apply_kept [OF Cons.prems(1) s(1)]
    from Cons.IH [OF k(2) s(2)] kept_trans [OF k(1)] show ?case by blast
  qed simp
  then show "kept st st'" "engine_ok L st'" by simp_all
qed

end

section \<open>Properties\<close>

text \<open>
  C5. The engine never panics and keeps its invariant: from every state that satisfies it, every
  sequence of commands runs to the end with one outcome for each command, all stored amounts stay
  valid, the books stay well formed, and the total of each asset has changed by exactly the
  deposits, balance changes, completed withdrawals and fees that the outcomes record.
\<close>

theorem engine_history_sound:
  assumes "decimal_library L" "engine_ok L st"
  shows "\<exists>st' outcomes. run_commands L commands st = Inr (st', outcomes) \<and> length outcomes = length commands \<and>
    engine_ok L st' \<and>
    (\<forall>a. asset_total L (cache_of st') a = asset_total L (cache_of st) a +
       (\<Sum>(c, out) \<leftarrow> zip commands outcomes. outcome_delta L c out a))"
  using decimal_library.run_commands_total [OF assms, of commands] by blast

definition sample_commands :: "refdec Command list" where
  "sample_commands =
     [CreditDeposit sample_credit, Submit (sample_order 50 1 ''buy'' 100 2), Cancel 12 2 (TradingPair_new ''SOL'' ''USDT''),
      Withdrawal \<lparr>wc_action = Reserve, wc_funds = sample_funds\<rparr>, Lock 1 ''USDT'' (RefDec 1 0)]"

definition sample_engine :: "refdec EngineState" where
  "sample_engine = sample_state\<lparr>submissions := map (\<lambda>e. (o_id e, e)) (all_entries sample_books)\<rparr>"

lemma sample_engine_ok: "engine_ok ref_decimal sample_engine"
  by code_simp

theorem engine_history_sound_witness:
  "\<exists>st' outcomes. run_commands ref_decimal sample_commands sample_engine = Inr (st', outcomes) \<and>
     length outcomes = 5 \<and> engine_ok ref_decimal st'"
  using engine_history_sound [OF refd.decimal_library_axioms sample_engine_ok, of sample_commands]
  by (auto simp: sample_commands_def)

text \<open>
  C6. Locked funds are fully accounted for. Starting from balances without locks and with no
  history, after any sequence of commands the locked amount of every account is the sum of what
  its resting orders reserve, what its open withdrawals reserve, and the standalone locks recorded
  in the journal.
\<close>

theorem locked_funds_accounted:
  assumes "decimal_library L" "cache_ok L c" "\<forall>k. lk L c k = 0"
    and "run_commands L commands (with_cache c EngineState_new) = Inr (st', outcomes)"
  shows "lk L (cache_of st') k = reserved L (all_entries (orderbooks st')) k + pending_withdrawals L st' k +
    (\<Sum>(com, out) \<leftarrow> zip commands outcomes. standalone_lock L com out k)"
proof -
  have "engine_ok L (with_cache c EngineState_new)"
    using assms(2) by (simp add: engine_ok_def EngineState_new_def books_ok_def)
  from decimal_library.run_commands_total [OF assms(1) this, of commands] assms(4)
  have "unclaimed L st' k = unclaimed L (with_cache c EngineState_new) k +
      (\<Sum>(com, out) \<leftarrow> zip commands outcomes. standalone_lock L com out k)"
    by fastforce
  moreover have "unclaimed L (with_cache c EngineState_new) k = lk L c k"
    by (simp add: unclaimed_def free_lock_def EngineState_new_def pending_withdrawals_def with_cache_def)
  ultimately show ?thesis using assms(3) by (simp add: unclaimed_def free_lock_def)
qed

definition sample_genesis_cache :: "refdec BalanceCache" where
  "sample_genesis_cache = \<lparr>balances = [((1, ''USDT''), \<lparr>available = RefDec 500 0, locked = RefDec 0 0\<rparr>)]\<rparr>"

theorem locked_funds_accounted_witness:
  "\<exists>st' outcomes. run_commands ref_decimal sample_commands (with_cache sample_genesis_cache EngineState_new) = Inr (st', outcomes) \<and>
     lk ref_decimal (cache_of st') (1, ''USDT'') =
       reserved ref_decimal (all_entries (orderbooks st')) (1, ''USDT'') + pending_withdrawals ref_decimal st' (1, ''USDT'') +
       (\<Sum>(com, out) \<leftarrow> zip sample_commands outcomes. standalone_lock ref_decimal com out (1, ''USDT''))"
proof -
  have ok: "cache_ok ref_decimal sample_genesis_cache" by code_simp
  have zero: "\<forall>k. lk ref_decimal sample_genesis_cache k = 0"
    by (simp add: lk_def sample_genesis_cache_def units_of_def refd.zero_ok dec_val_def)
  have "is_ok (run_commands ref_decimal sample_commands (with_cache sample_genesis_cache EngineState_new))" by code_simp
  then obtain st' outcomes where
    run: "run_commands ref_decimal sample_commands (with_cache sample_genesis_cache EngineState_new) = Inr (st', outcomes)"
    by (auto simp: is_ok_iff)
  from locked_funds_accounted [OF refd.decimal_library_axioms ok zero run] run show ?thesis by blast
qed

text \<open>
  C14. An order is executed at most once. After its first submission, and whatever commands
  follow, submitting the same identifier again changes nothing: it succeeds without an output when
  the content agrees with the first submission (its creation time apart), and is refused as a
  conflict otherwise.
\<close>

theorem submit_at_most_once:
  assumes "decimal_library L" "engine_ok L st" "hm_get (submissions st) (o_id order) = None"
    and "journal_apply L st (Submit order) = Inr (st1, outcome)"
    and "run_commands L commands st1 = Inr (st2, outcomes)" "o_id again = o_id order"
  shows "journal_apply L st2 (Submit again) =
    Inr (st2, if order_entry_eq L (again\<lparr>o_created_at := o_created_at order\<rparr>) order
              then Applied None else Failed receipt_conflict)"
proof -
  have "hm_get (submissions st1) (o_id order) = Some order"
    using assms(3,4)
    by (auto simp: journal_apply_def recorded_cancellation_def execute_submit_def Let_def
        split: sum.splits failure.splits prod.splits)
  moreover have "engine_ok L st1" by (rule decimal_library.journal_apply_kept(2) [OF assms(1,2,4)])
  ultimately have "hm_get (submissions st2) (o_id again) = Some order"
    using decimal_library.run_commands_kept(1) [OF assms(1) _ assms(5)] assms(6) unfolding kept_def by simp
  then show ?thesis
    by (simp add: journal_apply_def recorded_cancellation_def execute_submit_def)
qed

theorem submit_at_most_once_witness:
  "\<exists>st1 outcome. journal_apply ref_decimal sample_engine (Submit (sample_order 50 1 ''buy'' 100 2)) = Inr (st1, outcome) \<and>
     journal_apply ref_decimal st1 (Submit (sample_order 50 1 ''buy'' 100 2)) = Inr (st1, Applied None)"
proof -
  have fresh: "hm_get (submissions sample_engine) (o_id (sample_order 50 1 ''buy'' 100 2)) = None" by code_simp
  have "is_ok (journal_apply ref_decimal sample_engine (Submit (sample_order 50 1 ''buy'' 100 2)))" by code_simp
  then obtain st1 outcome where
    run: "journal_apply ref_decimal sample_engine (Submit (sample_order 50 1 ''buy'' 100 2)) = Inr (st1, outcome)"
    by (auto simp: is_ok_iff)
  have "order_entry_eq ref_decimal (sample_order 50 1 ''buy'' 100 2) (sample_order 50 1 ''buy'' 100 2)"
    by (rule refd.order_entry_eq_refl)
  with submit_at_most_once [OF refd.decimal_library_axioms sample_engine_ok fresh run, of "[]"] run
  show ?thesis by simp
qed

text \<open>
  C15. A cancellation is exact and final. It removes exactly the named order of the named user and
  market, returns exactly what the order still had reserved, and after it, whatever commands
  follow, the identifier never rests in a book again, the same cancellation is answered from its
  receipt and one of another user or market is refused, both without any change.
\<close>

theorem cancel_exact_and_final:
  assumes "decimal_library L" "engine_ok L st"
    and "journal_apply L st (Cancel i u pair) = Inr (st1, Applied (Some (BatchCancelled e)))"
    and "run_commands L commands st1 = Inr (st2, outcomes)"
  shows "mset (all_entries (orderbooks st)) = add_mset e (mset (all_entries (orderbooks st1))) \<and>
    o_id e = i \<and> o_user_id e = u \<and> 0 < entry_reserve L e \<and>
    cache_posted L (cache_of st) [(entry_account e, entry_reserve L e, - entry_reserve L e)] (cache_of st1) \<and>
    \<not> resting st2 i \<and>
    (\<forall>u' pair'. journal_apply L st2 (Cancel i u' pair') =
       Inr (st2, if u' = u \<and> tp_base_mint pair' = tp_base_mint pair \<and> tp_quote_mint pair' = tp_quote_mint pair
                 then DuplicateCancellation e else Failed ''Unauthorized cancellation''))"
proof -
  note c = engine_okD(1,2) [OF assms(2)]
  from assms(3) obtain books ex where run: "cancel_order L i u pair (orderbooks st) (executor st) = Inr (e, books, ex)"
    and st1: "st1 = st\<lparr>orderbooks := books, executor := ex, cancellations := hm_insert i e (cancellations st)\<rparr>"
    by (auto simp: journal_apply_def recorded_cancellation_def execute_cancel_def
        split: sum.splits failure.splits prod.splits option.splits if_splits)
  note r = decimal_library.cancel_order_Inr [OF assms(1) c run]
  note left = decimal_library.cancel_entries [OF assms(1) c run]
  then have gone: "\<not> resting st1 i" using engine_okD(4) [OF assms(2)] by (simp add: resting_def st1)
  from left(2) have "hm_get (submissions st1) i \<noteq> None" using assms(2) r(3) by (auto simp: st1 engine_ok_def list_all_iff)
  moreover have k: "kept st1 st2" "engine_ok L st1"
    using decimal_library.journal_apply_kept(2) [OF assms(1,2,3)] decimal_library.run_commands_kept(1) [OF assms(1) _ assms(4)]
    by blast+
  ultimately have "\<not> resting st2 i" using gone unfolding kept_def by auto
  moreover have "hm_get (cancellations st2) i = Some e" using k(1) unfolding kept_def by (simp add: st1)
  ultimately show ?thesis
    using r by (auto simp: st1 journal_apply_def recorded_cancellation_def)
qed

theorem cancel_exact_and_final_witness:
  "\<exists>st1 e. journal_apply ref_decimal sample_engine (Cancel 12 2 (TradingPair_new ''SOL'' ''USDT'')) =
      Inr (st1, Applied (Some (BatchCancelled e))) \<and> \<not> resting st1 12 \<and>
     journal_apply ref_decimal st1 (Cancel 12 2 (TradingPair_new ''SOL'' ''USDT'')) = Inr (st1, DuplicateCancellation e)"
proof -
  have "case journal_apply ref_decimal sample_engine (Cancel 12 2 (TradingPair_new ''SOL'' ''USDT'')) of
      Inr (st1, Applied (Some (BatchCancelled e))) \<Rightarrow> True | _ \<Rightarrow> False"
    by code_simp
  then obtain st1 e where run: "journal_apply ref_decimal sample_engine (Cancel 12 2 (TradingPair_new ''SOL'' ''USDT'')) =
      Inr (st1, Applied (Some (BatchCancelled e)))"
    by (auto split: sum.splits prod.splits Outcome.splits option.splits OutputBatch.splits)
  from cancel_exact_and_final [OF refd.decimal_library_axioms sample_engine_ok run, of "[]" st1] run
  show ?thesis by auto
qed

end
