(* ===== verification/Worker.thy ===== *)
theory Worker
  imports Journal
begin

text \<open>
  The matching worker (\<open>runtime/threads.rs\<close>): the commands of the two input queues
  (\<open>runtime/commands.rs\<close>, \<open>runtime/balance_commands.rs\<close>), the items it moves to the journal
  worker and the answers they carry (\<open>Reply\<close>, \<open>Pending\<close> of \<open>runtime/journal.rs\<close>), and its loop.
  A one-shot response channel is a number; sending on it is a pair of the channel and the answer.

  One iteration of the loop is one function. The flags at the loop head are those of the state; the
  second pair of flags, read after a command was received, is an argument, because other threads
  may have changed them in between. A panic leaves through the drop guard, which closes the core.
\<close>

section \<open>Definitions\<close>

type_synonym chan = nat

datatype 'd OrderCommand =
    SubmitOrder "'d OrderEntry" chan
  | CancelOrder u64 u64 TradingPair chan
  | GetOrderbook TradingPair "nat option" chan
  | GetBalance u64 string chan
  | LockBalance u64 string 'd chan
  | UnlockBalance u64 string 'd chan

datatype 'd BalanceCommand =
    BalanceWithdrawal "'d WithdrawalCommand" chan
  | BalanceCredit "'d DepositCredit" chan
  | UpdateBalance u64 string 'd chan

type_synonym 'd depth_view = "'d OrderEntry list \<times> 'd OrderEntry list"

datatype 'd Reply =
    ReplySubmit chan
  | ReplyCancel chan
  | ReplyUnit chan
  | ReplyWithdrawal chan
  | ReplyBook chan "'d depth_view"
  | ReplyBalance chan "'d \<times> 'd"

record 'd Pending =
  pd_command :: "'d Command option"
  pd_outcome :: "'d Outcome"
  pd_reply :: "'d Reply"

datatype 'd Response =
    ResponseUnit "unit res"
  | ResponseOrder "'d OrderEntry res"
  | ResponseBook "'d depth_view res"
  | ResponseBalance "('d \<times> 'd) res"

definition unit_result :: "'d Outcome \<Rightarrow> unit res" where
  "unit_result outcome = (case outcome of Failed reason \<Rightarrow> Inl (Error reason) | _ \<Rightarrow> Inr ())"

definition cancel_result :: "'d Outcome \<Rightarrow> 'd OrderEntry res" where
  "cancel_result outcome =
     (case outcome of
        Applied (Some (BatchCancelled order)) \<Rightarrow> Inr order
      | DuplicateCancellation order \<Rightarrow> Inr order
      | Failed reason \<Rightarrow> Inl (Error reason)
      | _ \<Rightarrow> Inl (Error ''Invalid cancellation outcome''))"

definition withdrawal_result :: "'d Outcome \<Rightarrow> unit res" where
  "withdrawal_result outcome =
     (case outcome of
        Failed reason \<Rightarrow> Inl (Error reason)
      | Applied (Some (WithdrawalRejected funds reason)) \<Rightarrow> Inl (Error reason)
      | _ \<Rightarrow> Inr ())"

definition finish :: "'d Pending \<Rightarrow> chan \<times> 'd Response" where
  "finish p =
     (case pd_reply p of
        ReplySubmit sender \<Rightarrow> (sender, ResponseUnit (unit_result (pd_outcome p)))
      | ReplyCancel sender \<Rightarrow> (sender, ResponseOrder (cancel_result (pd_outcome p)))
      | ReplyWithdrawal sender \<Rightarrow> (sender, ResponseUnit (withdrawal_result (pd_outcome p)))
      | ReplyUnit sender \<Rightarrow> (sender, ResponseUnit (unit_result (pd_outcome p)))
      | ReplyBook sender value \<Rightarrow> (sender, ResponseBook (Inr value))
      | ReplyBalance sender value \<Rightarrow> (sender, ResponseBalance (Inr value)))"

fun route_balance :: "'d BalanceCommand \<Rightarrow> 'd Command \<times> 'd Reply" where
  "route_balance (BalanceWithdrawal command response) = (Withdrawal command, ReplyWithdrawal response)"
| "route_balance (UpdateBalance user_id mint available_delta response) =
     (BalanceDelta user_id mint available_delta, ReplyUnit response)"
| "route_balance (BalanceCredit credit response) = (CreditDeposit credit, ReplyUnit response)"

definition balance_view :: "'d decimal_lib \<Rightarrow> 'd EngineState \<Rightarrow> u64 \<Rightarrow> string \<Rightarrow> 'd \<times> 'd" where
  "balance_view L st user_id mint =
     (case get_balance user_id mint (cache_of st) of
        Some b \<Rightarrow> (available b, locked b)
      | None \<Rightarrow> (dec_zero L, dec_zero L))"

definition take_depth :: "nat option \<Rightarrow> 'a list \<Rightarrow> 'a list" where
  "take_depth depth xs = (case depth of None \<Rightarrow> xs | Some n \<Rightarrow> take n xs)"

definition book_view :: "'d EngineState \<Rightarrow> TradingPair \<Rightarrow> nat option \<Rightarrow> 'd depth_view" where
  "book_view st pair depth =
     (case hm_get (orderbooks st) pair of
        Some book \<Rightarrow>
          (take_depth depth (concat (map snd (rev (orders (buy_orders book))))),
           take_depth depth (concat (map snd (orders (sell_orders book)))))
      | None \<Rightarrow> ([], []))"

fun route_order :: "'d decimal_lib \<Rightarrow> 'd EngineState \<Rightarrow> 'd OrderCommand \<Rightarrow> 'd Command option \<times> 'd Reply" where
  "route_order L st (SubmitOrder order response) = (Some (Submit order), ReplySubmit response)"
| "route_order L st (CancelOrder order_id user_id pair response) =
     (Some (Cancel order_id user_id pair), ReplyCancel response)"
| "route_order L st (LockBalance user_id mint amount response) = (Some (Lock user_id mint amount), ReplyUnit response)"
| "route_order L st (UnlockBalance user_id mint amount response) = (Some (Unlock user_id mint amount), ReplyUnit response)"
| "route_order L st (GetBalance user_id mint response) = (None, ReplyBalance response (balance_view L st user_id mint))"
| "route_order L st (GetOrderbook pair depth response) = (None, ReplyBook response (book_view st pair depth))"

text \<open>The sending end of the bounded journal queue; it is open while the journal worker lives.\<close>

record 'd JournalQueue =
  q_items :: "'d Pending list"
  q_capacity :: nat
  q_open :: bool

record 'd Worker =
  w_state :: "'d EngineState"
  w_balances :: "'d BalanceCommand list"
  w_orders :: "'d OrderCommand list"
  w_connected :: bool
  w_output :: "'d JournalQueue option"
  w_replies :: "(chan \<times> 'd Response) list"
  w_running :: bool
  w_closed :: bool

definition publish :: "'d Pending \<Rightarrow> 'd Worker \<Rightarrow> 'd Worker res" where
  "publish pending w =
     (case w_output w of
        Some q \<Rightarrow>
          (if q_open q \<and> length (q_items q) < q_capacity q
           then Inr (w\<lparr>w_output := Some (q\<lparr>q_items := q_items q @ [pending]\<rparr>)\<rparr>)
           else Inl (Panic ''reserved journal capacity remains available''))
      | None \<Rightarrow> Inr (w\<lparr>w_replies := w_replies w @ [finish pending]\<rparr>))"

definition output_full :: "'d Worker \<Rightarrow> bool" where
  "output_full w = (case w_output w of Some q \<Rightarrow> length (q_items q) \<ge> q_capacity q | None \<Rightarrow> False)"

definition apply_optional ::
    "'d decimal_lib \<Rightarrow> 'd EngineState \<Rightarrow> 'd Command option \<Rightarrow> ('d EngineState \<times> 'd Outcome) res" where
  "apply_optional L st command =
     (case command of Some c \<Rightarrow> journal_apply L st c | None \<Rightarrow> Inr (st, Applied None))"

definition serve ::
    "'d decimal_lib \<Rightarrow> 'd Command option \<times> 'd Reply \<Rightarrow> 'd Worker \<Rightarrow> ('d Worker \<times> bool) res" where
  "serve L routed w =
     (case routed of (command, reply) \<Rightarrow>
        res_bind (apply_optional L (w_state w) command) (\<lambda>(st, outcome).
        res_bind (publish \<lparr>pd_command = command, pd_outcome = outcome, pd_reply = reply\<rparr> (w\<lparr>w_state := st\<rparr>)) (\<lambda>w'.
          Inr (w', True))))"

text \<open>The flag of the result says whether the loop goes on.\<close>

definition loop_iteration ::
    "'d decimal_lib \<Rightarrow> bool \<Rightarrow> bool \<Rightarrow> 'd Worker \<Rightarrow> ('d Worker \<times> bool) res" where
  "loop_iteration L is_running is_closed w =
     (if \<not> (w_running w \<and> \<not> w_closed w) then Inr (w\<lparr>w_closed := True\<rparr>, False)
      else if output_full w then Inr (w, True)
      else case w_balances w of
        input # rest \<Rightarrow>
          (case route_balance input of (command, reply) \<Rightarrow> serve L (Some command, reply) (w\<lparr>w_balances := rest\<rparr>))
      | [] \<Rightarrow>
          (case w_orders w of
             [] \<Rightarrow> (if w_connected w then Inr (w, True) else Inr (w\<lparr>w_closed := True\<rparr>, False))
           | command # rest \<Rightarrow>
               (if is_closed \<or> \<not> is_running then Inr (w\<lparr>w_orders := rest, w_closed := True\<rparr>, False)
                else serve L (route_order L (w_state w) command) (w\<lparr>w_orders := rest\<rparr>))))"

section \<open>Serving requests one at a time\<close>

text \<open>
  The sequential specification: a list of journal items is what a single server answers, in that
  order, when it starts in one state and ends in the other. A query is answered from the state at
  its place in the order.
\<close>

inductive served :: "'d decimal_lib \<Rightarrow> 'd EngineState \<Rightarrow> 'd Pending list \<Rightarrow> 'd EngineState \<Rightarrow> bool" for L where
  nothing: "served L st [] st"
| command: "served L st ps st1 \<Longrightarrow> journal_apply L st1 c = Inr (st2, outcome) \<Longrightarrow>
    served L st (ps @ [\<lparr>pd_command = Some c, pd_outcome = outcome, pd_reply = reply\<rparr>]) st2"
| balance: "served L st ps st1 \<Longrightarrow>
    served L st (ps @ [\<lparr>pd_command = None, pd_outcome = Applied None,
      pd_reply = ReplyBalance sender (balance_view L st1 user_id mint)\<rparr>]) st1"
| book: "served L st ps st1 \<Longrightarrow>
    served L st (ps @ [\<lparr>pd_command = None, pd_outcome = Applied None,
      pd_reply = ReplyBook sender (book_view st1 pair depth)\<rparr>]) st1"

definition journalled :: "'d Pending list \<Rightarrow> ('d Command \<times> 'd Outcome) list" where
  "journalled ps = concat (map (\<lambda>p. case pd_command p of None \<Rightarrow> [] | Some c \<Rightarrow> [(c, pd_outcome p)]) ps)"

lemma journalled_simps [simp]:
  "journalled [] = []" "journalled (ps @ qs) = journalled ps @ journalled qs"
  "journalled [p] = (case pd_command p of None \<Rightarrow> [] | Some c \<Rightarrow> [(c, pd_outcome p)])"
  by (simp_all add: journalled_def)

lemma run_commands_snoc:
  "run_commands L commands st = Inr (st1, outs) \<Longrightarrow> journal_apply L st1 c = Inr (st2, out) \<Longrightarrow>
   run_commands L (commands @ [c]) st = Inr (st2, outs @ [out])"
  by (induction commands arbitrary: st outs) (auto simp: res_bind_Inr_iff)

text \<open>What was served is a history of the engine.\<close>

lemma served_history:
  "served L st ps st' \<Longrightarrow> run_commands L (map fst (journalled ps)) st = Inr (st', map snd (journalled ps))"
  by (induction rule: served.induct) (auto intro: run_commands_snoc)

lemma served_step:
  assumes "served L st ps st1" "apply_optional L st1 c = Inr (st2, outcome)"
    and "(c, reply) = route_order L st1 command \<or> (\<exists>b. map_prod Some id (route_balance b) = (c, reply))"
  shows "served L st (ps @ [\<lparr>pd_command = c, pd_outcome = outcome, pd_reply = reply\<rparr>]) st2"
  using assms(3)
proof
  assume "(c, reply) = route_order L st1 command"
  with assms(1,2) show ?thesis
    by (cases command) (auto simp: apply_optional_def intro: served.intros)
next
  assume "\<exists>b. map_prod Some id (route_balance b) = (c, reply)"
  then obtain b where "map_prod Some id (route_balance b) = (c, reply)" ..
  with assms(1,2) show ?thesis
    by (cases b) (auto simp: apply_optional_def intro: served.intros)
qed

text \<open>
  One iteration of the core against a queue that is open: it cannot panic, publishes at most one item,
  never more than the queue holds, and what it publishes is served from its state.
\<close>

context decimal_library
begin

lemma apply_optional_total:
  assumes "engine_ok L st"
  shows "\<exists>st' outcome. apply_optional L st c = Inr (st', outcome) \<and> engine_ok L st'"
proof (cases c)
  case (Some command)
  obtain st' outcome where run: "journal_apply L st command = Inr (st', outcome)"
    using journal_apply_total [OF assms, of command] by blast
  with journal_apply_kept(2) [OF assms run] Some show ?thesis by (simp add: apply_optional_def)
qed (simp add: apply_optional_def assms)

lemma serve_total:
  assumes ok: "engine_ok L (w_state w)" and q: "w_output w = Some q" "q_open q" "length (q_items q) < q_capacity q"
    and routed: "(c, reply) = route_order L (w_state w) command \<or> (\<exists>b. map_prod Some id (route_balance b) = (c, reply))"
  obtains st' item where "serve L (c, reply) w = Inr (w\<lparr>w_state := st', w_output := Some (q\<lparr>q_items := q_items q @ [item]\<rparr>)\<rparr>, True)"
    "served L (w_state w) [item] st'" "engine_ok L st'"
proof -
  obtain st' outcome where run: "apply_optional L (w_state w) c = Inr (st', outcome)" "engine_ok L st'"
    using apply_optional_total [OF ok] by blast
  let ?item = "\<lparr>pd_command = c, pd_outcome = outcome, pd_reply = reply\<rparr>"
  have "served L (w_state w) ([] @ [?item]) st'"
    by (rule served_step [OF served.nothing run(1) routed])
  with run q show thesis by (intro that [of ?item st']) (simp_all add: serve_def publish_def)
qed

lemma loop_iteration_total:
  assumes ok: "engine_ok L (w_state w)" and q: "w_output w = Some q" "q_open q"
  obtains w' go new where "loop_iteration L is_running is_closed w = Inr (w', go)" "engine_ok L (w_state w')"
    "w_output w' = Some (q\<lparr>q_items := q_items q @ new\<rparr>)" "served L (w_state w) new (w_state w')"
    "length new \<le> 1" "new \<noteq> [] \<Longrightarrow> length (q_items q) < q_capacity q" "\<not> go \<Longrightarrow> w_closed w'" "w_closed w \<Longrightarrow> w_closed w'"
proof -
  note idle = served.nothing [of L "w_state w"]
  consider (stop) "\<not> (w_running w \<and> \<not> w_closed w)" | (full) "w_running w" "\<not> w_closed w" "output_full w"
    | (balance) b bs where "w_running w" "\<not> w_closed w" "\<not> output_full w" "w_balances w = b # bs"
    | (empty) "w_running w" "\<not> w_closed w" "\<not> output_full w" "w_balances w = []" "w_orders w = []"
    | (late) c cs where "w_running w" "\<not> w_closed w" "\<not> output_full w" "w_balances w = []" "w_orders w = c # cs"
        "is_closed \<or> \<not> is_running"
    | (order) c cs where "w_running w" "\<not> w_closed w" "\<not> output_full w" "w_balances w = []" "w_orders w = c # cs"
        "\<not> (is_closed \<or> \<not> is_running)"
    by (cases "w_balances w"; cases "w_orders w"; blast)
  then show thesis
  proof cases
    case (balance b bs)
    let ?w = "w\<lparr>w_balances := bs\<rparr>"
    obtain c reply where r: "route_balance b = (c, reply)" by (cases "route_balance b")
    have room: "length (q_items q) < q_capacity q" using balance(3) q(1) by (simp add: output_full_def)
    have routed: "\<exists>b. map_prod Some id (route_balance b) = (Some c, reply)" using r by (intro exI [of _ b]) simp
    have w: "engine_ok L (w_state ?w)" "w_output ?w = Some q" using ok q by simp_all
    obtain item st' where s: "serve L (Some c, reply) ?w =
        Inr (?w\<lparr>w_state := st', w_output := Some (q\<lparr>q_items := q_items q @ [item]\<rparr>)\<rparr>, True)"
      "served L (w_state ?w) [item] st'" "engine_ok L st'"
      by (rule serve_total [OF w q(2) room disjI2 [OF routed]])
    have "loop_iteration L is_running is_closed w =
        Inr (?w\<lparr>w_state := st', w_output := Some (q\<lparr>q_items := q_items q @ [item]\<rparr>)\<rparr>, True)"
      using balance r s(1) by (simp add: loop_iteration_def)
    from that [OF this, of "[item]"] s(2,3) room balance(2) show thesis by simp
  next
    case (order c cs)
    let ?w = "w\<lparr>w_orders := cs\<rparr>"
    obtain cmd reply where r: "route_order L (w_state w) c = (cmd, reply)" by (cases "route_order L (w_state w) c")
    have room: "length (q_items q) < q_capacity q" using order(3) q(1) by (simp add: output_full_def)
    have routed: "(cmd, reply) = route_order L (w_state ?w) c" using r by simp
    have w: "engine_ok L (w_state ?w)" "w_output ?w = Some q" using ok q by simp_all
    obtain item st' where s: "serve L (cmd, reply) ?w =
        Inr (?w\<lparr>w_state := st', w_output := Some (q\<lparr>q_items := q_items q @ [item]\<rparr>)\<rparr>, True)"
      "served L (w_state ?w) [item] st'" "engine_ok L st'"
      by (rule serve_total [OF w q(2) room disjI1 [OF routed]])
    have "loop_iteration L is_running is_closed w =
        Inr (?w\<lparr>w_state := st', w_output := Some (q\<lparr>q_items := q_items q @ [item]\<rparr>)\<rparr>, True)"
      using order r s(1) by (simp add: loop_iteration_def)
    from that [OF this, of "[item]"] s(2,3) room order(2) show thesis by simp
  next
    case empty
    with ok q idle show thesis
      by (cases "w_connected w") (auto intro!: that [of _ _ "[]"] simp: loop_iteration_def)
  qed (use ok q idle in \<open>auto intro!: that [of _ _ "[]"] simp: loop_iteration_def\<close>)
qed

end

end
