(* ===== verification/Journal_Store.thy ===== *)
theory Journal_Store
  imports Worker
begin

text \<open>
  The engine's own journal (\<open>runtime/journal/store.rs\<close>): the genesis row, one row per executed
  command, and the delivery cursor, with opening, initialisation, replay, appending and the cursor.

  The tables are lists of rows. SQLite gives the statements their documented meaning: a primary
  key is unique, a failed statement or transaction changes nothing, \<open>ORDER BY\<close> sorts. JSON and
  SHA-256 are the parameter \<open>codec\<close>; what the journal relies on (a serialised record or genesis
  parses back to itself) is the locale \<open>journal_codec\<close>. Sequence numbers are integers with the
  bounds of \<open>u64\<close> and \<open>i64\<close> written out; \<open>Utc::now()\<close> is a function of the sequence number.
\<close>

section \<open>Data\<close>

record 'd Genesis =
  g_version :: int
  g_engine_id :: string
  g_balances :: "(u64 \<times> string \<times> 'd \<times> 'd) list"

record 'd Record =
  rec_sequence :: int
  rec_timestamp :: datetime
  rec_command :: "'d Command"
  rec_outcome :: "'d Outcome"

record 'd codec =
  genesis_to_string :: "'d Genesis \<Rightarrow> string option"
  genesis_from_str :: "string \<Rightarrow> 'd Genesis option"
  record_to_string :: "'d Record \<Rightarrow> string option"
  record_from_str :: "string \<Rightarrow> 'd Record option"
  outcome_to_value :: "'d Outcome \<Rightarrow> string option"
  sha256 :: "string \<Rightarrow> string"
  uuid_parses :: "string \<Rightarrow> bool"

type_synonym row = "int \<times> string \<times> string"

record Store =
  user_version :: int
  tables :: "string list"
  genesis_rows :: "row list"
  record_rows :: "row list"
  delivery_rows :: "(int \<times> int) list"

text \<open>What SQLite answers to the pragmas of \<open>configure\<close> and \<open>open\<close>.\<close>

record pragmas =
  journal_mode :: string
  synchronous :: int
  integrity_check :: string

section \<open>Integers and rows\<close>

definition u64_max :: int where
  "u64_max = 2 ^ 64 - 1"

definition i64_top :: int where
  "i64_top = 2 ^ 63 - 1"

definition u64_try_from :: "int \<Rightarrow> int res" where
  "u64_try_from n = ensure (0 \<le> n \<and> n \<le> u64_max) ''out of range integral type conversion attempted'' (Inr n)"

definition i64_try_from :: "int \<Rightarrow> int res" where
  "i64_try_from n = ensure (n \<le> i64_top) ''out of range integral type conversion attempted'' (Inr n)"

definition checked_add_u64 :: "int \<Rightarrow> int \<Rightarrow> int option" where
  "checked_add_u64 a b = (if a + b \<le> u64_max then Some (a + b) else None)"

definition query_row :: "int \<Rightarrow> (int \<times> 'a) list \<Rightarrow> 'a res" where
  "query_row key rows = ok_or ''Query returned no rows'' (map_of rows key)"

definition insert_row :: "(int \<Rightarrow> bool) \<Rightarrow> int \<Rightarrow> 'a \<Rightarrow> (int \<times> 'a) list \<Rightarrow> (int \<times> 'a) list res" where
  "insert_row check key v rows =
     ensure (check key) ''CHECK constraint failed''
     (ensure (map_of rows key = None) ''UNIQUE constraint failed'' (Inr (rows @ [(key, v)])))"

section \<open>Operations\<close>

definition digest :: "'d codec \<Rightarrow> string \<Rightarrow> string" where
  "digest C payload = sha256 C payload"

definition decode :: "'d codec \<Rightarrow> (string \<Rightarrow> 'a option) \<Rightarrow> string \<times> string \<Rightarrow> 'a res" where
  "decode C parse stored =
     (case stored of (payload, checksum) \<Rightarrow>
        ensure (digest C payload = checksum) ''Journal checksum mismatch''
          (ok_or ''Invalid journal record'' (parse payload)))"

definition configure :: "pragmas \<Rightarrow> 'a res \<Rightarrow> 'a res" where
  "configure env k =
     ensure (journal_mode env = ''wal'') ''Journal requires SQLite WAL mode''
     (ensure (synchronous env = 2) ''Journal requires synchronous FULL'' k)"

definition store_open :: "pragmas \<Rightarrow> Store \<Rightarrow> Store res" where
  "store_open env s =
     ensure (user_version s = 0 \<or> user_version s = 4) ''Unsupported journal schema version''
     (ensure (user_version s \<noteq> 0 \<or> tables s = []) ''Unknown existing journal schema''
     (configure env
        (let s' = s\<lparr>user_version := 4,
             tables := tables s @ filter (\<lambda>t. t \<notin> set (tables s)) [''genesis'', ''records'', ''delivery''],
             delivery_rows := (if map_of (delivery_rows s) 1 = None then delivery_rows s @ [(1, 0)] else delivery_rows s)\<rparr> in
         ensure (integrity_check env = ''ok'') (''Journal integrity check failed: '' @ integrity_check env) (Inr s'))))"

definition last_sequence :: "Store \<Rightarrow> int res" where
  "last_sequence s = u64_try_from (if record_rows s = [] then 0 else Max (set (map fst (record_rows s))))"

definition delivered :: "Store \<Rightarrow> int res" where
  "delivered s = res_bind (query_row 1 (delivery_rows s)) u64_try_from"

definition initialized :: "Store \<Rightarrow> bool res" where
  "initialized s =
     ensure (length (genesis_rows s) \<le> 1) ''Invalid genesis count''
     (if genesis_rows s = [] then
        res_bind (last_sequence s) (\<lambda>last. res_bind (if last = 0 then delivered s else Inr 1) (\<lambda>cursor.
          ensure (last = 0 \<and> cursor = 0) ''Journal has records without genesis'' (Inr False)))
      else Inr True)"

definition initialize ::
    "'d codec \<Rightarrow> string \<Rightarrow> 'd EngineState \<Rightarrow> Store \<Rightarrow> Store res" where
  "initialize C new_id st s =
     res_bind (initialized s) (\<lambda>yes. ensure (\<not> yes) ''Journal already initialized''
     (ensure (deposit_receipts st = [] \<and> withdrawal_receipts st = [] \<and> submissions st = [] \<and>
              cancellations st = [] \<and> orderbooks st = [])
       ''Genesis cannot replace executed financial history''
     (let genesis = \<lparr>g_version = 4, g_engine_id = new_id, g_balances = journal_seed (cache_of st)\<rparr> in
      res_bind (ok_or ''serialize'' (genesis_to_string C genesis)) (\<lambda>payload.
      res_bind (insert_row (\<lambda>i. i = 1) 1 (payload, digest C payload) (genesis_rows s)) (\<lambda>rows.
        Inr (s\<lparr>genesis_rows := rows\<rparr>))))))"

definition genesis_account ::
    "'d decimal_lib \<Rightarrow> u64 \<times> string \<times> 'd \<times> 'd \<Rightarrow> 'd EngineState \<Rightarrow> 'd EngineState res" where
  "genesis_account L account st =
     (case account of (user, mint, a, l) \<Rightarrow>
        ensure (user > 0 \<and> mint \<noteq> [] \<and> trim mint = mint \<and> dec_eq L l (dec_zero L)) ''Invalid genesis account''
        (res_bind (units L a) (\<lambda>_.
         ensure (get_balance user mint (cache_of st) = None) ''Duplicate genesis account''
           (Inr (with_cache (set_balance user mint a l (cache_of st)) st)))))"

definition replay_row ::
    "'d decimal_lib \<Rightarrow> 'd codec \<Rightarrow> row \<Rightarrow> 'd EngineState \<times> int \<Rightarrow> ('d EngineState \<times> int) res" where
  "replay_row L C stored acc =
     (case (stored, acc) of ((key, text), (st, nxt)) \<Rightarrow>
        res_bind (u64_try_from key) (\<lambda>sequence.
        ensure (sequence = nxt) ''Journal sequence gap''
        (res_bind (decode C (record_from_str C) text) (\<lambda>record.
         ensure (rec_sequence record = sequence) ''Journal sequence mismatch''
         (res_bind (journal_apply L st (rec_command record)) (\<lambda>(st', replayed).
          res_bind (ok_or ''serialize'' (outcome_to_value C replayed)) (\<lambda>new.
          res_bind (ok_or ''serialize'' (outcome_to_value C (rec_outcome record))) (\<lambda>old.
          ensure (new = old) (''Journal replay differs at sequence '' @ nat_str sequence)
            (Inr (st', nxt + 1))))))))))"

definition recover :: "'d decimal_lib \<Rightarrow> 'd codec \<Rightarrow> Store \<Rightarrow> ('d EngineState \<times> string) res" where
  "recover L C s =
     res_bind (query_row 1 (genesis_rows s)) (\<lambda>stored.
     res_bind (decode C (genesis_from_str C) stored) (\<lambda>genesis.
     ensure (g_version genesis = 4 \<and> uuid_parses C (g_engine_id genesis)) ''Unsupported journal genesis''
     (res_bind (res_fold (genesis_account L) (g_balances genesis) EngineState_new) (\<lambda>st0.
      res_bind (res_fold (replay_row L C) (sort_key fst (record_rows s)) (st0, 1)) (\<lambda>(st, nxt).
      res_bind (delivered s) (\<lambda>cursor.
      ensure (cursor < nxt) ''Delivery cursor is ahead of journal''
        (Inr (st, g_engine_id genesis))))))))"

definition store_read :: "'d codec \<Rightarrow> int \<Rightarrow> Store \<Rightarrow> 'd Record res" where
  "store_read C sequence s =
     res_bind (i64_try_from sequence) (\<lambda>key.
     res_bind (query_row key (record_rows s)) (\<lambda>stored.
     res_bind (decode C (record_from_str C) stored) (\<lambda>record.
     ensure (rec_sequence record = sequence) ''Journal sequence mismatch'' (Inr record))))"

definition mark_delivered :: "int \<Rightarrow> Store \<Rightarrow> Store res" where
  "mark_delivered sequence s =
     (if sequence = 0 then Inl (Panic ''attempt to subtract with overflow'') else
      res_bind (i64_try_from sequence) (\<lambda>new. res_bind (i64_try_from (sequence - 1)) (\<lambda>old.
      ensure (length (filter (\<lambda>(i, c). i = 1 \<and> c = old) (delivery_rows s)) = 1) ''Non-contiguous delivery cursor''
        (Inr (s\<lparr>delivery_rows := map (\<lambda>(i, c). if i = 1 \<and> c = old then (i, new) else (i, c)) (delivery_rows s)\<rparr>)))))"

definition append_item ::
    "'d codec \<Rightarrow> (int \<Rightarrow> datetime) \<Rightarrow> 'd Pending \<Rightarrow> int \<times> row list \<Rightarrow> (int \<times> row list) res" where
  "append_item C now item acc =
     (case acc of (nxt, rows) \<Rightarrow>
        case pd_command item of
          None \<Rightarrow> Inr (nxt, rows)
        | Some command \<Rightarrow>
            res_bind (ok_or ''Journal sequence exhausted'' (checked_add_u64 nxt 1)) (\<lambda>n.
            let record = \<lparr>rec_sequence = n, rec_timestamp = now n, rec_command = command, rec_outcome = pd_outcome item\<rparr> in
            res_bind (ok_or ''serialize'' (record_to_string C record)) (\<lambda>payload.
            res_bind (i64_try_from n) (\<lambda>key.
            res_bind (insert_row (\<lambda>i. i > 0) key (payload, digest C payload) rows) (\<lambda>rows'.
              Inr (n, rows'))))))"

text \<open>The transaction of \<open>append\<close>; \<open>committed\<close> is whether SQLite's commit returned success.\<close>

definition append ::
    "'d codec \<Rightarrow> (int \<Rightarrow> datetime) \<Rightarrow> bool \<Rightarrow> 'd Pending list \<Rightarrow> int \<Rightarrow> Store \<Rightarrow> (Store \<times> int) res" where
  "append C now committed pending sequence s =
     res_bind (res_fold (append_item C now) pending (sequence, record_rows s)) (\<lambda>(nxt, rows).
       ensure committed ''commit failed'' (Inr (s\<lparr>record_rows := rows\<rparr>, nxt)))"

section \<open>Rows in key order\<close>

lemma insort_key_snoc: "f a \<le> f x \<Longrightarrow> insort_key f a (ys @ [x]) = insort_key f a ys @ [x]"
  by (induction ys) auto

lemma sort_key_snoc: "\<forall>y \<in> set xs. f y \<le> f x \<Longrightarrow> sort_key f (xs @ [x]) = sort_key f xs @ [x]"
  by (induction xs) (simp_all add: insort_key_snoc)

definition numbered :: "int \<Rightarrow> (int \<times> 'a) list \<Rightarrow> bool" where
  "numbered n rows \<longleftrightarrow> map fst rows = map (\<lambda>i. n + int i) [0..<length rows]"

lemma numbered_simps [simp]:
  "numbered n []"
  "numbered n (rows @ [x]) \<longleftrightarrow> numbered n rows \<and> fst x = n + int (length rows)"
  "numbered n (x # rows) \<longleftrightarrow> fst x = n \<and> numbered (n + 1) rows"
proof -
  show "numbered n (x # rows) \<longleftrightarrow> fst x = n \<and> numbered (n + 1) rows"
  proof -
    have "map (\<lambda>i. n + int i) [0..<Suc (length rows)] = n # map (\<lambda>i. n + 1 + int i) [0..<length rows]"
      by (simp add: upt_conv_Cons map_Suc_upt [symmetric] del: upt_Suc)
    then show ?thesis by (simp only: numbered_def list.map length_Cons list.inject)
  qed
qed (simp_all add: numbered_def)

lemma numbered_keys: "numbered n rows \<Longrightarrow> fst ` set rows = {n ..< n + int (length rows)}"
proof (induction rows rule: rev_induct)
  case (snoc x rows)
  then show ?case by auto
qed simp

lemma sort_key_extend:
  "(\<forall>x \<in> set xs. fst x < n) \<Longrightarrow> numbered n new \<Longrightarrow> sort_key fst (xs @ new) = sort_key fst xs @ new"
proof (induction new rule: rev_induct)
  case (snoc x new)
  from snoc.prems(2) have x: "fst x = n + int (length new)" "numbered n new" by simp_all
  have "fst y \<le> fst x" if "y \<in> set (xs @ new)" for y
  proof (cases "y \<in> set new")
    case True
    then have "fst y \<in> {n ..< n + int (length new)}" unfolding numbered_keys [OF x(2), symmetric] by (rule imageI)
    then show ?thesis by (simp add: x(1))
  next
    case False
    with that snoc.prems(1) have "fst y < n" by simp
    then show ?thesis by (simp add: x(1))
  qed
  then have "sort_key fst ((xs @ new) @ [x]) = sort_key fst (xs @ new) @ [x]"
    by (intro sort_key_snoc) simp
  with snoc show ?case by simp
qed simp

section \<open>What a recovery checks\<close>

lemma replay_row_Inr:
  assumes "replay_row L C stored (st, n) = Inr (st', n')"
  obtains entry replayed where "fst stored = n" "n' = n + 1" "0 \<le> n" "n \<le> u64_max"
    "digest C (fst (snd stored)) = snd (snd stored)" "record_from_str C (fst (snd stored)) = Some entry"
    "rec_sequence entry = n" "journal_apply L st (rec_command entry) = Inr (st', replayed)"
    "outcome_to_value C replayed = outcome_to_value C (rec_outcome entry)"
  using assms
  by (cases stored) (auto simp: replay_row_def decode_def u64_try_from_def res_bind_Inr_iff ensure_Inr_iff ok_or_Inr_iff)

lemma replay_numbered:
  "res_fold (replay_row L C) rows (st, n) = Inr (st', n') \<Longrightarrow> numbered n rows \<and> n' = n + int (length rows)"
proof (induction rows arbitrary: st n)
  case (Cons x rows)
  from Cons.prems obtain st1 n1 where x: "replay_row L C x (st, n) = Inr (st1, n1)"
    and rest: "res_fold (replay_row L C) rows (st1, n1) = Inr (st', n')"
    by (auto simp: res_bind_Inr_iff)
  from x have "fst x = n" "n1 = n + 1" by (rule replay_row_Inr; simp)+
  with Cons.IH [OF rest] show ?case by simp
qed simp

text \<open>What a successful recovery says about the stored rows.\<close>

lemma recover_Inr:
  assumes "recover L C s = Inr (st, engine_id)"
  obtains genesis stored st0 n cursor where "map_of (genesis_rows s) 1 = Some stored"
    "decode C (genesis_from_str C) stored = Inr genesis" "g_version genesis = 4" "uuid_parses C (g_engine_id genesis)"
    "engine_id = g_engine_id genesis" "res_fold (genesis_account L) (g_balances genesis) EngineState_new = Inr st0"
    "res_fold (replay_row L C) (sort_key fst (record_rows s)) (st0, 1) = Inr (st, n + 1)"
    "delivered s = Inr cursor" "cursor \<le> n" "n = int (length (record_rows s))"
proof -
  from assms obtain stored genesis st0 nxt cursor where r: "map_of (genesis_rows s) 1 = Some stored"
    "decode C (genesis_from_str C) stored = Inr genesis" "g_version genesis = 4" "uuid_parses C (g_engine_id genesis)"
    "engine_id = g_engine_id genesis" "res_fold (genesis_account L) (g_balances genesis) EngineState_new = Inr st0"
    "res_fold (replay_row L C) (sort_key fst (record_rows s)) (st0, 1) = Inr (st, nxt)"
    "delivered s = Inr cursor" "cursor < nxt"
    by (auto simp: recover_def query_row_def res_bind_Inr_iff ensure_Inr_iff ok_or_Inr_iff)
  have "nxt = int (length (record_rows s)) + 1" using replay_numbered [OF r(7)] by simp
  with r show thesis by (intro that [of stored genesis st0 "nxt - 1" cursor]) simp_all
qed

lemma recover_keys:
  assumes "recover L C s = Inr (st, engine_id)"
  shows "numbered 1 (sort_key fst (record_rows s))" "\<forall>x \<in> set (record_rows s). fst x < int (length (record_rows s)) + 1"
proof -
  from assms obtain st0 n where "res_fold (replay_row L C) (sort_key fst (record_rows s)) (st0, 1) = Inr (st, n + 1)"
    by (rule recover_Inr)
  from replay_numbered [OF this] show num: "numbered 1 (sort_key fst (record_rows s))" by simp
  from numbered_keys [OF this] have "fst ` set (record_rows s) = {1..<int (length (record_rows s)) + 1}"
    by (simp add: add.commute)
  then show "\<forall>x \<in> set (record_rows s). fst x < int (length (record_rows s)) + 1"
    by (metis atLeastLessThan_iff imageI)
qed

lemma recover_last_sequence:
  assumes "recover L C s = Inr (st, engine_id)" "int (length (record_rows s)) \<le> u64_max"
  shows "last_sequence s = Inr (int (length (record_rows s)))"
proof (cases "record_rows s = []")
  case False
  have "fst ` set (record_rows s) = {1..<int (length (record_rows s)) + 1}"
    using numbered_keys [OF recover_keys(1) [OF assms(1)]] by (simp add: add.commute)
  moreover have "Max {1..<int (length (record_rows s)) + 1} = int (length (record_rows s))"
    using False by (intro Max_eqI) (auto simp: Suc_le_eq)
  ultimately show ?thesis using False assms(2) by (simp add: last_sequence_def u64_try_from_def)
qed (simp add: last_sequence_def u64_try_from_def u64_max_def)

lemma recover_sequence:
  assumes "recover L C s = Inr (st, engine_id)" "last_sequence s = Inr n"
  shows "n = int (length (record_rows s))"
proof -
  have "last_sequence s = Inr (int (length (record_rows s)))" if "int (length (record_rows s)) \<le> u64_max"
    using recover_last_sequence [OF assms(1) that] .
  moreover have "int (length (record_rows s)) \<le> u64_max"
  proof (cases "record_rows s = []")
    case False
    have keys: "fst ` set (record_rows s) = {1..<int (length (record_rows s)) + 1}"
      using numbered_keys [OF recover_keys(1) [OF assms(1)]] by (simp add: add.commute)
    moreover have "int (length (record_rows s)) \<in> {1..<int (length (record_rows s)) + 1}"
      using False by (auto simp: Suc_le_eq)
    ultimately have "int (length (record_rows s)) \<le> Max (fst ` set (record_rows s))" by (intro Max_ge) auto
    also have "\<dots> \<le> u64_max"
      using assms(2) False by (auto simp: last_sequence_def u64_try_from_def ensure_Inr_iff simp del: Max_le_iff)
    finally show ?thesis .
  qed (simp add: u64_max_def)
  ultimately show ?thesis using assms(2) by simp
qed

definition stored_as :: "'d codec \<Rightarrow> row \<Rightarrow> 'd Record \<Rightarrow> bool" where
  "stored_as C stored entry \<longleftrightarrow>
     fst stored = rec_sequence entry \<and> digest C (fst (snd stored)) = snd (snd stored) \<and>
     record_from_str C (fst (snd stored)) = Some entry"

lemma replay_history:
  "res_fold (replay_row L C) rows (st, n) = Inr (st', n') \<Longrightarrow>
   \<exists>entries outs. list_all2 (stored_as C) rows entries \<and>
     run_commands L (map rec_command entries) st = Inr (st', outs) \<and>
     map (outcome_to_value C) outs = map (\<lambda>e. outcome_to_value C (rec_outcome e)) entries"
proof (induction rows arbitrary: st n)
  case (Cons x rows)
  from Cons.prems obtain st1 n1 where x: "replay_row L C x (st, n) = Inr (st1, n1)"
    and rest: "res_fold (replay_row L C) rows (st1, n1) = Inr (st', n')"
    by (auto simp: res_bind_Inr_iff)
  from x obtain entry out where r: "fst x = n" "digest C (fst (snd x)) = snd (snd x)"
    "record_from_str C (fst (snd x)) = Some entry" "rec_sequence entry = n"
    and e: "journal_apply L st (rec_command entry) = Inr (st1, out)"
      "outcome_to_value C out = outcome_to_value C (rec_outcome entry)"
    by (rule replay_row_Inr)
  from r have "stored_as C x entry" by (simp add: stored_as_def)
  note e = this e
  from Cons.IH [OF rest] obtain entries outs where "list_all2 (stored_as C) rows entries"
    "run_commands L (map rec_command entries) st1 = Inr (st', outs)"
    "map (outcome_to_value C) outs = map (\<lambda>e. outcome_to_value C (rec_outcome e)) entries" by blast
  with e show ?case by (intro exI [of _ "entry # entries"] exI [of _ "out # outs"]) simp
qed simp

definition seed_ok :: "'d decimal_lib \<Rightarrow> u64 \<times> string \<times> 'd \<times> 'd \<Rightarrow> bool" where
  "seed_ok L account \<longleftrightarrow> (case account of (user, mint, a, l) \<Rightarrow>
     user > 0 \<and> mint \<noteq> [] \<and> trim mint = mint \<and> dec_eq L l (dec_zero L) \<and> is_ok (units L a))"

definition seed_row :: "u64 \<times> string \<times> 'd \<times> 'd \<Rightarrow> account \<times> 'd Balance" where
  "seed_row account = (case account of (user, mint, a, l) \<Rightarrow> ((user, mint), \<lparr>available = a, locked = l\<rparr>))"

lemma genesis_account_Inr:
  "genesis_account L account st = Inr st' \<longleftrightarrow>
     seed_ok L account \<and> hm_get (balances (cache_of st)) (fst (seed_row account)) = None \<and>
     st' = with_cache ((cache_of st)\<lparr>balances := hm_insert (fst (seed_row account)) (snd (seed_row account)) (balances (cache_of st))\<rparr>) st"
  by (cases account) (auto simp: genesis_account_def seed_ok_def seed_row_def get_balance_def set_balance_def is_ok_iff
      res_bind_Inr_iff ensure_Inr_iff)

lemma with_cache_with_cache [simp]: "with_cache c (with_cache c' st) = with_cache c st"
  by (simp add: with_cache_def)

context decimal_library
begin

lemma genesis_state:
  assumes "res_fold (genesis_account L) seeds EngineState_new = Inr st0"
  shows "\<exists>c. st0 = with_cache c EngineState_new \<and> cache_ok L c \<and> (\<forall>k. lk L c k = 0)"
  using assms
proof (rule res_fold_invariant)
  have "EngineState_new = with_cache BalanceCache_new EngineState_new"
    by (simp add: with_cache_def EngineState_new_def Executor_new_def)
  then show "\<exists>c. EngineState_new = with_cache c EngineState_new \<and> cache_ok L c \<and> (\<forall>k. lk L c k = 0)"
    by (intro exI [of _ BalanceCache_new]) (simp add: lk_def BalanceCache_new_def cache_ok_def)
next
  fix account u v
  assume "\<exists>c. u = with_cache c EngineState_new \<and> cache_ok L c \<and> (\<forall>k. lk L c k = 0)"
    and run: "genesis_account L account u = Inr v"
  then obtain c where c: "u = with_cache c EngineState_new" "cache_ok L c" "\<And>k. lk L c k = 0" by blast
  let ?c = "c\<lparr>balances := hm_insert (fst (seed_row account)) (snd (seed_row account)) (balances c)\<rparr>"
  from run c(1) have v: "v = with_cache ?c EngineState_new" "seed_ok L account"
    by (simp_all add: genesis_account_Inr)
  from v(2) have "balance_ok L (snd (seed_row account))" "units_of L (locked (snd (seed_row account))) = 0"
    using zero_ok by (auto simp: seed_ok_def seed_row_def balance_ok_def dec_simps units_of_def split: prod.splits)
  then have "cache_ok L ?c" "lk L ?c k = 0" for k
    using c(2,3) by (simp_all add: cache_ok_insert lk_insert)
  with v(1) show "\<exists>c. v = with_cache c EngineState_new \<and> cache_ok L c \<and> (\<forall>k. lk L c k = 0)" by blast
qed

lemma genesis_engine_ok: "cache_ok L c \<Longrightarrow> engine_ok L (with_cache c EngineState_new)"
  by (simp add: engine_ok_def EngineState_new_def books_ok_def)

text \<open>Seeding from valid accounts with distinct keys stores exactly those accounts.\<close>

lemma genesis_fold:
  assumes "distinct (map (fst \<circ> seed_row) seeds)" "list_all (seed_ok L) seeds"
    and "\<forall>a \<in> set seeds. hm_get (balances (cache_of st)) (fst (seed_row a)) = None"
  shows "\<exists>st'. res_fold (genesis_account L) seeds st = Inr st' \<and>
    hm_get (balances (cache_of st')) = hm_get (balances (cache_of st)) ++ map_of (map seed_row seeds)"
  using assms
proof (induction seeds arbitrary: st)
  case (Cons a seeds)
  let ?st = "with_cache ((cache_of st)\<lparr>balances := hm_insert (fst (seed_row a)) (snd (seed_row a)) (balances (cache_of st))\<rparr>) st"
  have a: "genesis_account L a st = Inr ?st" using Cons.prems by (simp add: genesis_account_Inr)
  have get: "hm_get (balances (cache_of ?st)) = (hm_get (balances (cache_of st)))(fst (seed_row a) \<mapsto> snd (seed_row a))"
    by (auto simp: fun_eq_iff)
  have "\<forall>b \<in> set seeds. hm_get (balances (cache_of ?st)) (fst (seed_row b)) = None"
    using Cons.prems unfolding get by (auto simp: image_iff)
  moreover have "distinct (map (fst \<circ> seed_row) seeds)" "list_all (seed_ok L) seeds"
    using Cons.prems by (simp_all add: o_def)
  ultimately obtain st' where st': "res_fold (genesis_account L) seeds ?st = Inr st'"
    "hm_get (balances (cache_of st')) = hm_get (balances (cache_of ?st)) ++ map_of (map seed_row seeds)"
    using Cons.IH [of ?st] by blast
  have "fst (seed_row a) \<notin> fst ` set (map seed_row seeds)" using Cons.prems(1) by (auto simp: image_iff)
  then have "map_of (map seed_row seeds) (fst (seed_row a)) = None" using map_of_eq_None_iff by metis
  then have "hm_get (balances (cache_of st')) = hm_get (balances (cache_of st)) ++ map_of (map seed_row (a # seeds))"
    unfolding st'(2) get by (auto simp: fun_eq_iff map_add_def split: option.split)
  with a st'(1) show ?case by (intro exI [of _ st'] conjI) (simp_all only: res_fold.simps res_bind_simps)
qed simp

end

section \<open>The delivery cursor\<close>

lemma mark_delivered_Inr:
  assumes "distinct (map fst (delivery_rows s))" "delivered s = Inr cursor" "mark_delivered n s = Inr s'"
  shows "n = cursor + 1 \<and> delivered s' = Inr n \<and> record_rows s' = record_rows s \<and>
    (\<forall>L C st i. recover L C s = Inr (st, i) \<and> n \<le> int (length (record_rows s)) \<longrightarrow> recover L C s' = Inr (st, i))"
proof -
  from assms(3) have m: "n \<le> i64_top" "length (filter (\<lambda>(i, c). i = 1 \<and> c = n - 1) (delivery_rows s)) = 1"
    and s': "s' = s\<lparr>delivery_rows := map (\<lambda>(i, c). if i = 1 \<and> c = n - 1 then (i, n) else (i, c)) (delivery_rows s)\<rparr>"
    by (auto simp: mark_delivered_def res_bind_Inr_iff ensure_Inr_iff i64_try_from_def split: if_splits)
  from m(2) have "(1, n - 1) \<in> set (delivery_rows s)" by (auto simp: length_Suc_conv filter_eq_Cons_iff)
  then have "map_of (delivery_rows s) 1 = Some (n - 1)" using assms(1) by simp
  with assms(2) have n: "n = cursor + 1" "0 \<le> n - 1"
    by (auto simp: delivered_def query_row_def u64_try_from_def ensure_Inr_iff)
  have "map_of (map (\<lambda>(i, c). if i = 1 \<and> c = n - 1 then (i, n) else (i, c)) rows) 1 = Some n"
    if "map_of rows 1 = Some (n - 1)" for rows using that by (induction rows) (auto split: if_splits)
  then have "map_of (delivery_rows s') 1 = Some n" using \<open>map_of (delivery_rows s) 1 = Some (n - 1)\<close> by (simp add: s')
  then have d: "delivered s' = Inr n"
    using n(2) m(1) by (simp add: delivered_def query_row_def u64_try_from_def u64_max_def i64_top_def)
  have "recover L C s' = Inr (st, i)" if rec: "recover L C s = Inr (st, i)" and le: "n \<le> int (length (record_rows s))"
    for L :: "'a decimal_lib" and C st i
  proof -
    obtain genesis stored st0 k cur where "map_of (genesis_rows s) 1 = Some stored"
      "decode C (genesis_from_str C) stored = Inr genesis" "g_version genesis = 4" "uuid_parses C (g_engine_id genesis)"
      "i = g_engine_id genesis" "res_fold (genesis_account L) (g_balances genesis) EngineState_new = Inr st0"
      "res_fold (replay_row L C) (sort_key fst (record_rows s)) (st0, 1) = Inr (st, k + 1)"
      "delivered s = Inr cur" "cur \<le> k" "k = int (length (record_rows s))"
      by (rule recover_Inr [OF rec])
    with d le show ?thesis by (simp add: recover_def query_row_def) (simp add: s')
  qed
  with n d show ?thesis by (simp add: s')
qed

lemma recover_facts:
  assumes "decimal_library L" "recover L C s = Inr (st, engine_id)"
  shows "\<exists>c entries outs cursor. cache_ok L c \<and> (\<forall>k. lk L c k = 0) \<and>
    numbered 1 (sort_key fst (record_rows s)) \<and> list_all2 (stored_as C) (sort_key fst (record_rows s)) entries \<and>
    run_commands L (map rec_command entries) (with_cache c EngineState_new) = Inr (st, outs) \<and>
    map (outcome_to_value C) outs = map (\<lambda>e. outcome_to_value C (rec_outcome e)) entries \<and>
    engine_ok L st \<and> delivered s = Inr cursor \<and> cursor \<le> int (length entries)"
proof -
  obtain seeds st0 n cursor where r: "res_fold (genesis_account L) seeds EngineState_new = Inr st0"
    "res_fold (replay_row L C) (sort_key fst (record_rows s)) (st0, 1) = Inr (st, n + 1)"
    "delivered s = Inr cursor" "cursor \<le> n" "n = int (length (record_rows s))"
    by (rule recover_Inr [OF assms(2)]) (rule that)
  obtain c where c: "st0 = with_cache c EngineState_new" "cache_ok L c" "\<forall>k. lk L c k = 0"
    using decimal_library.genesis_state [OF assms(1) r(1)] by blast
  obtain entries outs where e: "list_all2 (stored_as C) (sort_key fst (record_rows s)) entries"
    "run_commands L (map rec_command entries) st0 = Inr (st, outs)"
    "map (outcome_to_value C) outs = map (\<lambda>e. outcome_to_value C (rec_outcome e)) entries"
    using replay_history [OF r(2)] by blast
  have "engine_ok L st"
    using decimal_library.run_commands_kept(2) [OF assms(1) decimal_library.genesis_engine_ok [OF assms(1) c(2)]] e(2) c(1)
    by blast
  moreover have "length entries = length (record_rows s)" using list_all2_lengthD [OF e(1)] by simp
  ultimately show ?thesis
    using c e r(3,4,5) recover_keys(1) [OF assms(2)]
    by (intro exI [of _ c] exI [of _ entries] exI [of _ outs] exI [of _ cursor]) simp
qed

section \<open>The codec\<close>

locale journal_codec =
  fixes C :: "'d codec"
  assumes genesis_parses: "genesis_to_string C g = Some text \<Longrightarrow> genesis_from_str C text = Some g"
    and record_parses: "record_to_string C r = Some text \<Longrightarrow> record_from_str C text = Some r"
    and outcome_serialises: "record_to_string C r = Some text \<Longrightarrow> outcome_to_value C (rec_outcome r) \<noteq> None"

locale journal_store = decimal_library L + journal_codec C
  for L :: "'d decimal_lib" and C :: "'d codec"
begin

text \<open>One stored command replays to the state that executing it gave.\<close>

lemma append_item_replay:
  assumes "append_item C now \<lparr>pd_command = Some c, pd_outcome = outcome, pd_reply = reply\<rparr> (n, rows) = Inr (n', rows')"
    and "journal_apply L st c = Inr (st', outcome)" "0 \<le> n"
  obtains x where "rows' = rows @ [x]" "n' = n + 1" "fst x = n + 1" "replay_row L C x (st, n + 1) = Inr (st', n + 2)"
proof -
  let ?r = "\<lparr>rec_sequence = n + 1, rec_timestamp = now (n + 1), rec_command = c, rec_outcome = outcome\<rparr>"
  from assms(1) obtain payload where p: "record_to_string C ?r = Some payload" "n + 1 \<le> u64_max" "n' = n + 1"
    "rows' = rows @ [(n + 1, payload, digest C payload)]"
    by (auto simp: append_item_def Let_def res_bind_Inr_iff ensure_Inr_iff ok_or_Inr_iff checked_add_u64_def
        i64_try_from_def insert_row_def split: if_splits)
  obtain v where "outcome_to_value C outcome = Some v" using outcome_serialises [OF p(1)] by auto
  with p assms(2,3) record_parses [OF p(1)]
  have "replay_row L C (n + 1, payload, digest C payload) (st, n + 1) = Inr (st', n + 2)"
    by (simp add: replay_row_def decode_def u64_try_from_def)
  with p show thesis by (intro that) simp_all
qed

lemma append_replay:
  assumes "served L st ps st'" "res_fold (append_item C now) ps (n, rows) = Inr (n', rows')" "0 \<le> n"
  shows "\<exists>new. rows' = rows @ new \<and> n' = n + int (length new) \<and> numbered (n + 1) new \<and>
    length new = length (journalled ps) \<and> res_fold (replay_row L C) new (st, n + 1) = Inr (st', n' + 1)"
  using assms
proof (induction arbitrary: n' rows' rule: served.induct)
  case (command st ps st1 c st2 outcome reply)
  from command.prems(1) obtain n1 rows1 where one: "res_fold (append_item C now) ps (n, rows) = Inr (n1, rows1)"
    and two: "append_item C now \<lparr>pd_command = Some c, pd_outcome = outcome, pd_reply = reply\<rparr> (n1, rows1) = Inr (n', rows')"
    by (auto simp: res_fold_append res_bind_Inr_iff)
  from command.IH [OF one command.prems(2)] obtain new where new: "rows1 = rows @ new" "n1 = n + int (length new)"
    "numbered (n + 1) new" "length new = length (journalled ps)"
    "res_fold (replay_row L C) new (st, n + 1) = Inr (st1, n1 + 1)" by blast
  have "0 \<le> n1" using new(2) command.prems(2) by simp
  then obtain x where x: "rows' = rows1 @ [x]" "n' = n1 + 1" "fst x = n1 + 1"
    "replay_row L C x (st1, n1 + 1) = Inr (st2, n1 + 2)"
    by (rule append_item_replay [OF two command.hyps(2)])
  show ?case
    using new x by (intro exI [of _ "new @ [x]"]) (simp add: res_fold_append)
qed (auto simp: res_fold_append res_bind_Inr_iff append_item_def)

text \<open>Appending what was served and recovering gives the state that serving it gave.\<close>

lemma append_recover:
  assumes rec: "recover L C s = Inr (st, engine_id)" and ps: "served L st ps st'"
    and app: "append C now True ps (int (length (record_rows s))) s = Inr (s', n')"
  shows "recover L C s' = Inr (st', engine_id)" "n' = int (length (record_rows s'))"
    "length (record_rows s') = length (record_rows s) + length (journalled ps)"
proof -
  let ?n = "int (length (record_rows s))"
  from app obtain rows' where rows: "res_fold (append_item C now) ps (?n, record_rows s) = Inr (n', rows')"
    and s': "s' = s\<lparr>record_rows := rows'\<rparr>"
    by (auto simp: append_def res_bind_Inr_iff)
  from append_replay [OF ps rows] obtain new where new: "rows' = record_rows s @ new" "n' = ?n + int (length new)"
    "numbered (?n + 1) new" "length new = length (journalled ps)"
    "res_fold (replay_row L C) new (st, ?n + 1) = Inr (st', n' + 1)" by auto
  have sorted: "sort_key fst (record_rows s @ new) = sort_key fst (record_rows s) @ new"
    by (rule sort_key_extend [OF recover_keys(2) [OF rec] new(3)])
  obtain genesis stored st0 n cursor where r: "map_of (genesis_rows s) 1 = Some stored"
    "decode C (genesis_from_str C) stored = Inr genesis" "g_version genesis = 4" "uuid_parses C (g_engine_id genesis)"
    "engine_id = g_engine_id genesis" "res_fold (genesis_account L) (g_balances genesis) EngineState_new = Inr st0"
    "res_fold (replay_row L C) (sort_key fst (record_rows s)) (st0, 1) = Inr (st, n + 1)"
    "delivered s = Inr cursor" "cursor \<le> n" "n = int (length (record_rows s))"
    by (rule recover_Inr [OF rec])
  have "delivered s' = Inr cursor" using r(8) by (simp add: delivered_def s')
  with r new show "recover L C s' = Inr (st', engine_id)"
    by (simp add: recover_def query_row_def s' sorted res_fold_append)
  show "n' = int (length (record_rows s'))" "length (record_rows s') = length (record_rows s) + length (journalled ps)"
    using new by (simp_all add: s')
qed

end

lemma genesis_recovers:
  assumes "journal_store L C" "cache_ok L c" "list_all (seed_ok L) (journal_seed c)" "uuid_parses C new_id"
    and "initialize C new_id st s = Inr s'" "cache_of st = c" "record_rows s = []"
  shows "\<exists>st'. recover L C s' = Inr (st', new_id) \<and> (\<forall>u m. get_balance u m (cache_of st') = get_balance u m c) \<and>
    deposit_receipts st = [] \<and> withdrawal_receipts st = [] \<and> submissions st = [] \<and> cancellations st = [] \<and> orderbooks st = []"
proof -
  let ?g = "\<lparr>g_version = 4, g_engine_id = new_id, g_balances = journal_seed c\<rparr>"
  from assms(5,6,7) obtain payload where p: "genesis_to_string C ?g = Some payload" "genesis_rows s = []"
    "genesis_rows s' = [(1, payload, digest C payload)]" "record_rows s' = []" "delivered s = Inr 0"
      "delivery_rows s' = delivery_rows s"
    and h: "deposit_receipts st = []" "withdrawal_receipts st = []" "submissions st = []" "cancellations st = []" "orderbooks st = []"
    by (auto simp: initialize_def initialized_def insert_row_def Let_def res_bind_Inr_iff ensure_Inr_iff ok_or_Inr_iff
        split: if_splits)
  have keys: "map seed_row (map (\<lambda>((user, mint), b). (user, mint, available b, locked b)) rows) = rows"
    for rows :: "(account \<times> 'a Balance) list"
    by (induction rows) (auto simp: seed_row_def)
  have perm: "mset (map seed_row (journal_seed c)) = mset (balances c)"
    unfolding journal_seed_def mset_map mset_sort by (simp only: mset_map [symmetric] keys)
  from arg_cong [OF perm, of "image_mset fst"] have "mset (map (fst \<circ> seed_row) (journal_seed c)) = mset (map fst (balances c))"
    by (simp add: image_mset.compositionality)
  then have dist: "distinct (map (fst \<circ> seed_row) (journal_seed c))"
    using assms(2) mset_eq_imp_distinct_iff unfolding cache_ok_def by blast
  have same: "map_of (map seed_row (journal_seed c)) = map_of (balances c)"
    using dist assms(2) mset_eq_setD [OF perm] by (intro map_of_inject_set [THEN iffD2]) (simp_all add: cache_ok_def)
  have L: "decimal_library L" using assms(1) by (simp add: journal_store_def)
  obtain st' where st': "res_fold (genesis_account L) (journal_seed c) EngineState_new = Inr st'"
    "hm_get (balances (cache_of st')) = map_of (balances c)"
    using decimal_library.genesis_fold [OF L dist assms(3), of EngineState_new]
    by (auto simp: same EngineState_new_def Executor_new_def BalanceCache_new_def)
  have "genesis_from_str C payload = Some ?g"
    using assms(1) p(1) by (simp add: journal_store_def journal_codec.genesis_parses)
  moreover have "delivered s' = Inr 0" using p(5,6) by (simp add: delivered_def)
  ultimately have "recover L C s' = Inr (st', new_id)" using st'(1) p(3,4) assms(4)
    by (simp add: recover_def query_row_def decode_def)
  with st'(2) h show ?thesis by (simp add: get_balance_def)
qed

section \<open>A codec for the witnesses\<close>

text \<open>A finite table of texts is a codec: only what the table lists can be serialised.\<close>

definition lookup_text :: "(string \<times> 'a) list \<Rightarrow> 'a \<Rightarrow> string option" where
  "lookup_text table v = map_option fst (find (\<lambda>(_, v'). v' = v) table)"

definition table_codec :: "(string \<times> 'd Genesis) list \<Rightarrow> (string \<times> 'd Record) list \<Rightarrow> 'd codec" where
  "table_codec gs rs =
     \<lparr>genesis_to_string = lookup_text gs, genesis_from_str = map_of gs,
      record_to_string = lookup_text rs, record_from_str = map_of rs,
      outcome_to_value = (\<lambda>out. lookup_text (map (map_prod id rec_outcome) rs) out),
      sha256 = rev, uuid_parses = (\<lambda>text. text \<noteq> [])\<rparr>"

lemma lookup_text_SomeD: "distinct (map fst table) \<Longrightarrow> lookup_text table v = Some text \<Longrightarrow> map_of table text = Some v"
  by (auto simp: lookup_text_def find_Some_iff intro!: map_of_is_SomeI) (metis nth_mem)

lemma lookup_text_defined: "lookup_text table v = None \<longleftrightarrow> v \<notin> snd ` set table"
  by (force simp: lookup_text_def find_None_iff)

lemma table_codec_ok:
  assumes "distinct (map fst gs)" "distinct (map fst rs)"
  shows "journal_codec (table_codec gs rs)"
proof
  fix r t
  assume "record_to_string (table_codec gs rs) r = Some t"
  then have "lookup_text rs r = Some t" by (simp add: table_codec_def)
  from lookup_text_SomeD [OF assms(2) this] have "(t, r) \<in> set rs" by (rule map_of_SomeD)
  then have "rec_outcome r \<in> snd ` set (map (map_prod id rec_outcome) rs)" by force
  then show "outcome_to_value (table_codec gs rs) (rec_outcome r) \<noteq> None"
    by (simp add: table_codec_def lookup_text_defined)
qed (simp_all add: table_codec_def lookup_text_SomeD assms)

definition sample_genesis :: "refdec Genesis" where
  "sample_genesis = \<lparr>g_version = 4, g_engine_id = ''e1'', g_balances = [(1, ''USDT'', RefDec 500 0, RefDec 0 0)]\<rparr>"

definition sample_record :: "refdec Record" where
  "sample_record = \<lparr>rec_sequence = 1, rec_timestamp = 0, rec_command = CreditDeposit sample_credit,
     rec_outcome = Applied (Some (DepositCredited sample_credit))\<rparr>"

definition sample_codec :: "refdec codec" where
  "sample_codec = table_codec [(''g'', sample_genesis)] [(''r1'', sample_record)]"

definition sample_store :: Store where
  "sample_store =
     \<lparr>user_version = 4, tables = [''genesis'', ''records'', ''delivery''], genesis_rows = [(1, ''g'', ''g'')],
      record_rows = [], delivery_rows = [(1, 0)]\<rparr>"

definition sample_full_store :: Store where
  "sample_full_store = sample_store\<lparr>record_rows := [(1, ''r1'', ''1r'')]\<rparr>"

definition sample_pending :: "refdec Pending list" where
  "sample_pending = [\<lparr>pd_command = Some (CreditDeposit sample_credit),
     pd_outcome = Applied (Some (DepositCredited sample_credit)), pd_reply = ReplyUnit 0\<rparr>]"

interpretation sample: journal_store ref_decimal sample_codec
  using table_codec_ok [of "[(''g'', sample_genesis)]" "[(''r1'', sample_record)]"]
  by (simp add: journal_store_def refd.decimal_library_axioms sample_codec_def)

section \<open>Properties\<close>

text \<open>
  C25. Nothing executed and appended is lost by a crash: when the journal recovers to a state, and
  a sequence of requests is served from it and appended in one committed transaction, then the
  journal recovers to exactly the state that serving them gave, under the same engine identifier,
  and holds one row for each command, with consecutive sequence numbers.
\<close>

theorem append_recover_roundtrip:
  assumes "journal_store L C" "recover L C s = Inr (st, engine_id)" "last_sequence s = Inr n"
    and "served L st ps st'" "append C now True ps n s = Inr (s', n')"
  shows "recover L C s' = Inr (st', engine_id) \<and> n' = n + int (length (journalled ps)) \<and>
    n' = int (length (record_rows s')) \<and> numbered 1 (sort_key fst (record_rows s'))"
proof -
  have n: "n = int (length (record_rows s))" by (rule recover_sequence [OF assms(2,3)])
  note r = journal_store.append_recover [OF assms(1,2,4), of now s' n', folded n, OF assms(5)]
  from r show ?thesis using recover_keys(1) [OF r(1)] by (simp add: n)
qed

theorem append_recover_roundtrip_witness:
  "\<exists>st st' s'. recover ref_decimal sample_codec sample_store = Inr (st, ''e1'') \<and>
     append sample_codec (\<lambda>_. 0) True sample_pending 0 sample_store = Inr (s', 1) \<and>
     recover ref_decimal sample_codec s' = Inr (st', ''e1'')"
proof -
  let ?c = "CreditDeposit sample_credit" and ?out = "Applied (Some (DepositCredited sample_credit))"
  have "case recover ref_decimal sample_codec sample_store of
      Inr (st, i) \<Rightarrow> i = ''e1'' \<and> (case journal_apply ref_decimal st ?c of Inr (_, out) \<Rightarrow> out = ?out | _ \<Rightarrow> False)
    | _ \<Rightarrow> False"
    by code_simp
  then obtain st st' where rec: "recover ref_decimal sample_codec sample_store = Inr (st, ''e1'')"
    and step: "journal_apply ref_decimal st ?c = Inr (st', ?out)"
    by (auto split: sum.splits prod.splits)
  have "served ref_decimal st ([] @ sample_pending) st'"
    unfolding sample_pending_def by (rule served.command [OF served.nothing step])
  then have ps: "served ref_decimal st sample_pending st'" by simp
  have last: "last_sequence sample_store = Inr 0" by code_simp
  have "append sample_codec (\<lambda>_. 0) True sample_pending 0 sample_store = Inr (sample_full_store, 1)" by code_simp
  with append_recover_roundtrip [OF sample.journal_store_axioms rec last ps] rec show ?thesis by blast
qed

text \<open>
  C26. A recovery accepts nothing but a sound history: when it succeeds, the rows are numbered
  1, 2, 3 and so on without a gap, every payload has its checksum and parses, and the returned state is
  what executing the stored commands from the stored opening balances gives, with outcomes that
  serialise to the stored ones. The state satisfies the engine's invariant, and the delivery
  cursor is not ahead of the journal.
\<close>

theorem recover_sound:
  assumes "decimal_library L" "recover L C s = Inr (st, engine_id)"
  shows "\<exists>c entries outs cursor. cache_ok L c \<and> (\<forall>k. lk L c k = 0) \<and>
    numbered 1 (sort_key fst (record_rows s)) \<and> list_all2 (stored_as C) (sort_key fst (record_rows s)) entries \<and>
    run_commands L (map rec_command entries) (with_cache c EngineState_new) = Inr (st, outs) \<and>
    map (outcome_to_value C) outs = map (\<lambda>e. outcome_to_value C (rec_outcome e)) entries \<and>
    engine_ok L st \<and> delivered s = Inr cursor \<and> cursor \<le> int (length entries)"
  using recover_facts [OF assms] .

theorem recover_sound_witness:
  "\<exists>st. recover ref_decimal sample_codec sample_full_store = Inr (st, ''e1'') \<and> engine_ok ref_decimal st"
proof -
  have "case recover ref_decimal sample_codec sample_full_store of Inr (st, i) \<Rightarrow> i = ''e1'' | _ \<Rightarrow> False" by code_simp
  then obtain st where rec: "recover ref_decimal sample_codec sample_full_store = Inr (st, ''e1'')"
    by (auto split: sum.splits prod.splits)
  from recover_sound [OF refd.decimal_library_axioms rec] rec show ?thesis by blast
qed

end
