(* ===== verification/Market.thy ===== *)
theory Market
  imports Journal_Store
begin

text \<open>
  The public market projection (\<open>runtime/market.rs\<close>): from the confirmed journal records alone it
  keeps the open quantity of every resting order and the total quantity of every price level, and
  publishes a snapshot of the best twenty levels of each side. A \<open>BigInt\<close> total is an integer, a
  \<open>BTreeMap<Decimal, BigInt>\<close> the ordered map of the order book. The text of a decimal is the
  parameter \<open>show\<close>. A failed record ends the output worker, so a result without a state is enough.
\<close>

section \<open>Definitions\<close>

record MarketTrade =
  mt_id :: string
  mt_price :: string
  mt_amount :: string
  mt_side :: string

record MarketSnapshot =
  ms_event_type :: string
  ms_event_id :: string
  ms_engine_id :: string
  ms_sequence :: string
  ms_previous_sequence :: string
  ms_base_mint :: string
  ms_quote_mint :: string
  ms_timestamp :: datetime
  ms_bids :: "(string \<times> string) list"
  ms_asks :: "(string \<times> string) list"
  ms_trades :: "MarketTrade list"

record 'd MarketBook =
  mb_bids :: "('d \<times> int) list"
  mb_asks :: "('d \<times> int) list"
  mb_sequence :: int

definition MarketBook_default :: "'d MarketBook" where
  "MarketBook_default = \<lparr>mb_bids = [], mb_asks = [], mb_sequence = 0\<rparr>"

record 'd Resting =
  rs_pair :: TradingPair
  rs_buy :: bool
  rs_price :: 'd
  rs_remaining :: 'd

record 'd Projection =
  pj_orders :: "(u64, 'd Resting) hashmap"
  pj_books :: "(TradingPair, 'd MarketBook) hashmap"
  pj_latest :: "(TradingPair, MarketSnapshot) hashmap"

definition Projection_default :: "'d Projection" where
  "Projection_default = \<lparr>pj_orders = [], pj_books = [], pj_latest = []\<rparr>"

definition quantity_text :: "int \<Rightarrow> string" where
  "quantity_text n =
     (let text = (if length (int_str n) \<le> 9 then replicate (10 - length (int_str n)) (CHR ''0'') @ int_str n else int_str n);
          k = length text - 9 in
      trim_end_matches (CHR ''.'') (trim_end_matches (CHR ''0'') (take k text @ ''.'' @ drop k text)))"

definition mb_levels :: "bool \<Rightarrow> 'd MarketBook \<Rightarrow> ('d \<times> int) list" where
  "mb_levels buy book = (if buy then mb_bids book else mb_asks book)"

definition mb_set_levels :: "bool \<Rightarrow> ('d \<times> int) list \<Rightarrow> 'd MarketBook \<Rightarrow> 'd MarketBook" where
  "mb_set_levels buy levels book = (if buy then book\<lparr>mb_bids := levels\<rparr> else book\<lparr>mb_asks := levels\<rparr>)"

definition reduce :: "'d decimal_lib \<Rightarrow> u64 \<Rightarrow> 'd \<Rightarrow> 'd Projection \<Rightarrow> 'd Projection res" where
  "reduce L i quantity pj =
     res_bind (ok_or (''Missing resting market order '' @ nat_str (uint i)) (hm_get (pj_orders pj) i)) (\<lambda>order.
     res_bind (subtract L (rs_remaining order) quantity) (\<lambda>remaining.
     res_bind (expect ''resting book exists'' (hm_get (pj_books pj) (rs_pair order))) (\<lambda>book.
     let levels = mb_levels (rs_buy order) book in
     res_bind (expect ''resting price exists'' (bt_get L (rs_price order) levels)) (\<lambda>level.
     res_bind (units L quantity) (\<lambda>change.
     ensure (level \<ge> change) ''Negative public price level''
     (let levels' = (if level - change = 0 then bt_remove L (rs_price order) levels
                     else bt_put L (rs_price order) (level - change) levels) in
      Inr (pj\<lparr>pj_orders := (if dec_is_zero L remaining then hm_remove i (pj_orders pj)
                            else hm_insert i (order\<lparr>rs_remaining := remaining\<rparr>) (pj_orders pj)),
              pj_books := hm_insert (rs_pair order) (mb_set_levels (rs_buy order) levels' book) (pj_books pj)\<rparr>)))))))"

definition maker_id :: "'d OrderEntry \<Rightarrow> 'd MatchResult \<Rightarrow> u64" where
  "maker_id order t = (if o_order_type order = ''buy'' then m_sell_order_id t else m_buy_order_id t)"

definition event_id :: "string \<Rightarrow> int \<Rightarrow> string \<Rightarrow> string" where
  "event_id engine_id sequence part = engine_id @ '':'' @ nat_str sequence @ '':'' @ part"

definition market_trade ::
    "('d \<Rightarrow> string) \<Rightarrow> string \<Rightarrow> int \<Rightarrow> 'd OrderEntry \<Rightarrow> nat \<Rightarrow> 'd TradeOutput \<Rightarrow> MarketTrade" where
  "market_trade show engine_id sequence order index output =
     \<lparr>mt_id = event_id engine_id sequence (nat_str (int index)), mt_price = show (m_price (to_trade output)),
      mt_amount = show (m_amount (to_trade output)), mt_side = o_order_type order\<rparr>"

definition reduce_trade ::
    "'d decimal_lib \<Rightarrow> 'd OrderEntry \<Rightarrow> 'd TradeOutput \<Rightarrow> 'd Projection \<times> 'd \<Rightarrow> ('d Projection \<times> 'd) res" where
  "reduce_trade L order output acc =
     (case acc of (pj, filled) \<Rightarrow>
        res_bind (reduce L (maker_id order (to_trade output)) (m_amount (to_trade output)) pj) (\<lambda>pj'.
        res_bind (add L filled (m_amount (to_trade output))) (\<lambda>filled'.
          Inr (pj', filled'))))"

definition book_or_default :: "TradingPair \<Rightarrow> 'd Projection \<Rightarrow> 'd MarketBook" where
  "book_or_default pair pj = (case hm_get (pj_books pj) pair of None \<Rightarrow> MarketBook_default | Some b \<Rightarrow> b)"

definition rest_order ::
    "'d decimal_lib \<Rightarrow> 'd OrderEntry \<Rightarrow> TradingPair \<Rightarrow> 'd \<Rightarrow> 'd Projection \<Rightarrow> 'd Projection res" where
  "rest_order L order pair remaining pj =
     res_bind (expect ''accepted limit price'' (o_price order)) (\<lambda>price.
     let book = book_or_default pair pj;
         buy = (o_order_type order = ''buy'');
         level = (case bt_get L price (mb_levels buy book) of None \<Rightarrow> 0 | Some n \<Rightarrow> n) in
     res_bind (units L remaining) (\<lambda>n.
     ensure (hm_get (pj_orders pj) (o_id order) = None) ''Duplicate resting order''
       (Inr (pj\<lparr>pj_orders := hm_insert (o_id order)
                  \<lparr>rs_pair = pair, rs_buy = buy, rs_price = price, rs_remaining = remaining\<rparr> (pj_orders pj),
                pj_books := hm_insert pair (mb_set_levels buy (bt_put L price (level + n) (mb_levels buy book)) book)
                  (pj_books pj)\<rparr>))))"

definition project_submitted ::
    "'d decimal_lib \<Rightarrow> 'd OrderEntry \<Rightarrow> 'd TradeOutput list \<Rightarrow> 'd Projection \<Rightarrow> 'd Projection res" where
  "project_submitted L order outputs pj =
     (let pair = TradingPair_new (o_base_mint order) (o_quote_mint order) in
      res_bind (res_fold (reduce_trade L order) outputs (pj, dec_zero L)) (\<lambda>(pj1, filled).
      if o_order_side order = ''limit'' then
        res_bind (subtract L (o_amount order) filled) (\<lambda>remaining.
          if dec_lt L (dec_zero L) remaining then rest_order L order pair remaining pj1 else Inr pj1)
      else Inr pj1))"

definition snapshot ::
    "('d \<Rightarrow> string) \<Rightarrow> string \<Rightarrow> 'd Record \<Rightarrow> TradingPair \<Rightarrow> MarketTrade list \<Rightarrow> 'd MarketBook \<Rightarrow> MarketSnapshot" where
  "snapshot show engine_id record pair trades book =
     (let level = (\<lambda>(p, q). (show p, quantity_text q)) in
      \<lparr>ms_event_type = ''market_snapshot'', ms_event_id = event_id engine_id (rec_sequence record) ''market'',
       ms_engine_id = engine_id, ms_sequence = nat_str (rec_sequence record),
       ms_previous_sequence = nat_str (mb_sequence book), ms_base_mint = tp_base_mint pair,
       ms_quote_mint = tp_quote_mint pair, ms_timestamp = rec_timestamp record,
       ms_bids = map level (take 20 (rev (mb_bids book))), ms_asks = map level (take 20 (mb_asks book)),
       ms_trades = trades\<rparr>)"

definition publish_book ::
    "('d \<Rightarrow> string) \<Rightarrow> string \<Rightarrow> 'd Record \<Rightarrow> TradingPair \<Rightarrow> MarketTrade list \<Rightarrow> 'd Projection \<Rightarrow>
     'd Projection \<times> MarketSnapshot option" where
  "publish_book show engine_id record pair trades pj =
     (let book = book_or_default pair pj;
          event = snapshot show engine_id record pair trades book in
      (pj\<lparr>pj_books := hm_insert pair (book\<lparr>mb_sequence := rec_sequence record\<rparr>) (pj_books pj),
          pj_latest := hm_insert pair event (pj_latest pj)\<rparr>, Some event))"

definition projection_apply ::
    "'d decimal_lib \<Rightarrow> ('d \<Rightarrow> string) \<Rightarrow> 'd Record \<Rightarrow> string \<Rightarrow> 'd Projection \<Rightarrow>
     ('d Projection \<times> MarketSnapshot option) res" where
  "projection_apply L show record engine_id pj =
     (case (rec_command record, rec_outcome record) of
        (Submit order, Applied (Some (Submitted _ outputs _))) \<Rightarrow>
          res_bind (project_submitted L order outputs pj) (\<lambda>pj1.
            Inr (publish_book show engine_id record (TradingPair_new (o_base_mint order) (o_quote_mint order))
              (map (\<lambda>(i, output). market_trade show engine_id (rec_sequence record) order i output)
                 (enumerate 0 outputs)) pj1))
      | (_, Applied (Some (BatchCancelled order))) \<Rightarrow>
          res_bind (reduce L (o_id order) (o_remaining_amount order) pj) (\<lambda>pj1.
            Inr (publish_book show engine_id record (TradingPair_new (o_base_mint order) (o_quote_mint order)) [] pj1))
      | _ \<Rightarrow> Inr (pj, None))"

section \<open>The projection of a set of resting orders\<close>

definition entry_pair :: "'d OrderEntry \<Rightarrow> TradingPair" where
  "entry_pair e = TradingPair_new (o_base_mint e) (o_quote_mint e)"

definition entry_buy :: "'d OrderEntry \<Rightarrow> bool" where
  "entry_buy e \<longleftrightarrow> o_order_type e = ''buy''"

definition entry_open :: "'d decimal_lib \<Rightarrow> 'd OrderEntry \<Rightarrow> int" where
  "entry_open L e = units_of L (o_remaining_amount e)"

definition open_at :: "'d decimal_lib \<Rightarrow> TradingPair \<Rightarrow> bool \<Rightarrow> 'd \<Rightarrow> 'd OrderEntry \<Rightarrow> int" where
  "open_at L pair buy x e =
     (if entry_pair e = pair \<and> entry_buy e = buy \<and> dec_eq_opt L (o_price e) (Some x) then entry_open L e else 0)"

text \<open>The quantity that the orders of a multiset leave open at a price of one side of a market.\<close>

definition open_total :: "'d decimal_lib \<Rightarrow> 'd OrderEntry multiset \<Rightarrow> TradingPair \<Rightarrow> bool \<Rightarrow> 'd \<Rightarrow> int" where
  "open_total L M pair buy x = (\<Sum>e \<in># M. open_at L pair buy x e)"

definition shown :: "'d decimal_lib \<Rightarrow> 'd OrderEntry \<Rightarrow> 'd Resting \<Rightarrow> bool" where
  "shown L e r \<longleftrightarrow> rs_pair r = entry_pair e \<and> rs_buy r = entry_buy e \<and> dec_eq_opt L (o_price e) (Some (rs_price r)) \<and>
     units L (rs_remaining r) = Inr (entry_open L e) \<and> 0 < entry_open L e"

definition projects :: "'d decimal_lib \<Rightarrow> 'd OrderEntry multiset \<Rightarrow> 'd Projection \<Rightarrow> bool" where
  "projects L M pj \<longleftrightarrow>
     (\<forall>i. hm_get (pj_orders pj) i = None \<longleftrightarrow> i \<notin> o_id ` set_mset M) \<and>
     (\<forall>e \<in># M. \<exists>r. hm_get (pj_orders pj) (o_id e) = Some r \<and> shown L e r) \<and>
     (\<forall>pair buy. bt_ok L (mb_levels buy (book_or_default pair pj))) \<and>
     (\<forall>pair buy x. bt_get L x (mb_levels buy (book_or_default pair pj)) =
        (if open_total L M pair buy x = 0 then None else Some (open_total L M pair buy x)))"

text \<open>An order and the same order with another open quantity.\<close>

definition same_order :: "'d OrderEntry \<Rightarrow> 'd OrderEntry \<Rightarrow> bool" where
  "same_order e e' \<longleftrightarrow> o_id e' = o_id e \<and> entry_pair e' = entry_pair e \<and> entry_buy e' = entry_buy e \<and> o_price e' = o_price e"

definition unique_ids :: "'d OrderEntry multiset \<Rightarrow> bool" where
  "unique_ids M \<longleftrightarrow> (\<forall>i. count (image_mset o_id M) i \<le> 1)"

lemma unique_ids_add: "unique_ids (add_mset e M) \<longleftrightarrow> o_id e \<notin> o_id ` set_mset M \<and> unique_ids M"
proof -
  have "o_id e \<notin> o_id ` set_mset M \<longleftrightarrow> count (image_mset o_id M) (o_id e) = 0"
    by (simp add: count_eq_zero_iff)
  then show ?thesis unfolding unique_ids_def by (auto simp: le_Suc_eq)
qed

lemma unique_ids_mset: "unique_ids (mset xs) \<longleftrightarrow> distinct (map o_id xs)"
  by (induction xs) (simp_all add: unique_ids_add, simp add: unique_ids_def)

lemma open_total_simps [simp]:
  "open_total L {#} pair buy x = 0"
  "open_total L (add_mset e M) pair buy x = open_at L pair buy x e + open_total L M pair buy x"
  by (simp_all add: open_total_def)

lemma mb_levels_set [simp]:
  "mb_levels b (mb_set_levels buy levels book) = (if b = buy then levels else mb_levels b book)"
  "mb_levels b (book\<lparr>mb_sequence := n\<rparr>) = mb_levels b book"
  by (simp_all add: mb_levels_def mb_set_levels_def)

lemma book_or_default_simps [simp]:
  "book_or_default pair (pj\<lparr>pj_orders := m\<rparr>) = book_or_default pair pj"
  "book_or_default pair (pj\<lparr>pj_latest := l\<rparr>) = book_or_default pair pj"
  "book_or_default pair (pj\<lparr>pj_books := hm_insert q b (pj_books pj)\<rparr>) = (if pair = q then b else book_or_default pair pj)"
  "book_or_default pair (pj\<lparr>pj_orders := m, pj_books := hm_insert q b (pj_books pj)\<rparr>) =
     (if pair = q then b else book_or_default pair pj)"
  by (simp_all add: book_or_default_def)

lemma hm_get_remove [simp]: "hm_get (hm_remove k m) q = (if q = k then None else hm_get m q)"
  by (simp add: delete_conv')

lemma projects_default: "projects L {#} Projection_default"
  by (simp add: projects_def Projection_default_def book_or_default_def MarketBook_default_def mb_levels_def bt_ok_def)

lemma publish_book_projects: "projects L M pj \<Longrightarrow> projects L M (fst (publish_book show i r pair ts pj))"
  by (simp add: projects_def publish_book_def Let_def)

context decimal_library
begin

lemma subtract_defined:
  assumes "units L a = Inr x" "units L b = Inr y" "units L v = Inr (x - y)"
  obtains d where "subtract L a b = Inr d" "units L d = Inr (x - y)"
proof -
  have "y \<le> x" using units_bounds [OF assms(3)] by simp
  moreover obtain d where d: "decimal L (x - y) = Inr d" using decimal_of_units [OF assms(3)] by blast
  ultimately have "subtract L a b = Inr d" using assms(1,2) by (simp add: subtract_def)
  moreover have "units L d = Inr (x - y)" using decimal_units [OF _ _ d] units_bounds [OF assms(3)] by simp
  ultimately show thesis by (rule that)
qed

lemma add_defined:
  assumes "units L a = Inr x" "units L b = Inr y" "units L v = Inr (x + y)"
  obtains d where "add L a b = Inr d" "units L d = Inr (x + y)"
proof -
  obtain d where d: "decimal L (x + y) = Inr d" using decimal_of_units [OF assms(3)] by blast
  have "in_i128 (x + y)" using units_bounds [OF assms(3)] by (simp add: in_i128_def i128_max_def i128_min_def MAX_UNITS_def)
  with d assms units_bounds [OF assms(3)] have "add L a b = Inr d" by (simp add: add_def checked_add_i128_def)
  moreover have "units L d = Inr (x + y)" using decimal_units [OF _ _ d] units_bounds [OF assms(3)] by simp
  ultimately show thesis by (rule that)
qed

lemma open_total_nonneg: "0 \<le> open_total L M pair buy x"
  by (induction M) (simp_all add: open_at_def entry_open_def units_of_nonneg)

lemma open_at_cong: "dec_val L x = dec_val L y \<Longrightarrow> open_at L pair buy x e = open_at L pair buy y e"
  by (simp add: open_at_def dec_simps)

lemma open_total_cong: "dec_val L x = dec_val L y \<Longrightarrow> open_total L M pair buy x = open_total L M pair buy y"
  unfolding open_total_def using open_at_cong [of x y] by presburger

text \<open>A trade or cancellation of one resting order is shown as it changes the book.\<close>

lemma reduce_projects:
  assumes pj: "projects L (add_mset e M) pj" and fresh: "o_id e \<notin> o_id ` set_mset M"
    and q: "units L q = Inr n" "0 < n" and e': "same_order e e'" "units L (o_remaining_amount e') = Inr (entry_open L e - n)"
  shows "\<exists>pj'. reduce L (o_id e) q pj = Inr pj' \<and> projects L (if 0 < entry_open L e' then add_mset e' M else M) pj'"
proof -
  from pj obtain r where r: "hm_get (pj_orders pj) (o_id e) = Some r" "shown L e r" by (auto simp: projects_def)
  let ?pair = "entry_pair e" and ?buy = "entry_buy e" and ?x = "rs_price r"
  let ?book = "book_or_default ?pair pj" and ?total = "open_total L (add_mset e M) ?pair ?buy ?x"
  have r': "rs_pair r = ?pair" "rs_buy r = ?buy" "units L (rs_remaining r) = Inr (entry_open L e)" "0 < entry_open L e"
    and at: "dec_eq_opt L (o_price e) (Some ?x)"
    using r(2) by (simp_all add: shown_def)
  have u': "entry_open L e' = entry_open L e - n" using e'(2) by (simp add: entry_open_def)
  obtain d where d: "subtract L (rs_remaining r) q = Inr d" "units L d = Inr (entry_open L e - n)"
    by (rule subtract_defined [OF r'(3) q(1) e'(2)])
  have zero: "dec_is_zero L d \<longleftrightarrow> entry_open L e' = 0" using units_sign(3) [OF d(2)] u' by (simp add: dec_simps)
  have tot: "?total = entry_open L e + open_total L M ?pair ?buy ?x" using at by (simp add: open_at_def)
  have "0 < ?total" using tot r'(4) open_total_nonneg [of M ?pair ?buy ?x] by simp
  have lv: "bt_get L ?x (mb_levels ?buy ?book) = Some ?total" "bt_ok L (mb_levels ?buy ?book)"
    using pj \<open>0 < ?total\<close> by (simp_all add: projects_def)
  have bk: "hm_get (pj_books pj) ?pair = Some ?book"
    using lv(1) by (auto simp: book_or_default_def MarketBook_default_def mb_levels_def split: option.splits if_splits)
  have le: "n \<le> ?total" using units_bounds [OF e'(2)] tot open_total_nonneg [of M ?pair ?buy ?x] by simp
  let ?levels = "if ?total - n = 0 then bt_remove L ?x (mb_levels ?buy ?book)
                 else bt_put L ?x (?total - n) (mb_levels ?buy ?book)"
  let ?orders = "if dec_is_zero L d then hm_remove (o_id e) (pj_orders pj)
                 else hm_insert (o_id e) (r\<lparr>rs_remaining := d\<rparr>) (pj_orders pj)"
  let ?pj = "pj\<lparr>pj_orders := ?orders, pj_books := hm_insert ?pair (mb_set_levels ?buy ?levels ?book) (pj_books pj)\<rparr>"
  let ?M = "if 0 < entry_open L e' then add_mset e' M else M"
  have run: "reduce L (o_id e) q pj = Inr ?pj"
    using r(1) r' d(1) bk lv(1) q(1) le by (simp add: reduce_def Let_def)
  have total': "open_total L ?M pair buy x =
      open_total L (add_mset e M) pair buy x - (if pair = ?pair \<and> buy = ?buy \<and> dec_eq L x ?x then n else 0)" for pair buy x
    using e'(1) at u' units_bounds [OF e'(2)] by (auto simp: open_at_def same_order_def dec_simps)
  have ids: "hm_get ?orders i = None \<longleftrightarrow> i \<notin> o_id ` set_mset ?M" for i
    using pj fresh e'(1) zero u' units_bounds [OF e'(2)] by (auto simp: projects_def same_order_def)
  have ords: "\<exists>r. hm_get ?orders (o_id a) = Some r \<and> shown L a r" if "a \<in># ?M" for a
  proof (cases "a = e' \<and> 0 < entry_open L e'")
    case True
    with r(2) e'(1) d(2) u' zero show ?thesis by (simp add: shown_def same_order_def)
  next
    case False
    with that have "a \<in># M" by (auto split: if_splits)
    then have "o_id a \<noteq> o_id e" using fresh by (metis imageI)
    moreover have "\<exists>r. hm_get (pj_orders pj) (o_id a) = Some r \<and> shown L a r"
      using pj \<open>a \<in># M\<close> by (simp add: projects_def)
    ultimately show ?thesis by simp
  qed
  have "bt_ok L ?levels" using lv(2) by (simp add: bt_ok_put bt_ok_remove)
  then have oks: "bt_ok L (mb_levels buy (book_or_default pair ?pj))" for pair buy
    using pj by (simp only: projects_def book_or_default_simps mb_levels_set split: if_split) simp
  have gets: "bt_get L x (mb_levels buy (book_or_default pair ?pj)) =
      (if open_total L ?M pair buy x = 0 then None else Some (open_total L ?M pair buy x))" for pair buy x
  proof (cases "pair = ?pair \<and> buy = ?buy \<and> dec_eq L x ?x")
    case True
    then have "open_total L ?M pair buy x = ?total - n"
      unfolding total' using open_total_cong [of x ?x "add_mset e M"] by (simp add: dec_simps)
    with True lv(2) show ?thesis by (simp add: bt_get_put bt_get_remove)
  next
    case False
    then have "bt_get L x (mb_levels buy (book_or_default pair ?pj)) = bt_get L x (mb_levels buy (book_or_default pair pj))"
      using lv(2) by (auto simp: bt_get_put bt_get_remove)
    moreover have "open_total L ?M pair buy x = open_total L (add_mset e M) pair buy x" unfolding total' using False by auto
    ultimately show ?thesis using pj by (simp only: projects_def)
  qed
  have "projects L ?M ?pj"
    unfolding projects_def using ids ords oks gets by simp
  with run show ?thesis by blast
qed

text \<open>A limit order that is not filled at once is shown with what it leaves open.\<close>

lemma rest_projects:
  assumes pj: "projects L M pj" and fresh: "o_id e \<notin> o_id ` set_mset M" and price: "o_price e = Some price"
    and v: "units L v = Inr (entry_open L e)" "0 < entry_open L e" and e: "same_order o' e"
  shows "\<exists>pj'. rest_order L o' (entry_pair o') v pj = Inr pj' \<and> projects L (add_mset e M) pj'"
proof -
  let ?pair = "entry_pair e" and ?buy = "entry_buy e"
  let ?book = "book_or_default ?pair pj" and ?total = "open_total L M ?pair ?buy price"
  have o': "o_id o' = o_id e" "entry_pair o' = ?pair" "entry_buy o' = ?buy" "o_price o' = Some price"
    using e price by (simp_all add: same_order_def)
  have lv: "bt_get L price (mb_levels ?buy ?book) = (if ?total = 0 then None else Some ?total)" "bt_ok L (mb_levels ?buy ?book)"
    using pj by (simp_all add: projects_def)
  have none: "hm_get (pj_orders pj) (o_id e) = None" using pj fresh by (simp add: projects_def)
  let ?r = "\<lparr>rs_pair = ?pair, rs_buy = ?buy, rs_price = price, rs_remaining = v\<rparr>"
  let ?levels = "bt_put L price (?total + entry_open L e) (mb_levels ?buy ?book)"
  let ?orders = "hm_insert (o_id e) ?r (pj_orders pj)"
  let ?pj = "pj\<lparr>pj_orders := ?orders, pj_books := hm_insert ?pair (mb_set_levels ?buy ?levels ?book) (pj_books pj)\<rparr>"
  have "(case bt_get L price (mb_levels ?buy ?book) of None \<Rightarrow> 0 | Some n \<Rightarrow> n) = ?total" by (simp add: lv(1))
  then have run: "rest_order L o' (entry_pair o') v pj = Inr ?pj"
    using o' none v(1) by (simp add: rest_order_def Let_def entry_buy_def [symmetric])
  have total': "open_total L (add_mset e M) pair buy x =
      open_total L M pair buy x + (if pair = ?pair \<and> buy = ?buy \<and> dec_eq L x price then entry_open L e else 0)" for pair buy x
    using price by (auto simp: open_at_def dec_simps)
  have ids: "hm_get ?orders i = None \<longleftrightarrow> i \<notin> o_id ` set_mset (add_mset e M)" for i
    using pj by (auto simp: projects_def)
  have ords: "\<exists>r. hm_get ?orders (o_id a) = Some r \<and> shown L a r" if "a \<in># add_mset e M" for a
  proof (cases "a = e")
    case True
    with v price show ?thesis by (simp add: shown_def dec_simps)
  next
    case False
    with that have a: "a \<in># M" by simp
    then have "o_id a \<noteq> o_id e" using fresh by (metis imageI)
    moreover have "\<exists>r. hm_get (pj_orders pj) (o_id a) = Some r \<and> shown L a r" using pj a by (simp add: projects_def)
    ultimately show ?thesis by simp
  qed
  have oks: "bt_ok L (mb_levels buy (book_or_default pair ?pj))" for pair buy
    using pj bt_ok_put [OF lv(2)] by (simp only: projects_def book_or_default_simps mb_levels_set split: if_split) simp
  have gets: "bt_get L x (mb_levels buy (book_or_default pair ?pj)) =
      (if open_total L (add_mset e M) pair buy x = 0 then None else Some (open_total L (add_mset e M) pair buy x))" for pair buy x
  proof (cases "pair = ?pair \<and> buy = ?buy \<and> dec_eq L x price")
    case True
    then have "open_total L (add_mset e M) pair buy x = ?total + entry_open L e"
      unfolding total' using open_total_cong [of x price M] by (simp add: dec_simps)
    with True lv(2) v(2) open_total_nonneg [of M ?pair ?buy price] show ?thesis by (simp add: bt_get_put)
  next
    case False
    then have "bt_get L x (mb_levels buy (book_or_default pair ?pj)) = bt_get L x (mb_levels buy (book_or_default pair pj))"
      using lv(2) by (auto simp: bt_get_put)
    moreover have "open_total L (add_mset e M) pair buy x = open_total L M pair buy x" unfolding total' using False by auto
    ultimately show ?thesis using pj by (simp only: projects_def)
  qed
  have "projects L (add_mset e M) ?pj" unfolding projects_def using ids ords oks gets by simp
  with run show ?thesis by blast
qed

text \<open>The trades of an order take their quantities from the makers one after the other.\<close>

lemma maker_id_fill:
  assumes "o_order_type (p_order plan) = o_order_type o'" "p_maker_buy plan = (o_order_type o' = ''sell'')"
    "o_order_type o' \<in> {''buy'', ''sell''}"
  shows "maker_id o' (fill_match plan f) = o_id (f_maker f)"
  using assms by (auto simp: maker_id_def fill_match_def plan_match_def Let_def)

lemma fill_entry:
  assumes "fill_ok L plan f"
  shows "same_order (f_maker f) (f_after f)" "units L (f_quantity f) = Inr (fill_amount L f)"
    "units L (o_remaining_amount (f_after f)) = Inr (entry_open L (f_maker f) - fill_amount L f)"
    "alive L (f_after f) \<longleftrightarrow> 0 < entry_open L (f_after f)" "0 < fill_amount L f"
proof -
  have fm: "filled_maker L (f_maker f) (fill_amount L f) (f_after f)" and q: "is_ok (quote L (f_price f) (f_quantity f))"
    and pos: "0 < fill_amount L f"
    using assms by (simp_all add: fill_ok_def)
  show "same_order (f_maker f) (f_after f)"
    using filled_maker_frame [OF fm] by (simp add: same_order_def entry_pair_def entry_buy_def)
  show "units L (f_quantity f) = Inr (fill_amount L f)"
    using q quote_units(4) [of "f_price f" "f_quantity f"] by (auto simp: is_ok_iff fill_amount_def)
  show "units L (o_remaining_amount (f_after f)) = Inr (entry_open L (f_maker f) - fill_amount L f)"
    using fm by (auto simp: filled_maker_def entry_open_def is_ok_iff)
  then show "alive L (f_after f) \<longleftrightarrow> 0 < entry_open L (f_after f)"
    using units_sign(2) by (simp add: alive_def entry_open_def dec_simps)
qed (use assms in \<open>simp add: fill_ok_def\<close>)

lemma fills_project:
  assumes "projects L M pj" "unique_ids M" "list_all (fill_ok L plan) fs"
    "mset (map f_maker fs) \<subseteq># M" "M' + mset (map f_maker fs) = M + mset (filter (alive L) (map f_after fs))"
    "map to_trade outs = map (fill_match plan) fs" "totals_ok L n fs" "units L filled = Inr n"
    and makers: "\<And>f. maker_id o' (fill_match plan f) = o_id (f_maker f)"
  shows "\<exists>pj' v. res_fold (reduce_trade L o') outs (pj, filled) = Inr (pj', v) \<and> projects L M' pj' \<and>
    units L v = Inr (n + sum_list (map (fill_amount L) fs))"
  using assms(1-8)
proof (induction fs arbitrary: M pj outs n filled)
  case (Cons f fs)
  let ?e = "f_maker f" and ?e' = "f_after f"
  have fok: "fill_ok L plan f" using Cons.prems(3) by simp
  note fe = fill_entry [OF fok]
  obtain out outs' where outs: "outs = out # outs'" "to_trade out = fill_match plan f"
    "map to_trade outs' = map (fill_match plan) fs"
    using Cons.prems(6) by (cases outs) auto
  have amt: "m_amount (fill_match plan f) = f_quantity f" by (simp add: fill_match_def plan_match_def Let_def)
  obtain N where M: "M = add_mset ?e N" using Cons.prems(4) by (metis insert_subset_eq_iff list.simps(9) mset.simps(2) multi_member_split)
  then have sub: "mset (map f_maker fs) \<subseteq># N" using Cons.prems(4) by simp
  have fresh: "o_id ?e \<notin> o_id ` set_mset N" and dN: "unique_ids N"
    using Cons.prems(2) by (simp_all add: M unique_ids_add)
  let ?M = "if 0 < entry_open L ?e' then add_mset ?e' N else N"
  obtain pj1 where pj1: "reduce L (o_id ?e) (f_quantity f) pj = Inr pj1" "projects L ?M pj1"
    using reduce_projects [OF Cons.prems(1) [unfolded M] fresh fe(2,5,1,3)] by blast
  obtain v where v: "units L v = Inr (n + fill_amount L f)" using Cons.prems(7) by auto
  obtain w where w: "add L filled (f_quantity f) = Inr w" "units L w = Inr (n + fill_amount L f)"
    by (rule add_defined [OF Cons.prems(8) fe(2) v])
  have step: "reduce_trade L o' out (pj, filled) = Inr (pj1, w)"
    by (simp add: reduce_trade_def outs(2) makers amt pj1(1) w(1))
  have "o_id ?e' = o_id ?e" using fe(1) by (simp add: same_order_def)
  then have "unique_ids ?M" using fresh dN by (simp add: unique_ids_add)
  moreover have "M' + mset (map f_maker fs) = ?M + mset (filter (alive L) (map f_after fs))"
    using Cons.prems(5) fe(4) by (auto simp: M)
  moreover have "mset (map f_maker fs) \<subseteq># ?M" using sub by (auto intro: subset_mset.add_increasing2 subset_mset.order_trans)
  ultimately show ?case
    using Cons.IH [OF pj1(2) _ _ _ _ outs(3) _ w(2)] Cons.prems(3,7) step by (simp add: outs(1) add.assoc)
qed simp

lemma fills_ids:
  assumes "list_all (fill_ok L plan) fs" "mset (map f_maker fs) \<subseteq># M"
    "M1 + mset (map f_maker fs) = M + mset (filter (alive L) (map f_after fs))"
  shows "o_id ` set_mset M1 \<subseteq> o_id ` set_mset M"
proof -
  have "image_mset o_id M1 + image_mset o_id (mset (map f_maker fs)) \<subseteq>#
      image_mset o_id M + image_mset o_id (mset (map f_maker fs))"
    using filled_ids [OF assms(1)] arg_cong [OF assms(3), of "image_mset o_id"]
    by (metis image_mset_union subset_mset.add_le_cancel_left)
  then have "image_mset o_id M1 \<subseteq># image_mset o_id M" by simp
  then show ?thesis by (metis set_image_mset set_mset_mono)
qed

lemma submit_projects:
  assumes b: "books_ok L books" and fresh: "o_id o' \<notin> o_id ` set (all_entries books)"
    and run: "submission_apply L o' books ex = Inr (applied, books', ex')"
    and uniq: "distinct (map o_id (all_entries books))" and pj: "projects L (mset (all_entries books)) pj"
    and outs: "map to_trade outs = as_matches applied"
  shows "\<exists>pj'. project_submitted L o' outs pj = Inr pj' \<and> projects L (mset (all_entries books')) pj'"
proof -
  let ?M = "mset (all_entries books)" and ?plan0 = "initial_plan L o'"
  obtain plan fs where lg: "logged L ?plan0 fs plan" and pok: "plan_ok L plan" and v: "validate L o' True = Inr ()"
    and ms: "as_matches applied = map (fill_match ?plan0) fs" and sub: "mset (map f_maker fs) \<subseteq># ?M"
    and eq: "mset (all_entries books') + mset (map f_maker fs) =
      ?M + mset (filter (alive L) (map f_after fs)) + (if rests L plan then {#p_order plan#} else {#})"
    by (rule submission_fills [OF b fresh run]) (rule that)
  define M1 where "M1 = ?M - mset (map f_maker fs) + mset (filter (alive L) (map f_after fs))"
  have M1: "M1 + mset (map f_maker fs) = ?M + mset (filter (alive L) (map f_after fs))"
    unfolding M1_def using subset_mset.diff_add [OF sub] by (simp add: add.commute add.left_commute)
  have M': "mset (all_entries books') = M1 + (if rests L plan then {#p_order plan#} else {#})"
    using eq M1 by (metis (no_types, lifting) add.assoc add.commute add_right_cancel)
  let ?n = "sum_list (map (fill_amount L) fs)"
  have fr: "plan_frame ?plan0 plan" and fok: "list_all (fill_ok L ?plan0) fs" and tot: "totals_ok L 0 fs"
    using lg zero_units by (simp_all add: logged_def initial_plan_def)
  have mk: "maker_id o' (fill_match ?plan0 f) = o_id (f_maker f)" for f
    using validate_facts(3) [OF v] by (intro maker_id_fill) (auto simp: initial_plan_def)
  obtain pj1 w where pj1: "res_fold (reduce_trade L o') outs (pj, dec_zero L) = Inr (pj1, w)" "projects L M1 pj1"
    "units L w = Inr ?n"
    using fills_project [OF pj _ fok sub M1 outs [unfolded ms] tot zero_units mk] uniq by (auto simp: unique_ids_mset)
  note step = pj1(1) project_submitted_def Let_def entry_pair_def [symmetric]
  show ?thesis
  proof (cases "o_order_side o' = ''limit''")
    case False
    have "o_order_side (p_order plan) = o_order_side o'" using plan_frame_simps [OF fr] by (simp add: initial_plan_def)
    with False have "\<not> rests L plan" by (simp add: rests_def)
    with False pj1(2) M' show ?thesis by (simp add: step)
  next
    case True
    then have nk: "\<not> (o_order_side o' = ''market'' \<and> o_order_type o' = ''buy'')" by simp
    note vq = validate_quantity_facts [OF v nk]
    have p: "p_order ?plan0 = o'" by (simp add: initial_plan_def)
    have z: "units_of L (o_filled_amount o') = 0" using validate_facts(6) [OF v] zero_ok by simp
    have un: "units L (o_amount o') = Inr (units_of L (o_remaining_amount o'))"
      using vq(4,5) z by (auto simp: is_ok_iff)
    have mv: "o_remaining_quote_amount (p_order plan) = None" 
      "units_of L (o_remaining_amount (p_order plan)) = units_of L (o_remaining_amount o') - ?n"
      using lg vq(6) by (simp_all add: logged_def order_moved_def p)
    then have un': "units L (o_remaining_amount (p_order plan)) = Inr (units_of L (o_remaining_amount o') - ?n)"
      using pok by (auto simp: plan_ok_def is_ok_iff)
    obtain d where d: "subtract L (o_amount o') w = Inr d" "units L d = Inr (units_of L (o_remaining_amount o') - ?n)"
      by (rule subtract_defined [OF un pj1(3) un'])
    have open': "entry_open L (p_order plan) = units_of L (o_remaining_amount o') - ?n" using mv(2) by (simp add: entry_open_def)
    have fr': "same_order o' (p_order plan)" "o_order_side (p_order plan) = ''limit''" "o_id (p_order plan) = o_id o'"
      "o_price (p_order plan) = o_price o'"
      using plan_frame_simps [OF fr] True by (simp_all add: p same_order_def entry_pair_def entry_buy_def)
    have lt: "dec_lt L (dec_zero L) d \<longleftrightarrow> rests L plan" "rests L plan \<longleftrightarrow> 0 < entry_open L (p_order plan)"
      using units_sign(2) [OF d(2)] units_sign(2) [OF un'] fr'(2) open' by (simp_all add: rests_def alive_def dec_simps)
    show ?thesis
    proof (cases "rests L plan")
      case False
      with True lt pj1(2) d(1) M' show ?thesis by (simp add: step)
    next
      case rest: True
      obtain price where "o_price o' = Some price" using vq(8) [OF True] by blast
      moreover have "o_id (p_order plan) \<notin> o_id ` set_mset M1"
        using fills_ids [OF fok sub M1] fresh fr'(3) by auto
      ultimately obtain pj2 where "rest_order L o' (entry_pair o') d pj1 = Inr pj2" "projects L (add_mset (p_order plan) M1) pj2"
        using rest_projects [OF pj1(2) _ _ _ _ fr'(1)] d(2) open' lt(2) rest fr'(4) by fastforce
      with True rest lt d(1) M' show ?thesis by (simp add: step)
    qed
  qed
qed

lemma cancel_projects:
  assumes c: "cache_ok L (balance_cache ex)" and b: "books_ok L books"
    and run: "cancel_order L i u pair books ex = Inr (found, books', ex')"
    and uniq: "distinct (map o_id (all_entries books))" and pj: "projects L (mset (all_entries books)) pj"
  shows "\<exists>pj'. reduce L (o_id found) (o_remaining_amount found) pj = Inr pj' \<and> projects L (mset (all_entries books')) pj'"
proof -
  let ?z = "found\<lparr>o_remaining_amount := dec_zero L\<rparr>"
  note m = cancel_order_Inr(7) [OF c b run]
  have pj': "projects L (add_mset found (mset (all_entries books'))) pj" using pj m by simp
  have fresh: "o_id found \<notin> o_id ` set_mset (mset (all_entries books'))"
    using uniq m by (simp add: unique_ids_mset [symmetric] unique_ids_add)
  have pos: "0 < entry_open L found" using pj' by (auto simp: projects_def shown_def)
  then have q: "units L (o_remaining_amount found) = Inr (entry_open L found)"
    by (auto simp: entry_open_def units_of_def split: sum.splits)
  have z: "same_order found ?z" "units L (o_remaining_amount ?z) = Inr (entry_open L found - entry_open L found)"
    using zero_units by (simp_all add: same_order_def entry_pair_def entry_buy_def)
  have "entry_open L ?z = 0" using zero_units by (simp add: entry_open_def)
  with reduce_projects [OF pj' fresh q pos z] show ?thesis by simp
qed

end

section \<open>The projection of the journal\<close>

fun moves_book :: "'d Outcome \<Rightarrow> bool" where
  "moves_book (Applied (Some (Submitted _ _ _))) \<longleftrightarrow> True"
| "moves_book (Applied (Some (BatchCancelled _))) \<longleftrightarrow> True"
| "moves_book _ \<longleftrightarrow> False"

lemma failed_keeps_book [simp]: "\<not> moves_book (outcome_of (Inl e))" "\<not> moves_book (outcome_of (Inr None))"
  by (cases e) simp_all

lemma projection_apply_other: "\<not> moves_book (rec_outcome r) \<Longrightarrow> projection_apply L show r i pj = Inr (pj, None)"
  by (cases "rec_outcome r" rule: moves_book.cases) (simp_all add: projection_apply_def split: Command.split)

context decimal_library
begin

lemma journal_books:
  assumes ok: "engine_ok L st" and run: "journal_apply L st command = Inr (st', out)"
  obtains (same) "orderbooks st' = orderbooks st" "\<not> moves_book out"
  | (submit) order applied trades where "command = Submit order" "hm_get (submissions st) (o_id order) = None"
      "submission_apply L order (orderbooks st) (executor st) = Inr (applied, orderbooks st', executor st')"
      "out = Applied (Some (Submitted (as_order_id applied) trades (as_completion applied)))"
      "map to_trade trades = as_matches applied"
  | (cancel) i u pair found where "command = Cancel i u pair"
      "cancel_order L i u pair (orderbooks st) (executor st) = Inr (found, orderbooks st', executor st')"
      "out = Applied (Some (BatchCancelled found))"
proof -
  note c = engine_okD(1,2) [OF ok]
  from journal_apply_cases [OF ok, of command] run
  consider "recorded_cancellation st command = Some out" "st' = st"
    | r where "execute L st command = (st', r)" "out = outcome_of r"
    by auto
  then show thesis
  proof cases
    case 1
    then have "\<not> moves_book out"
      by (auto simp: recorded_cancellation_def split: Command.splits option.splits if_splits)
    with 1 show thesis by (intro same) simp_all
  next
    case (2 r)
    show thesis
    proof (cases command)
      case (Withdrawal w)
      with 2 show thesis
        by (intro same) (auto simp: withdrawal_apply_def Let_def split: sum.splits proceed.splits failure.splits if_splits)
    next
      case (CreditDeposit d)
      with 2 show thesis
        by (intro same) (auto simp: deposit_apply_def ensure_def Let_def split: option.splits sum.splits failure.splits if_splits)
    next
      case (Submit order)
      show thesis
      proof (cases "hm_get (submissions st) (o_id order)")
        case None
        show thesis
        proof (cases "submission_apply L order (orderbooks st) (executor st)")
          case (Inl e)
          with None 2 Submit submission_never_Panic [OF c(2) engine_okD(3) [OF ok None]] show thesis
            by (intro same) (auto simp: execute_submit_def Let_def split: failure.splits)
        next
          case (Inr res)
          obtain applied books ex where res: "res = (applied, books, ex)" by (cases res) auto
          obtain trades where "submitted L applied = Inr (Submitted (as_order_id applied) trades (as_completion applied))"
            "map to_trade trades = as_matches applied"
            by (rule submitted_Inr [OF Inr [unfolded res]])
          with Submit None Inr res 2 show thesis by (intro submit) (auto simp: execute_submit_def Let_def)
        qed
      qed (use 2 Submit in \<open>intro same; auto simp: execute_submit_def ensure_def split: if_splits\<close>)
    next
      case (Cancel i u pair)
      with 2 show thesis
        by (cases "cancel_order L i u pair (orderbooks st) (executor st)")
          (auto simp: execute_cancel_def intro: same cancel)
    qed (use 2 in \<open>(intro same; auto simp: execute_balance_def execute_executor_def Let_def split: sum.splits)+\<close>)
  qed
qed

lemma projection_step:
  assumes ok: "engine_ok L st" and run: "journal_apply L st (rec_command r) = Inr (st', rec_outcome r)"
    and pj: "projects L (mset (all_entries (orderbooks st))) pj"
  shows "\<exists>pj' event. projection_apply L show r engine_id pj = Inr (pj', event) \<and>
    projects L (mset (all_entries (orderbooks st'))) pj'"
  using ok run
proof (cases rule: journal_books)
  case same
  with pj projection_apply_other show ?thesis by fastforce
next
  case (submit order applied trades)
  note c = engine_okD(2) [OF ok] engine_okD(3) [OF ok submit(2)] engine_okD(4) [OF ok]
  obtain pj1 where pj1: "project_submitted L order trades pj = Inr pj1" "projects L (mset (all_entries (orderbooks st'))) pj1"
    using submit_projects [OF c(1,2) submit(3) c(3) pj submit(5)] by blast
  show ?thesis
    using pj1(1) submit(1,4) publish_book_projects [OF pj1(2)] by (simp add: projection_apply_def prod_eq_iff)
next
  case (cancel i u pair found)
  note c = engine_okD(1,2) [OF ok] engine_okD(4) [OF ok]
  obtain pj1 where pj1: "reduce L (o_id found) (o_remaining_amount found) pj = Inr pj1"
    "projects L (mset (all_entries (orderbooks st'))) pj1"
    using cancel_projects [OF c(1,2) cancel(2) c(3) pj] by blast
  show ?thesis
    using pj1(1) cancel(1,3) publish_book_projects [OF pj1(2)] by (simp add: projection_apply_def prod_eq_iff)
qed

lemma projection_history:
  assumes "engine_ok L st" "run_commands L (map rec_command records) st = Inr (st', map rec_outcome records)"
    "projects L (mset (all_entries (orderbooks st))) pj"
  shows "\<exists>pj'. res_fold (\<lambda>r pj. map_sum id fst (projection_apply L show r engine_id pj)) records pj = Inr pj' \<and>
    projects L (mset (all_entries (orderbooks st'))) pj'"
  using assms
proof (induction records arbitrary: st pj)
  case (Cons r records)
  obtain st1 where run: "journal_apply L st (rec_command r) = Inr (st1, rec_outcome r)"
    "run_commands L (map rec_command records) st1 = Inr (st', map rec_outcome records)"
    using Cons.prems(2) by (auto simp: res_bind_Inr_iff)
  obtain pj1 event where pj1: "projection_apply L show r engine_id pj = Inr (pj1, event)"
    "projects L (mset (all_entries (orderbooks st1))) pj1"
    using projection_step [OF Cons.prems(1) run(1) Cons.prems(3)] by blast
  from Cons.IH [OF journal_apply_kept(2) [OF Cons.prems(1) run(1)] run(2) pj1(2)] pj1(1) show ?case by simp
qed simp

end

section \<open>The public text of a quantity\<close>

text \<open>The public text of a quantity is the text of the amount, so it reads back as exactly that amount.\<close>

lemma quantity_text_amount:
  assumes "0 \<le> n"
  shows "quantity_text n = decimal_text n"
proof (cases "n < FACTOR")
  case True
  then have "length (nat_str n) \<le> 9" using length_nat_str [of n 9] by (simp add: FACTOR_def)
  then have "replicate (10 - length (nat_str n)) (CHR ''0'') @ nat_str n = CHR ''0'' # zero_padded 9 n"
    using assms Suc_diff_le [of "length (nat_str n)" 9] by (simp add: zero_padded_def)
  moreover have "length (zero_padded 9 n) = 9" using True assms length_zero_padded [of n 9] by (simp add: FACTOR_def)
  ultimately show ?thesis
    using True assms \<open>length (nat_str n) \<le> 9\<close> by (simp add: nat_str_zero quantity_text_def decimal_text_def int_str_def Let_def)
next
  case False
  then have split: "nat_str n = nat_str (n div FACTOR) @ zero_padded 9 (n mod FACTOR)"
    using nat_str_split [of 8 n] by (simp add: FACTOR_def)
  have len: "length (zero_padded 9 (n mod FACTOR)) = 9" by (rule length_zero_padded) (simp_all add: FACTOR_def)
  have "\<not> length (nat_str n) \<le> 9" using nat_str_nonempty [of "n div FACTOR"] by (simp add: split len)
  then show ?thesis
    using assms by (simp add: quantity_text_def decimal_text_def int_str_def Let_def split len pos_imp_zdiv_neg_iff)
qed


context decimal_library
begin

lemma quantity_text_reads_back:
  assumes "units L d = Inr n"
  shows "\<exists>d'. dec_from_str_exact L (quantity_text n) = Some d' \<and> dec_val L d' = dec_val L d"
proof -
  have "0 \<le> n" using assms by (simp add: units_Inr_iff)
  with decimal_of_units [OF assms] show ?thesis by (auto simp: quantity_text_amount decimal_def ok_or_Inr_iff)
qed

end

section \<open>Properties\<close>

text \<open>
  C27. The public market data follow the engine. Replaying the confirmed records of any history that
  starts with empty books, the projection never fails: it ends with exactly the resting orders of the
  engine, and the quantity it publishes at a price of a side of a market is the sum of the open
  quantities of the orders that rest there (a level without orders is absent).
\<close>

theorem projection_follows_engine:
  assumes "decimal_library L" "engine_ok L st" "orderbooks st = []"
    "run_commands L (map rec_command records) st = Inr (st', map rec_outcome records)"
  shows "\<exists>pj. res_fold (\<lambda>r pj. map_sum id fst (projection_apply L show r engine_id pj)) records Projection_default = Inr pj \<and>
    projects L (mset (all_entries (orderbooks st'))) pj"
proof -
  have "projects L (mset (all_entries (orderbooks st))) Projection_default"
    using projects_default assms(3) by (simp add: all_entries_def)
  from decimal_library.projection_history [OF assms(1,2,4) this] show ?thesis .
qed

definition sample_records :: "refdec Record list" where
  "sample_records =
     (let commands = [Submit (sample_order 60 2 ''sell'' 100 3), Submit (sample_order 61 1 ''buy'' 100 1)] in
      case run_commands ref_decimal commands (EngineState_new\<lparr>executor := sample_executor\<rparr>) of
        Inl _ \<Rightarrow> []
      | Inr (_, outs) \<Rightarrow>
          map (\<lambda>(c, out). \<lparr>rec_sequence = 1, rec_timestamp = 0, rec_command = c, rec_outcome = out\<rparr>) (zip commands outs))"

theorem projection_follows_engine_witness:
  "length sample_records = 2 \<and>
   (\<exists>st' pj. run_commands ref_decimal (map rec_command sample_records) (EngineState_new\<lparr>executor := sample_executor\<rparr>) =
        Inr (st', map rec_outcome sample_records) \<and>
      res_fold (\<lambda>r pj. map_sum id fst (projection_apply ref_decimal (\<lambda>_. ''x'') r ''e'' pj)) sample_records
        Projection_default = Inr pj \<and>
      projects ref_decimal (mset (all_entries (orderbooks st'))) pj)"
proof -
  let ?st = "EngineState_new\<lparr>executor := sample_executor\<rparr>"
  have ok: "engine_ok ref_decimal ?st" by code_simp
  have len: "length sample_records = 2" by code_simp
  have "case run_commands ref_decimal (map rec_command sample_records) ?st of
      Inl _ \<Rightarrow> False | Inr (s, outs) \<Rightarrow> outs = map rec_outcome sample_records"
    by code_simp
  then obtain st' where "run_commands ref_decimal (map rec_command sample_records) ?st = Inr (st', map rec_outcome sample_records)"
    by (auto split: sum.splits)
  with len projection_follows_engine [OF refd.decimal_library_axioms ok _ this] show ?thesis
    by (auto simp: EngineState_new_def)
qed

end
