(* ===== verification/Events.thy ===== *)
theory Events
  imports Market
begin

text \<open>
  The events of a confirmed result and how they reach the broker: the event structures
  (\<open>shared/kafka/events.rs\<close>), the producer (\<open>shared/kafka/producer.rs\<close>) and \<open>Position\<close>,
  \<open>visit_events\<close>, \<open>encode\<close> and \<open>deliver\<close> of \<open>runtime/output.rs\<close>.

  The JSON text of an event is the parameter \<open>json\<close> (\<open>Inl\<close> when serialising fails). The Kafka
  client is the parameter \<open>send\<close> on a state of the broker: it returns the state after the delivery
  was confirmed or refused, and the error. A refused delivery keeps its effects, so an operation
  returns the state beside its result.
\<close>

section \<open>Event structures\<close>

record 'd TradeExecutedEvent =
  te_event_id :: string
  te_engine_id :: string
  te_event_type :: string
  te_buy_order_id :: u64
  te_sell_order_id :: u64
  te_buyer_id :: u64
  te_seller_id :: u64
  te_price :: 'd
  te_amount :: 'd
  te_base_mint :: string
  te_quote_mint :: string
  te_timestamp :: datetime
  te_buyer_fee_rate :: 'd
  te_seller_fee_rate :: 'd
  te_buyer_fee :: 'd
  te_seller_fee :: 'd

record OrderCancelledEvent =
  ce_event_id :: string
  ce_engine_id :: string
  ce_event_type :: string
  ce_order_id :: u64
  ce_user_id :: u64
  ce_base_mint :: string
  ce_quote_mint :: string
  ce_timestamp :: datetime

record 'd MarketOrderCompletedEvent =
  me_event_id :: string
  me_engine_id :: string
  me_event_type :: string
  me_timestamp :: datetime
  me_result :: "'d MarketCompletion"

record 'd OrderRejectedEvent =
  re_event_id :: string
  re_engine_id :: string
  re_event_type :: string
  re_order_id :: u64
  re_user_id :: u64
  re_order_type :: string
  re_order_side :: string
  re_base_mint :: string
  re_quote_mint :: string
  re_price :: "'d option"
  re_amount :: "'d option"
  re_quote_amount :: "'d option"
  re_fee_rate :: 'd
  re_reason_code :: string
  re_timestamp :: datetime

text \<open>The objects that \<open>visit_events\<close> builds in place for deposits and withdrawals.\<close>

record 'd FundsEvent =
  fe_event_id :: string
  fe_engine_id :: string
  fe_event_type :: string
  fe_id :: uuid
  fe_user_id :: u64
  fe_asset :: string
  fe_amount :: 'd
  fe_reason_code :: "string option"
  fe_timestamp :: datetime

datatype 'd Event =
    TradeExecuted "'d TradeExecutedEvent"
  | OrderCancelled OrderCancelledEvent
  | MarketOrderCompleted "'d MarketOrderCompletedEvent"
  | OrderRejected "'d OrderRejectedEvent"
  | WithdrawalEvent "'d FundsEvent"
  | DepositEvent "'d FundsEvent"

record Position =
  pos_engine_id :: string
  pos_sequence :: int
  pos_timestamp :: datetime

record DeliveryError =
  de_next_event :: nat
  de_reason :: string

section \<open>The producer\<close>

type_synonym message = "string \<times> string option \<times> string"

type_synonym 'k sender = "message \<Rightarrow> 'k \<Rightarrow> 'k \<times> string option"

type_synonym 'e json = "'e \<Rightarrow> string + string"

definition publish_payload :: "'k sender \<Rightarrow> string \<Rightarrow> string option \<Rightarrow> string \<Rightarrow> 'k \<Rightarrow> 'k \<times> unit res" where
  "publish_payload send topic key text k =
     (case send (topic, key, text) k of
        (k', None) \<Rightarrow> (k', Inr ())
      | (k', Some e) \<Rightarrow> (k', Inl (Error (''Kafka delivery failed: '' @ e))))"

definition publish_financial_payload :: "'k sender \<Rightarrow> string \<Rightarrow> string \<Rightarrow> 'k \<Rightarrow> 'k \<times> unit res" where
  "publish_financial_payload send engine_id payload k = publish_payload send ''order-events'' (Some engine_id) payload k"

definition kafka_publish :: "'e json \<Rightarrow> 'k sender \<Rightarrow> string \<Rightarrow> string option \<Rightarrow> 'e \<Rightarrow> 'k \<Rightarrow> 'k \<times> unit res" where
  "kafka_publish json send topic key v k =
     (case json v of
        Inl e \<Rightarrow> (k, Inl (Error ''Failed to serialize event to JSON''))
      | Inr text \<Rightarrow> publish_payload send topic key text k)"

definition publish_market_snapshot :: "MarketSnapshot json \<Rightarrow> 'k sender \<Rightarrow> MarketSnapshot \<Rightarrow> 'k \<Rightarrow> 'k \<times> unit res" where
  "publish_market_snapshot json send event k =
     kafka_publish json send ''market-events'' (Some (ms_engine_id event)) event k"

section \<open>Events of a batch\<close>

type_synonym 's visit = "'s \<Rightarrow> 's \<times> (DeliveryError + unit)"

definition visit_then :: "'s visit \<Rightarrow> 's visit \<Rightarrow> 's visit" where
  "visit_then m k s = (case m s of (s', Inl e) \<Rightarrow> (s', Inl e) | (s', Inr _) \<Rightarrow> k s')"

definition visit_done :: "'s visit" where
  "visit_done s = (s, Inr ())"

definition encode :: "'e json \<Rightarrow> 'e \<Rightarrow> nat \<Rightarrow> DeliveryError + string" where
  "encode json v index =
     (case json v of Inl e \<Rightarrow> Inl \<lparr>de_next_event = index, de_reason = e\<rparr> | Inr text \<Rightarrow> Inr text)"

definition send_event :: "'e json \<Rightarrow> (nat \<Rightarrow> string \<Rightarrow> 's visit) \<Rightarrow> nat \<Rightarrow> 'e \<Rightarrow> 's visit" where
  "send_event json send index event s =
     (case encode json event index of Inl e \<Rightarrow> (s, Inl e) | Inr text \<Rightarrow> send index text s)"

definition output_id :: "Position \<Rightarrow> nat \<Rightarrow> string" where
  "output_id pos index = event_id (pos_engine_id pos) (pos_sequence pos) (nat_str (int index))"

definition trade_event :: "Position \<Rightarrow> nat \<Rightarrow> 'd TradeOutput \<Rightarrow> 'd Event" where
  "trade_event pos index output =
     (let t = to_trade output in
      TradeExecuted \<lparr>te_event_id = output_id pos index, te_engine_id = pos_engine_id pos, te_event_type = ''trade_executed'',
        te_buy_order_id = m_buy_order_id t, te_sell_order_id = m_sell_order_id t,
        te_buyer_id = m_buyer_id t, te_seller_id = m_seller_id t, te_price = m_price t, te_amount = m_amount t,
        te_base_mint = m_base_mint t, te_quote_mint = m_quote_mint t, te_timestamp = pos_timestamp pos,
        te_buyer_fee_rate = m_buyer_fee_rate t, te_seller_fee_rate = m_seller_fee_rate t,
        te_buyer_fee = to_buyer_fee output, te_seller_fee = to_seller_fee output\<rparr>)"

definition completion_event :: "Position \<Rightarrow> nat \<Rightarrow> 'd MarketCompletion \<Rightarrow> 'd Event" where
  "completion_event pos index completion =
     MarketOrderCompleted \<lparr>me_event_id = output_id pos index, me_engine_id = pos_engine_id pos,
       me_event_type = ''market_order_completed'', me_timestamp = pos_timestamp pos, me_result = completion\<rparr>"

definition rejected_event :: "Position \<Rightarrow> 'd OrderEntry \<Rightarrow> 'd Event" where
  "rejected_event pos order =
     (let budget_buy = (o_order_side order = ''market'' \<and> o_order_type order = ''buy'') in
      OrderRejected \<lparr>re_event_id = output_id pos 0, re_engine_id = pos_engine_id pos, re_event_type = ''order_rejected'',
        re_order_id = o_id order, re_user_id = o_user_id order, re_order_type = o_order_type order,
        re_order_side = o_order_side order, re_base_mint = o_base_mint order, re_quote_mint = o_quote_mint order,
        re_price = o_price order, re_amount = (if budget_buy then None else Some (o_amount order)),
        re_quote_amount = o_quote_amount order, re_fee_rate = o_fee_rate order,
        re_reason_code = ''ENGINE_EXECUTION_REJECTED'', re_timestamp = pos_timestamp pos\<rparr>)"

definition cancelled_event :: "Position \<Rightarrow> 'd OrderEntry \<Rightarrow> 'd Event" where
  "cancelled_event pos order =
     OrderCancelled \<lparr>ce_event_id = output_id pos 0, ce_engine_id = pos_engine_id pos, ce_event_type = ''order_cancelled'',
       ce_order_id = o_id order, ce_user_id = o_user_id order, ce_base_mint = o_base_mint order,
       ce_quote_mint = o_quote_mint order, ce_timestamp = pos_timestamp pos\<rparr>"

definition withdrawal_event :: "Position \<Rightarrow> string \<Rightarrow> string option \<Rightarrow> 'd WithdrawalFunds \<Rightarrow> 'd Event" where
  "withdrawal_event pos kind reason funds =
     WithdrawalEvent \<lparr>fe_event_id = output_id pos 0, fe_engine_id = pos_engine_id pos, fe_event_type = kind,
       fe_id = wf_withdrawal_id funds, fe_user_id = wf_user_id funds, fe_asset = wf_asset funds,
       fe_amount = wf_amount funds, fe_reason_code = reason, fe_timestamp = pos_timestamp pos\<rparr>"

definition deposit_event :: "Position \<Rightarrow> 'd DepositCredit \<Rightarrow> 'd Event" where
  "deposit_event pos credit =
     DepositEvent \<lparr>fe_event_id = output_id pos 0, fe_engine_id = pos_engine_id pos, fe_event_type = ''deposit_credited'',
       fe_id = dc_deposit_id credit, fe_user_id = dc_user_id credit, fe_asset = dc_asset credit,
       fe_amount = dc_amount credit, fe_reason_code = None, fe_timestamp = pos_timestamp pos\<rparr>"

fun visit_trades ::
    "'d Event json \<Rightarrow> (nat \<Rightarrow> string \<Rightarrow> 's visit) \<Rightarrow> Position \<Rightarrow> nat \<Rightarrow> 'd TradeOutput list \<Rightarrow> 's visit" where
  "visit_trades json send pos index [] = visit_done"
| "visit_trades json send pos index (output # trades) =
     visit_then (send_event json send index (trade_event pos index output)) (visit_trades json send pos (Suc index) trades)"

fun visit_events ::
    "'d Event json \<Rightarrow> (nat \<Rightarrow> string \<Rightarrow> 's visit) \<Rightarrow> 'd OutputBatch \<Rightarrow> Position \<Rightarrow> 's visit" where
  "visit_events json send (WithdrawalRejected funds reason) pos =
     send_event json send 0 (withdrawal_event pos ''withdrawal_rejected'' (Some ''RESERVATION_REJECTED'') funds)"
| "visit_events json send (WithdrawalChanged command) pos =
     send_event json send 0 (withdrawal_event pos (event_type (wc_action command)) None (wc_funds command))"
| "visit_events json send (DepositCredited credit) pos = send_event json send 0 (deposit_event pos credit)"
| "visit_events json send (BatchRejected order reason) pos = send_event json send 0 (rejected_event pos order)"
| "visit_events json send (Submitted order_id trades completion) pos =
     visit_then (visit_trades json send pos 0 trades)
       (case completion of
          None \<Rightarrow> visit_done
        | Some c \<Rightarrow> send_event json send (length trades) (completion_event pos (length trades) c))"
| "visit_events json send (BatchCancelled order) pos = send_event json send 0 (cancelled_event pos order)"

primrec failure_text :: "failure \<Rightarrow> string" where
  "failure_text (Error e) = e"
| "failure_text (Panic e) = e"

definition deliver_one :: "'k sender \<Rightarrow> string \<Rightarrow> nat \<Rightarrow> string \<Rightarrow> 'k visit" where
  "deliver_one send engine_id index payload k =
     (case publish_financial_payload send engine_id payload k of
        (k', Inr _) \<Rightarrow> (k', Inr ())
      | (k', Inl e) \<Rightarrow> (k', Inl \<lparr>de_next_event = index, de_reason = failure_text e\<rparr>))"

definition deliver :: "'d Event json \<Rightarrow> 'k sender \<Rightarrow> 'd OutputBatch \<Rightarrow> Position \<Rightarrow> 'k visit" where
  "deliver json send batch pos = visit_events json (deliver_one send (pos_engine_id pos)) batch pos"

section \<open>The visit as one list of events\<close>

text \<open>The events of a batch in order, and their identifiers.\<close>

fun batch_events :: "Position \<Rightarrow> 'd OutputBatch \<Rightarrow> 'd Event list" where
  "batch_events pos (WithdrawalRejected funds reason) =
     [withdrawal_event pos ''withdrawal_rejected'' (Some ''RESERVATION_REJECTED'') funds]"
| "batch_events pos (WithdrawalChanged command) =
     [withdrawal_event pos (event_type (wc_action command)) None (wc_funds command)]"
| "batch_events pos (DepositCredited credit) = [deposit_event pos credit]"
| "batch_events pos (BatchRejected order reason) = [rejected_event pos order]"
| "batch_events pos (Submitted order_id trades completion) =
     map (\<lambda>(i, output). trade_event pos i output) (enumerate 0 trades) @
     (case completion of None \<Rightarrow> [] | Some c \<Rightarrow> [completion_event pos (length trades) c])"
| "batch_events pos (BatchCancelled order) = [cancelled_event pos order]"

fun event_id_of :: "'d Event \<Rightarrow> string" where
  "event_id_of (TradeExecuted e) = te_event_id e"
| "event_id_of (OrderCancelled e) = ce_event_id e"
| "event_id_of (MarketOrderCompleted e) = me_event_id e"
| "event_id_of (OrderRejected e) = re_event_id e"
| "event_id_of (WithdrawalEvent e) = fe_event_id e"
| "event_id_of (DepositEvent e) = fe_event_id e"

fun visit_list :: "'e json \<Rightarrow> (nat \<Rightarrow> string \<Rightarrow> 's visit) \<Rightarrow> nat \<Rightarrow> 'e list \<Rightarrow> 's visit" where
  "visit_list json send index [] = visit_done"
| "visit_list json send index (e # es) =
     visit_then (send_event json send index e) (visit_list json send (Suc index) es)"

lemma visit_then_assoc: "visit_then (visit_then a b) c = visit_then a (visit_then b c)"
  by (rule ext) (simp add: visit_then_def split: prod.split sum.split)

lemma visit_then_done [simp]: "visit_then visit_done c = c" "visit_then c visit_done = c"
  by (rule ext; simp add: visit_then_def visit_done_def split: prod.split sum.split)+

lemma visit_list_append:
  "visit_list json send i (xs @ ys) = visit_then (visit_list json send i xs) (visit_list json send (i + length xs) ys)"
  by (induction xs arbitrary: i) (simp_all add: visit_then_assoc)

lemma visit_trades_list:
  "visit_trades json send pos i trades = visit_list json send i (map (\<lambda>(j, t). trade_event pos j t) (enumerate i trades))"
  by (induction trades arbitrary: i) simp_all

lemma visit_events_list: "visit_events json send batch pos = visit_list json send 0 (batch_events pos batch)"
proof (cases batch)
  case (Submitted order_id trades completion)
  then show ?thesis
    by (cases completion) (simp_all add: visit_trades_list visit_list_append)
qed simp_all

lemma batch_event_ids:
  "map event_id_of (batch_events pos batch) = map (output_id pos) [0..<length (batch_events pos batch)]"
proof (cases batch)
  case (Submitted order_id trades completion)
  have "map event_id_of (map (\<lambda>(i, t). trade_event pos i t) (enumerate n trades)) =
      map (output_id pos) [n..<n + length trades]" for n
    by (induction trades arbitrary: n) (simp_all add: trade_event_def Let_def upt_conv_Cons del: upt_Suc)
  from this [of 0] Submitted show ?thesis by (cases completion) (simp_all add: completion_event_def)
qed (simp_all add: withdrawal_event_def deposit_event_def rejected_event_def cancelled_event_def Let_def)

section \<open>A broker that confirms\<close>

text \<open>What the client promises: a confirmed send has reached the log, a refused one is not counted.\<close>

locale kafka_broker =
  fixes send :: "'k sender" and confirmed :: "'k \<Rightarrow> message list"
  assumes send_confirms: "send m k = (k', None) \<Longrightarrow> confirmed k' = confirmed k @ [m]"
    and send_refuses: "send m k = (k', Some e) \<Longrightarrow> confirmed k' = confirmed k"
begin

lemma publish_payload_confirmed:
  "publish_payload send topic key text k = (k', r) \<Longrightarrow>
   confirmed k' = confirmed k @ (case r of Inr _ \<Rightarrow> [(topic, key, text)] | Inl _ \<Rightarrow> [])"
  by (auto simp: publish_payload_def send_confirms send_refuses split: prod.splits option.splits)

lemma visit_confirmed:
  assumes "visit_list json (deliver_one send engine_id) i es k = (k', r)"
  shows "\<exists>texts. list_all2 (\<lambda>e t. json e = Inr t)
      (take (case r of Inr _ \<Rightarrow> length es | Inl e \<Rightarrow> de_next_event e - i) es) texts \<and>
    confirmed k' = confirmed k @ map (\<lambda>t. (''order-events'', Some engine_id, t)) texts \<and>
    (case r of Inr _ \<Rightarrow> True | Inl e \<Rightarrow> i \<le> de_next_event e \<and> de_next_event e < i + length es)"
  using assms
proof (induction es arbitrary: i k)
  case (Cons e es)
  show ?case
  proof (cases "json e")
    case (Inl msg)
    with Cons.prems show ?thesis by (auto simp: visit_then_def send_event_def encode_def)
  next
    case (Inr txt')
    obtain k1 r1 where one: "deliver_one send engine_id i txt' k = (k1, r1)" by fastforce
    then have c1: "confirmed k1 = confirmed k @ (case r1 of Inr _ \<Rightarrow> [(''order-events'', Some engine_id, txt')] | Inl _ \<Rightarrow> [])"
      by (auto simp: deliver_one_def publish_financial_payload_def dest: publish_payload_confirmed
          split: prod.splits sum.splits)
    show ?thesis
    proof (cases r1)
      case (Inl err)
      then have "de_next_event err = i"
        using one by (auto simp: deliver_one_def split: prod.splits sum.splits)
      with Inl Inr one c1 Cons.prems show ?thesis by (auto simp: visit_then_def send_event_def encode_def)
    next
      case ok: (Inr u)
      then have "visit_list json (deliver_one send engine_id) (Suc i) es k1 = (k', r)"
        using Cons.prems one Inr by (simp add: visit_then_def send_event_def encode_def)
      from Cons.IH [OF this] obtain texts where t: "list_all2 (\<lambda>e t. json e = Inr t)
          (take (case r of Inr _ \<Rightarrow> length es | Inl e \<Rightarrow> de_next_event e - Suc i) es) texts"
        "confirmed k' = confirmed k1 @ map (\<lambda>t. (''order-events'', Some engine_id, t)) texts"
        "case r of Inr _ \<Rightarrow> True | Inl e \<Rightarrow> Suc i \<le> de_next_event e \<and> de_next_event e < Suc i + length es" by blast
      with c1 ok Inr show ?thesis
        by (intro exI [of _ "txt' # texts"]) (auto simp: take_Cons' Suc_diff_le split: sum.splits)
    qed
  qed
qed (auto simp: visit_done_def)

end

text \<open>A broker that answers by a script: any sequence of confirmations and refusals.\<close>

record broker =
  brk_log :: "message list"
  brk_count :: nat
  brk_script :: "nat \<Rightarrow> string option"

definition scripted_send :: "broker sender" where
  "scripted_send m k =
     (case brk_script k (brk_count k) of
        None \<Rightarrow> (k\<lparr>brk_log := brk_log k @ [m], brk_count := Suc (brk_count k)\<rparr>, None)
      | Some e \<Rightarrow> (k\<lparr>brk_count := Suc (brk_count k)\<rparr>, Some e))"

interpretation scripted: kafka_broker scripted_send brk_log
  by unfold_locales (auto simp: scripted_send_def split: option.splits)

section \<open>Identifiers\<close>

lemma split_at_first:
  "c \<notin> set xs \<Longrightarrow> c \<notin> set ys \<Longrightarrow> xs @ c # us = ys @ c # vs \<longleftrightarrow> xs = ys \<and> us = vs"
proof (induction xs arbitrary: ys)
  case (Cons x xs)
  then show ?case by (cases ys) auto
qed (auto simp: Cons_eq_append_conv)

lemma nat_str_inject: "0 \<le> a \<Longrightarrow> 0 \<le> b \<Longrightarrow> nat_str a = nat_str b \<longleftrightarrow> a = b"
  by (metis digits_val_nat_str)

lemma nat_str_no_colon: "0 \<le> n \<Longrightarrow> CHR '':'' \<notin> set (nat_str n)"
  using nat_str_digits [of n] by (auto simp: list_all_iff is_ascii_digit_def)

lemma event_id_inject:
  assumes "CHR '':'' \<notin> set e" "CHR '':'' \<notin> set e'" "0 \<le> s" "0 \<le> s'"
  shows "event_id e s p = event_id e' s' p' \<longleftrightarrow> e = e' \<and> s = s' \<and> p = p'"
  using assms by (simp add: event_id_def split_at_first nat_str_no_colon nat_str_inject)

section \<open>Properties\<close>

text \<open>
  C29. A delivery confirms a prefix of the batch. The events of a confirmed result go to the broker
  in order. When the delivery succeeds, every event of the batch has been confirmed, on the financial
  topic and under the engine's key; when it fails, exactly the events before the reported index have.
\<close>

theorem deliver_confirms_prefix:
  assumes "kafka_broker send confirmed" "deliver json send batch pos k = (k', r)"
  shows "\<exists>texts. list_all2 (\<lambda>e t. json e = Inr t)
      (take (case r of Inr _ \<Rightarrow> length (batch_events pos batch) | Inl e \<Rightarrow> de_next_event e) (batch_events pos batch)) texts \<and>
    confirmed k' = confirmed k @ map (\<lambda>t. (''order-events'', Some (pos_engine_id pos), t)) texts \<and>
    (case r of Inr _ \<Rightarrow> True | Inl e \<Rightarrow> de_next_event e < length (batch_events pos batch))"
  using kafka_broker.visit_confirmed [OF assms(1), of json "pos_engine_id pos" 0 "batch_events pos batch" k k' r] assms(2)
  by (cases r) (simp_all add: deliver_def visit_events_list)

definition sample_position :: Position where
  "sample_position = \<lparr>pos_engine_id = ''e1'', pos_sequence = 7, pos_timestamp = 0\<rparr>"

definition sample_output :: "refdec TradeOutput" where
  "sample_output =
     \<lparr>to_trade = \<lparr>m_buyer_fee_rate = RefDec 0 0, m_seller_fee_rate = RefDec 0 0, m_buy_order_id = 1, m_sell_order_id = 2,
        m_buyer_id = 1, m_seller_id = 2, m_price = RefDec 100 0, m_amount = RefDec 1 0,
        m_base_mint = ''SOL'', m_quote_mint = ''USDT''\<rparr>,
      to_buyer_fee = RefDec 0 0, to_seller_fee = RefDec 0 0\<rparr>"

definition sample_batch :: "refdec OutputBatch" where
  "sample_batch = Submitted 1 [sample_output, sample_output] None"

definition sample_broker :: broker where
  "sample_broker = \<lparr>brk_log = [], brk_count = 0, brk_script = (\<lambda>n. if n = 1 then Some ''down'' else None)\<rparr>"

theorem deliver_confirms_prefix_witness:
  "\<exists>k' err. deliver (\<lambda>e. Inr (event_id_of e)) scripted_send sample_batch sample_position sample_broker = (k', Inl err) \<and>
     de_next_event err = 1 \<and> brk_log k' = [(''order-events'', Some ''e1'', ''e1:7:0'')]"
proof -
  obtain k' err where run: "deliver (\<lambda>e. Inr (event_id_of e)) scripted_send sample_batch sample_position sample_broker = (k', Inl err)"
    "de_next_event err = 1"
    by (simp add: deliver_def sample_batch_def visit_then_def send_event_def encode_def deliver_one_def
        publish_financial_payload_def publish_payload_def scripted_send_def sample_broker_def)
  have evs: "length (batch_events sample_position sample_batch) = 2" by (simp add: sample_batch_def)
  have first: "event_id_of (batch_events sample_position sample_batch ! 0) = ''e1:7:0''" by code_simp
  have log0: "brk_log sample_broker = []" "pos_engine_id sample_position = ''e1''"
    by (simp_all add: sample_broker_def sample_position_def)
  obtain texts where t: "list_all2 (\<lambda>e t. Inr (event_id_of e) = Inr t) (take 1 (batch_events sample_position sample_batch)) texts"
    "brk_log k' = brk_log sample_broker @ map (\<lambda>t. (''order-events'', Some (pos_engine_id sample_position), t)) texts"
    using deliver_confirms_prefix [OF scripted.kafka_broker_axioms run(1)] run(2) by auto
  have "take 1 (batch_events sample_position sample_batch) = [batch_events sample_position sample_batch ! 0]"
    using evs by (simp add: take_Suc_conv_app_nth)
  with t first have "texts = [''e1:7:0'']" by (auto simp: list_all2_Cons1)
  with t(2) run log0 show ?thesis by auto
qed



end
