(* ===== verification/Journal_Worker.thy ===== *)
theory Journal_Worker
  imports Journal_Store
begin

text \<open>
  The journal worker (\<open>Progress\<close>, \<open>FinishJournal\<close> and \<open>run\<close> of \<open>runtime/journal/store.rs\<close>): it takes
  groups of at most 256 items from the queue of the core, commits each group in one transaction, and
  only then publishes the durable sequence and sends the replies.

  The queue is shared with the core and the store with the output worker, so an iteration takes the
  queue as an argument. \<open>arrived\<close> is how many items had arrived when the group was taken; \<open>committed\<close>
  says whether SQLite committed the transaction. The drop guard runs when the worker stops.
\<close>

section \<open>Definitions\<close>

record Progress =
  durable :: int
  pg_delivered :: int
  journal_done :: bool

definition Progress_new :: "int \<Rightarrow> int \<Rightarrow> Progress" where
  "Progress_new d c = \<lparr>durable = d, pg_delivered = c, journal_done = False\<rparr>"

record 'd JournalWorker =
  jw_store :: Store
  jw_sequence :: int
  jw_progress :: Progress
  jw_closed :: bool
  jw_replies :: "(chan \<times> 'd Response) list"

datatype progress_flag = Continue | Stopped "unit res"

definition finish_journal :: "bool \<Rightarrow> 'd JournalWorker \<Rightarrow> 'd JournalWorker" where
  "finish_journal successful w =
     w\<lparr>jw_closed := (jw_closed w \<or> \<not> successful), jw_progress := (jw_progress w)\<lparr>journal_done := True\<rparr>\<rparr>"

definition journal_start :: "'d JournalWorker \<Rightarrow> 'd JournalWorker \<times> progress_flag" where
  "journal_start w =
     (case last_sequence (jw_store w) of
        Inl e \<Rightarrow> (finish_journal False w, Stopped (Inl e))
      | Inr n \<Rightarrow> (w\<lparr>jw_sequence := n\<rparr>, Continue))"

definition journal_group :: "nat \<Rightarrow> 'a list \<Rightarrow> 'a list \<times> 'a list" where
  "journal_group arrived queue = (let n = min 256 (max 1 arrived) in (take n queue, drop n queue))"

definition journal_iteration ::
    "'d codec \<Rightarrow> (int \<Rightarrow> datetime) \<Rightarrow> bool \<Rightarrow> nat \<Rightarrow> bool \<Rightarrow> 'd Pending list \<Rightarrow> 'd JournalWorker \<Rightarrow>
     'd Pending list \<times> 'd JournalWorker \<times> progress_flag" where
  "journal_iteration C now committed arrived sending queue w =
     (if queue = [] then
        (if sending then ([], w, Continue) else ([], finish_journal True w, Stopped (Inr ())))
      else
        (case journal_group arrived queue of (batch, rest) \<Rightarrow>
           case append C now committed batch (jw_sequence w) (jw_store w) of
             Inl e \<Rightarrow> (rest, finish_journal False w, Stopped (Inl e))
           | Inr (s, n) \<Rightarrow>
               (rest, w\<lparr>jw_store := s, jw_sequence := n, jw_progress := (jw_progress w)\<lparr>durable := n\<rparr>,
                        jw_replies := jw_replies w @ map finish batch\<rparr>, Continue)))"

section \<open>Serving in parts\<close>

lemma served_append: "served L st1 qs st2 \<Longrightarrow> served L st ps st1 \<Longrightarrow> served L st (ps @ qs) st2"
proof (induction rule: served.induct)
  case (command st1 qs st2 c st3 outcome reply)
  then show ?case using served.command [of L st "ps @ qs" st2 c st3 outcome reply] by simp
next
  case (balance st1 qs st2 sender user_id mint)
  then show ?case using served.balance [of L st "ps @ qs" st2 sender user_id mint] by simp
next
  case (book st1 qs st2 sender pair depth)
  then show ?case using served.book [of L st "ps @ qs" st2 sender pair depth] by simp
qed simp

inductive_cases served_snocE: "served L st (ps @ [p]) st'"
inductive_cases served_NilE: "served L st [] st'"

lemma served_split: "served L st (ps @ qs) st' \<Longrightarrow> \<exists>st1. served L st ps st1 \<and> served L st1 qs st'"
proof (induction qs arbitrary: st' rule: rev_induct)
  case Nil
  then show ?case using served.nothing by auto
next
  case (snoc q qs)
  then have "served L st ((ps @ qs) @ [q]) st'" by simp
  then show ?case
    by (rule served_snocE) (use snoc.IH in \<open>blast intro: served.intros\<close>)+
qed

lemma served_deterministic:
  "served L st ps a \<Longrightarrow> served L st ps b \<Longrightarrow> a = b"
proof (induction ps arbitrary: a b rule: rev_induct)
  case Nil
  then show ?case by (auto elim: served_NilE)
next
  case (snoc p ps)
  from snoc.prems(1) show ?case
    by (rule served_snocE; use snoc.prems(2) in \<open>rule served_snocE\<close>) (use snoc.IH in \<open>fastforce+\<close>)
qed

lemma journal_group_split: "journal_group arrived queue = (batch, rest) \<Longrightarrow> queue = batch @ rest"
  by (auto simp: journal_group_def Let_def)

lemma journal_group_bounds:
  "journal_group arrived queue = (batch, rest) \<Longrightarrow> queue \<noteq> [] \<Longrightarrow> batch \<noteq> [] \<and> length batch \<le> 256"
  by (auto simp: journal_group_def Let_def min_def max_def split: if_splits)

context journal_store
begin

text \<open>A committed group makes its requests durable and answers them; a failed one changes no row.\<close>

lemma journal_iteration_durable:
  assumes rec: "recover L C (jw_store w) = Inr (st, engine_id)" "jw_sequence w = int (length (record_rows (jw_store w)))"
    and queue: "served L st queue st'"
    and run: "journal_iteration C now committed arrived sending queue w = (rest, w', Continue)"
  obtains batch st1 where "queue = batch @ rest" "served L st batch st1" "served L st1 rest st'"
    "recover L C (jw_store w') = Inr (st1, engine_id)" "jw_sequence w' = int (length (record_rows (jw_store w')))"
    "jw_replies w' = jw_replies w @ map finish batch" "jw_closed w' = jw_closed w"
    "queue \<noteq> [] \<Longrightarrow> durable (jw_progress w') = jw_sequence w'"
    "length (record_rows (jw_store w')) = length (record_rows (jw_store w)) + length (journalled batch)"
proof (cases "queue = []")
  case True
  with run have w: "rest = []" "w' = w" by (auto simp: journal_iteration_def split: if_splits)
  have "st' = st" using queue True by (auto elim: served_NilE)
  with w True rec show thesis by (intro that [of "[]" st]) (auto intro: served.nothing)
next
  case False
  then obtain batch s n where g: "journal_group arrived queue = (batch, rest)"
    "append C now committed batch (jw_sequence w) (jw_store w) = Inr (s, n)"
    and w': "w' = w\<lparr>jw_store := s, jw_sequence := n, jw_progress := (jw_progress w)\<lparr>durable := n\<rparr>,
      jw_replies := jw_replies w @ map finish batch\<rparr>"
    using run by (auto simp: journal_iteration_def split: prod.splits sum.splits)
  have split: "queue = batch @ rest" using journal_group_split [OF g(1)] .
  with queue obtain st1 where st1: "served L st batch st1" "served L st1 rest st'" using served_split by blast
  have "append C now True batch (int (length (record_rows (jw_store w)))) (jw_store w) = Inr (s, n)"
    using g(2) rec(2) by (auto simp: append_def res_bind_Inr_iff ensure_Inr_iff)
  from append_recover [OF rec(1) st1(1) this] split st1 w' show thesis by (intro that [of batch st1]) simp_all
qed

end

lemma journal_iteration_stops:
  assumes "journal_iteration C now committed arrived sending queue w = (rest, w', Stopped r)"
  shows "jw_store w' = jw_store w" "jw_replies w' = jw_replies w" "journal_done (jw_progress w')"
    "durable (jw_progress w') = durable (jw_progress w)" "r \<noteq> Inr () \<longrightarrow> jw_closed w'"
    "r = Inr () \<longrightarrow> queue = [] \<and> \<not> sending \<and> jw_closed w' = jw_closed w" "\<exists>batch. queue = batch @ rest"
  using assms
  by (auto simp: journal_iteration_def finish_journal_def dest: journal_group_split split: if_splits prod.splits sum.splits)

end
