(* ===== verification/Output.thy ===== *)
theory Output
  imports Events Journal_Worker
begin

text \<open>
  The output worker (\<open>run_store\<close> and \<open>CloseOnExit\<close> of \<open>runtime/output.rs\<close>): it rebuilds the market
  projection from the delivered records, sends every durable record in order, and moves the delivery
  cursor only after the broker confirmed all events of the record and its market snapshot.

  What the worker is given is the record \<open>outlet\<close>: the decimal library, the codec of the journal,
  the texts of decimals, events and snapshots, and the Kafka client. The store is shared with the
  journal worker. The atomics an iteration reads are its arguments: the durable sequence at its
  first and second load, and the flag of the finished journal between them.
\<close>

section \<open>Definitions\<close>

record ('d, 'k) outlet =
  ol_decimal :: "'d decimal_lib"
  ol_codec :: "'d codec"
  ol_show :: "'d \<Rightarrow> string"
  ol_event_json :: "'d Event json"
  ol_market_json :: "MarketSnapshot json"
  ol_send :: "'k sender"

record ('d, 'k) OutputWorker =
  ow_engine_id :: string
  ow_startup_end :: int
  ow_ready :: "unit res option"
  ow_cursor :: int
  ow_market :: "'d Projection"
  ow_broker :: 'k

definition ready_send :: "unit res \<Rightarrow> ('d, 'k) OutputWorker \<Rightarrow> ('d, 'k) OutputWorker" where
  "ready_send r w = w\<lparr>ow_ready := (case ow_ready w of None \<Rightarrow> Some r | Some r' \<Rightarrow> Some r')\<rparr>"

definition rebuild_market :: "('d, 'k) outlet \<Rightarrow> Store \<Rightarrow> string \<Rightarrow> int \<Rightarrow> 'd Projection res" where
  "rebuild_market E s engine_id cursor =
     res_fold (\<lambda>sequence market. res_bind (store_read (ol_codec E) sequence s) (\<lambda>record.
         map_sum id fst (projection_apply (ol_decimal E) (ol_show E) record engine_id market)))
       [1..cursor] Projection_default"

fun send_snapshots :: "('d, 'k) outlet \<Rightarrow> MarketSnapshot list \<Rightarrow> 'k \<Rightarrow> 'k \<times> unit res" where
  "send_snapshots E [] k = (k, Inr ())"
| "send_snapshots E (event # rest) k =
     (case publish_market_snapshot (ol_market_json E) (ol_send E) event k of
        (k', Inl e) \<Rightarrow> (k', Inl e)
      | (k', Inr _) \<Rightarrow> send_snapshots E rest k')"

text \<open>Up to the loop: the worker and whether it reaches the loop.\<close>

definition run_store_start ::
    "('d, 'k) outlet \<Rightarrow> string \<Rightarrow> int \<Rightarrow> Store \<Rightarrow> 'k \<Rightarrow> ('d, 'k) OutputWorker \<times> progress_flag" where
  "run_store_start E engine_id d s k =
     (let w = \<lparr>ow_engine_id = engine_id, ow_startup_end = d, ow_ready = None, ow_cursor = 0,
               ow_market = Projection_default, ow_broker = k\<rparr> in
      case delivered s of
        Inl e \<Rightarrow> (w, Stopped (Inl e))
      | Inr cursor \<Rightarrow>
          (case rebuild_market E s engine_id cursor of
             Inl e \<Rightarrow> (w, Stopped (Inl e))
           | Inr market \<Rightarrow>
               (let w' = w\<lparr>ow_cursor := cursor, ow_market := market\<rparr> in
                case send_snapshots E (map snd (pj_latest market)) k of
                  (k', Inl e) \<Rightarrow> (w'\<lparr>ow_broker := k'\<rparr>, Stopped (Inl e))
                | (k', Inr _) \<Rightarrow> (w'\<lparr>ow_broker := k'\<rparr>, Continue))))"

definition deliver_outcome :: "('d, 'k) outlet \<Rightarrow> string \<Rightarrow> 'd Record \<Rightarrow> 'k \<Rightarrow> 'k \<times> (DeliveryError + unit)" where
  "deliver_outcome E engine_id record k =
     (case rec_outcome record of
        Applied (Some batch) \<Rightarrow>
          deliver (ol_event_json E) (ol_send E) batch
            \<lparr>pos_engine_id = engine_id, pos_sequence = rec_sequence record, pos_timestamp = rec_timestamp record\<rparr> k
      | _ \<Rightarrow> (k, Inr ()))"

definition deliver_market ::
    "('d, 'k) outlet \<Rightarrow> string \<Rightarrow> 'd Record \<Rightarrow> 'd Projection \<Rightarrow> 'k \<Rightarrow> 'k \<times> 'd Projection res" where
  "deliver_market E engine_id record market k =
     (case projection_apply (ol_decimal E) (ol_show E) record engine_id market of
        Inl e \<Rightarrow> (k, Inl e)
      | Inr (market', None) \<Rightarrow> (k, Inr market')
      | Inr (market', Some event) \<Rightarrow>
          (case publish_market_snapshot (ol_market_json E) (ol_send E) event k of
             (k', Inl e) \<Rightarrow> (k', Inl e)
           | (k', Inr _) \<Rightarrow> (k', Inr market')))"

definition delivery_failure :: "int \<Rightarrow> DeliveryError \<Rightarrow> failure" where
  "delivery_failure sequence error =
     Error (''Kafka delivery failed at sequence '' @ nat_str sequence @ '' event '' @
       nat_str (int (de_next_event error)) @ '': '' @ de_reason error)"

text \<open>One record: the store, the progress and the worker after it, and whether the loop goes on.\<close>

definition deliver_record ::
    "('d, 'k) outlet \<Rightarrow> Store \<Rightarrow> Progress \<Rightarrow> ('d, 'k) OutputWorker \<Rightarrow>
     Store \<times> Progress \<times> ('d, 'k) OutputWorker \<times> progress_flag" where
  "deliver_record E s p w =
     (case store_read (ol_codec E) (ow_cursor w + 1) s of
        Inl e \<Rightarrow> (s, p, w, Stopped (Inl e))
      | Inr record \<Rightarrow>
          (case deliver_outcome E (ow_engine_id w) record (ow_broker w) of
             (k1, Inl error) \<Rightarrow>
               (s, p, ready_send (Inl (Error (de_reason error))) (w\<lparr>ow_broker := k1\<rparr>),
                Stopped (Inl (delivery_failure (rec_sequence record) error)))
           | (k1, Inr _) \<Rightarrow>
               (case deliver_market E (ow_engine_id w) record (ow_market w) k1 of
                  (k2, Inl e) \<Rightarrow> (s, p, w\<lparr>ow_broker := k2\<rparr>, Stopped (Inl e))
                | (k2, Inr market) \<Rightarrow>
                    (let w' = w\<lparr>ow_broker := k2, ow_market := market\<rparr> in
                     case mark_delivered (rec_sequence record) s of
                       Inl e \<Rightarrow> (s, p, w', Stopped (Inl e))
                     | Inr s' \<Rightarrow>
                         (s', p\<lparr>pg_delivered := rec_sequence record\<rparr>, w'\<lparr>ow_cursor := rec_sequence record\<rparr>, Continue)))))"

definition run_store_iteration ::
    "('d, 'k) outlet \<Rightarrow> int \<Rightarrow> bool \<Rightarrow> int \<Rightarrow> Store \<Rightarrow> Progress \<Rightarrow> ('d, 'k) OutputWorker \<Rightarrow>
     Store \<times> Progress \<times> ('d, 'k) OutputWorker \<times> progress_flag" where
  "run_store_iteration E d1 jdone d2 s p w =
     (let w0 = (if ow_cursor w \<ge> ow_startup_end w then ready_send (Inr ()) w else w) in
      if ow_cursor w0 < d1 then deliver_record E s p w0
      else if jdone \<and> ow_cursor w0 = d2 then (s, p, w0, Stopped (Inr ()))
      else (s, p, w0, Continue))"

section \<open>What a record sends\<close>

definition financial :: "message list \<Rightarrow> message list" where
  "financial ms = filter (\<lambda>m. fst m = ''order-events'') ms"

definition record_events :: "string \<Rightarrow> 'd Record \<Rightarrow> 'd Event list" where
  "record_events engine_id r =
     (case rec_outcome r of
        Applied (Some batch) \<Rightarrow>
          batch_events \<lparr>pos_engine_id = engine_id, pos_sequence = rec_sequence r, pos_timestamp = rec_timestamp r\<rparr> batch
      | _ \<Rightarrow> [])"

definition event_messages :: "'d Event json \<Rightarrow> string \<Rightarrow> 'd Event list \<Rightarrow> message list" where
  "event_messages json engine_id es =
     concat (map (\<lambda>e. case json e of Inr t \<Rightarrow> [(''order-events'', Some engine_id, t)] | Inl _ \<Rightarrow> []) es)"

definition record_messages :: "('d, 'k) outlet \<Rightarrow> string \<Rightarrow> 'd Record \<Rightarrow> message list" where
  "record_messages E engine_id r = event_messages (ol_event_json E) engine_id (record_events engine_id r)"

lemma event_messages_texts:
  "list_all2 (\<lambda>e t. json e = Inr t) es texts \<Longrightarrow>
   event_messages json engine_id es = map (\<lambda>t. (''order-events'', Some engine_id, t)) texts"
  by (induction rule: list_all2_induct) (simp_all add: event_messages_def)

lemma event_messages_append [simp]:
  "event_messages json i (xs @ ys) = event_messages json i xs @ event_messages json i ys"
  by (simp add: event_messages_def)

lemma financial_simps [simp]:
  "financial [] = []" "financial (xs @ ys) = financial xs @ financial ys"
  "financial (event_messages json i es) = event_messages json i es"
proof -
  show "financial (event_messages json i es) = event_messages json i es"
    by (induction es) (auto simp: event_messages_def financial_def split: sum.split)
qed (simp_all add: financial_def)

lemma financial_prefix: "prefix part (event_messages json i es) \<Longrightarrow> financial part = part"
  using financial_simps(3) [of json i es] by (auto simp: financial_def filter_id_conv dest: set_mono_prefix)

lemma ready_send_simps [simp]:
  "ow_cursor (ready_send r w) = ow_cursor w" "ow_broker (ready_send r w) = ow_broker w"
  "ow_engine_id (ready_send r w) = ow_engine_id w" "ow_market (ready_send r w) = ow_market w"
  "ow_startup_end (ready_send r w) = ow_startup_end w"
  by (simp_all add: ready_send_def)

context kafka_broker
begin

lemma deliver_outcome_confirmed:
  assumes "deliver_outcome E engine_id r k = (k', res)" "ol_send E = send"
  shows "case res of
      Inr _ \<Rightarrow> confirmed k' = confirmed k @ record_messages E engine_id r
    | Inl _ \<Rightarrow> (\<exists>part. prefix part (record_messages E engine_id r) \<and> confirmed k' = confirmed k @ part)"
proof (cases "\<exists>batch. rec_outcome r = Applied (Some batch)")
  case True
  then obtain batch where out: "rec_outcome r = Applied (Some batch)" by blast
  let ?pos = "\<lparr>pos_engine_id = engine_id, pos_sequence = rec_sequence r, pos_timestamp = rec_timestamp r\<rparr>"
  have ev: "record_events engine_id r = batch_events ?pos batch" by (simp add: record_events_def out)
  have run: "visit_list (ol_event_json E) (deliver_one send engine_id) 0 (batch_events ?pos batch) k = (k', res)"
    using assms out by (simp add: deliver_outcome_def deliver_def visit_events_list)
  show ?thesis
  proof (cases res)
    case (Inr u)
    with visit_confirmed [OF run] show ?thesis
      by (auto simp: record_messages_def ev dest: event_messages_texts [where engine_id = engine_id])
  next
    case (Inl e)
    with visit_confirmed [OF run] obtain texts where t:
      "list_all2 (\<lambda>e t. ol_event_json E e = Inr t) (take (de_next_event e) (batch_events ?pos batch)) texts"
      "confirmed k' = confirmed k @ map (\<lambda>t. (''order-events'', Some engine_id, t)) texts" by auto
    have "record_messages E engine_id r =
        event_messages (ol_event_json E) engine_id (take (de_next_event e) (batch_events ?pos batch)) @
        event_messages (ol_event_json E) engine_id (drop (de_next_event e) (batch_events ?pos batch))"
      unfolding record_messages_def ev by (metis append_take_drop_id event_messages_append)
    with t event_messages_texts [OF t(1), of engine_id] Inl show ?thesis by (auto intro: prefixI)
  qed
next
  case False
  with assms have "k' = k" "res = Inr ()" "record_messages E engine_id r = []"
    by (auto simp: deliver_outcome_def record_messages_def record_events_def event_messages_def
        split: Outcome.splits option.splits)
  then show ?thesis by simp
qed

lemma deliver_market_financial:
  assumes "deliver_market E engine_id r market k = (k', res)" "ol_send E = send"
  shows "financial (confirmed k') = financial (confirmed k)"
proof -
  have "financial (confirmed k2) = financial (confirmed k)"
    if "publish_market_snapshot (ol_market_json E) send event k = (k2, res2)" for event k2 res2
    using that publish_payload_confirmed
    by (auto simp: publish_market_snapshot_def kafka_publish_def financial_def split: sum.splits dest!: publish_payload_confirmed)
  with assms show ?thesis
    by (auto simp: deliver_market_def split: sum.splits prod.splits option.splits)
qed

text \<open>One record: all of it and the cursor moves by one, or a prefix of it and nothing else changes.\<close>

lemma deliver_record_cases:
  assumes run: "deliver_record E s p w = (s', p', w', flag)" and E: "ol_send E = send"
  obtains (sent) r where "flag = Continue" "store_read (ol_codec E) (ow_cursor w + 1) s = Inr r"
      "mark_delivered (ow_cursor w + 1) s = Inr s'" "p' = p\<lparr>pg_delivered := ow_cursor w + 1\<rparr>" "ow_cursor w' = ow_cursor w + 1"
      "financial (confirmed (ow_broker w')) = financial (confirmed (ow_broker w)) @ record_messages E (ow_engine_id w) r"
  | (failed) e part where "flag = Stopped (Inl e)" "s' = s" "p' = p" "ow_cursor w' = ow_cursor w"
      "financial (confirmed (ow_broker w')) = financial (confirmed (ow_broker w)) @ part"
      "part = [] \<or> (\<exists>r. store_read (ol_codec E) (ow_cursor w + 1) s = Inr r \<and> prefix part (record_messages E (ow_engine_id w) r))"
proof (cases "store_read (ol_codec E) (ow_cursor w + 1) s")
  case (Inl e)
  with run show thesis by (intro failed [of e "[]"]) (auto simp: deliver_record_def)
next
  case (Inr r)
  have seq: "rec_sequence r = ow_cursor w + 1"
    using Inr by (auto simp: store_read_def res_bind_Inr_iff ensure_Inr_iff)
  obtain k1 r1 where one: "deliver_outcome E (ow_engine_id w) r (ow_broker w) = (k1, r1)" by fastforce
  note c1 = deliver_outcome_confirmed [OF one E]
  show thesis
  proof (cases r1)
    case (Inl err)
    with c1 obtain part where part: "prefix part (record_messages E (ow_engine_id w) r)" "confirmed k1 = confirmed (ow_broker w) @ part"
      by auto
    then have "financial part = part" unfolding record_messages_def by (intro financial_prefix)
    with Inl one run part Inr show thesis
      by (intro failed [of "delivery_failure (rec_sequence r) err" part]) (auto simp: deliver_record_def)
  next
    case ok: (Inr u)
    obtain k2 r2 where two: "deliver_market E (ow_engine_id w) r (ow_market w) k1 = (k2, r2)" by fastforce
    have f2: "financial (confirmed k2) = financial (confirmed (ow_broker w)) @ record_messages E (ow_engine_id w) r"
      using deliver_market_financial [OF two E] c1 ok by (simp add: record_messages_def)
    show thesis
    proof (cases "\<exists>market. r2 = Inr market \<and> (\<exists>t. mark_delivered (ow_cursor w + 1) s = Inr t)")
      case True
      with ok one two run Inr f2 seq show thesis by (intro sent [of r]) (auto simp: deliver_record_def Let_def)
    next
      case False
      then consider e where "r2 = Inl e" | market e where "r2 = Inr market" "mark_delivered (ow_cursor w + 1) s = Inl e"
        by (cases r2; cases "mark_delivered (ow_cursor w + 1) s") auto
      then show thesis
      proof cases
        case 1
        with ok one two run Inr f2 seq show thesis
          by (intro failed [of e "record_messages E (ow_engine_id w) r"]) (auto simp: deliver_record_def Let_def)
      next
        case 2
        with ok one two run Inr f2 seq show thesis
          by (intro failed [of e "record_messages E (ow_engine_id w) r"]) (auto simp: deliver_record_def Let_def)
      qed
    qed
  qed
qed

end

end
