(* ===== verification/Pipeline.thy ===== *)
theory Pipeline
  imports Output
begin

text \<open>
  The three workers of a started engine together (\<open>runtime/engine.rs\<close> starts them): the core, the
  journal worker and the output worker, with what they share: the queue of the core's items, the
  journal, the progress counters and the flag that closes the engine. A step is one iteration of
  one worker, a request of a client arriving in an input queue, or the request to stop.

  The engine keeps a receiver of the journal queue, so the queue stays open; it is disconnected for
  the journal worker when the core, its only sender, has ended. The output worker may have read the
  durable sequence before it grew: an iteration may see any earlier value.
\<close>

section \<open>The system\<close>

record ('d, 'k) System =
  sy_core :: "'d Worker"
  sy_core_live :: bool
  sy_journal :: "'d JournalWorker"
  sy_journal_live :: bool
  sy_output :: "('d, 'k) OutputWorker"
  sy_output_live :: bool

definition journal_queue :: "('d, 'k) System \<Rightarrow> 'd Pending list" where
  "journal_queue s = (case w_output (sy_core s) of Some q \<Rightarrow> q_items q | None \<Rightarrow> [])"

definition set_queue :: "'d Pending list \<Rightarrow> 'd Worker \<Rightarrow> 'd Worker" where
  "set_queue items w = w\<lparr>w_output := map_option (\<lambda>q. q\<lparr>q_items := items\<rparr>) (w_output w)\<rparr>"

definition journal_turn ::
    "('d, 'k) outlet \<Rightarrow> (int \<Rightarrow> datetime) \<Rightarrow> bool \<Rightarrow> nat \<Rightarrow> ('d, 'k) System \<Rightarrow> ('d, 'k) System" where
  "journal_turn E now committed arrived s =
     (case journal_iteration (ol_codec E) now committed arrived (sy_core_live s) (journal_queue s)
             ((sy_journal s)\<lparr>jw_closed := w_closed (sy_core s)\<rparr>) of
        (rest, j, flag) \<Rightarrow>
          s\<lparr>sy_core := (set_queue rest (sy_core s))\<lparr>w_closed := jw_closed j\<rparr>, sy_journal := j,
            sy_journal_live := (flag = Continue)\<rparr>)"

definition output_turn :: "('d, 'k) outlet \<Rightarrow> int \<Rightarrow> bool \<Rightarrow> int \<Rightarrow> ('d, 'k) System \<Rightarrow> ('d, 'k) System" where
  "output_turn E d1 jdone d2 s =
     (case run_store_iteration E d1 jdone d2 (jw_store (sy_journal s)) (jw_progress (sy_journal s)) (sy_output s) of
        (store, p, w, flag) \<Rightarrow>
          s\<lparr>sy_journal := (sy_journal s)\<lparr>jw_store := store, jw_progress := p\<rparr>, sy_output := w,
            sy_output_live := (flag = Continue),
            sy_core := (sy_core s)\<lparr>w_closed := (w_closed (sy_core s) \<or> flag \<noteq> Continue)\<rparr>\<rparr>)"

inductive sys_step ::
    "('d, 'k) outlet \<Rightarrow> (int \<Rightarrow> datetime) \<Rightarrow> ('d, 'k) System \<Rightarrow> ('d, 'k) System \<Rightarrow> bool" for E now where
  core: "sy_core_live s \<Longrightarrow> loop_iteration (ol_decimal E) is_running is_closed (sy_core s) = Inr (w, go) \<Longrightarrow>
    sys_step E now s (s\<lparr>sy_core := w, sy_core_live := go\<rparr>)"
| core_panic: "sy_core_live s \<Longrightarrow> loop_iteration (ol_decimal E) is_running is_closed (sy_core s) = Inl e \<Longrightarrow>
    sys_step E now s (s\<lparr>sy_core := (sy_core s)\<lparr>w_closed := True\<rparr>, sy_core_live := False\<rparr>)"
| journal: "sy_journal_live s \<Longrightarrow> sys_step E now s (journal_turn E now committed arrived s)"
| deliver_turn: "sy_output_live s \<Longrightarrow> d1 \<le> durable (jw_progress (sy_journal s)) \<Longrightarrow>
    sys_step E now s (output_turn E d1 jdone d2 s)"
| order: "sys_step E now s (s\<lparr>sy_core := (sy_core s)\<lparr>w_orders := w_orders (sy_core s) @ [c]\<rparr>\<rparr>)"
| balance: "sys_step E now s (s\<lparr>sy_core := (sy_core s)\<lparr>w_balances := w_balances (sy_core s) @ [b]\<rparr>\<rparr>)"
| halt: "sys_step E now s (s\<lparr>sy_core := (sy_core s)\<lparr>w_closed := True, w_running := False\<rparr>\<rparr>)"

inductive reachable ::
    "('d, 'k) outlet \<Rightarrow> (int \<Rightarrow> datetime) \<Rightarrow> ('d, 'k) System \<Rightarrow> ('d, 'k) System \<Rightarrow> bool" for E now s0 where
  start: "reachable E now s0 s0"
| step: "reachable E now s0 s \<Longrightarrow> sys_step E now s t \<Longrightarrow> reachable E now s0 t"

text \<open>The three workers right after a start on a journal.\<close>

definition started :: "('d, 'k) outlet \<Rightarrow> ('d, 'k) System \<Rightarrow> bool" where
  "started E s \<longleftrightarrow>
     sy_core_live s \<and> sy_journal_live s \<and> sy_output_live s \<and>
     recover (ol_decimal E) (ol_codec E) (jw_store (sy_journal s)) = Inr (w_state (sy_core s), ow_engine_id (sy_output s)) \<and>
     (case w_output (sy_core s) of Some q \<Rightarrow> q_items q = [] \<and> q_open q | None \<Rightarrow> False) \<and>
     last_sequence (jw_store (sy_journal s)) = Inr (jw_sequence (sy_journal s)) \<and>
     durable (jw_progress (sy_journal s)) = jw_sequence (sy_journal s) \<and> jw_replies (sy_journal s) = [] \<and>
     delivered (jw_store (sy_journal s)) = Inr (ow_cursor (sy_output s)) \<and>
     pg_delivered (jw_progress (sy_journal s)) = ow_cursor (sy_output s) \<and>
     distinct (map fst (delivery_rows (jw_store (sy_journal s))))"

section \<open>Stored records stay\<close>

lemma append_rows:
  assumes "append C now committed ps n s = Inr (s', n')"
  shows "\<exists>new. s' = s\<lparr>record_rows := record_rows s @ new\<rparr>"
proof -
  from assms obtain rows where f: "res_fold (append_item C now) ps (n, record_rows s) = Inr (n', rows)"
    and s': "s' = s\<lparr>record_rows := rows\<rparr>"
    by (auto simp: append_def res_bind_Inr_iff ensure_Inr_iff)
  from f have "\<exists>new. snd (n', rows) = record_rows s @ new"
  proof (rule res_fold_invariant)
    fix item u v
    assume "\<exists>new. snd u = record_rows s @ new" "append_item C now item u = Inr v"
    then show "\<exists>new. snd v = record_rows s @ new"
      by (auto simp: append_item_def Let_def res_bind_Inr_iff insert_row_def ensure_Inr_iff split: option.splits prod.splits)
  qed simp
  with s' show ?thesis by auto
qed

lemma store_read_append:
  "append C now committed ps n s = Inr (s', n') \<Longrightarrow> store_read C k s = Inr r \<Longrightarrow> store_read C k s' = Inr r"
  by (drule append_rows) (auto simp: store_read_def res_bind_Inr_iff query_row_def ok_or_Inr_iff ensure_Inr_iff map_add_Some_iff)

lemma mark_delivered_rows: "mark_delivered n s = Inr s' \<Longrightarrow> record_rows s' = record_rows s \<and> map fst (delivery_rows s') = map fst (delivery_rows s)"
  by (auto simp: mark_delivered_def res_bind_Inr_iff ensure_Inr_iff split: if_splits prod.splits)

lemma store_read_rows: "record_rows s' = record_rows s \<Longrightarrow> store_read C k s' = store_read C k s"
  by (simp add: store_read_def)

section \<open>The invariant\<close>

locale engine_pipeline = journal_store "ol_decimal E" "ol_codec E" + kafka_broker "ol_send E" confirmed
  for E :: "('d, 'k) outlet" and confirmed :: "'k \<Rightarrow> message list"

text \<open>The financial messages of a range of stored records.\<close>

definition stored_messages :: "('d, 'k) outlet \<Rightarrow> string \<Rightarrow> Store \<Rightarrow> int \<Rightarrow> int \<Rightarrow> message list" where
  "stored_messages E engine_id s a b =
     concat (map (\<lambda>n. case store_read (ol_codec E) n s of Inr r \<Rightarrow> record_messages E engine_id r | Inl _ \<Rightarrow> []) [a..b])"

text \<open>
  \<open>reqs\<close> are the requests whose items are durable, \<open>lost\<close> those of a group whose commit failed: the
  core has executed what is durable, then what was lost, then what is still queued.
\<close>

definition journal_inv ::
    "('d, 'k) outlet \<Rightarrow> 'd EngineState \<Rightarrow> ('d, 'k) System \<Rightarrow> 'd Pending list \<Rightarrow> 'd Pending list \<Rightarrow> 'd EngineState \<Rightarrow> bool" where
  "journal_inv E st0 s reqs lost st \<longleftrightarrow>
     engine_ok (ol_decimal E) (w_state (sy_core s)) \<and>
     recover (ol_decimal E) (ol_codec E) (jw_store (sy_journal s)) = Inr (st, ow_engine_id (sy_output s)) \<and>
     jw_sequence (sy_journal s) = int (length (record_rows (jw_store (sy_journal s)))) \<and>
     durable (jw_progress (sy_journal s)) = jw_sequence (sy_journal s) \<and>
     served (ol_decimal E) st0 reqs st \<and> served (ol_decimal E) st (lost @ journal_queue s) (w_state (sy_core s)) \<and>
     jw_replies (sy_journal s) = map finish reqs \<and> (sy_journal_live s \<longrightarrow> lost = [])"

definition queue_inv :: "('d, 'k) System \<Rightarrow> bool" where
  "queue_inv s \<longleftrightarrow> (case w_output (sy_core s) of Some q \<Rightarrow> q_open q \<and> length (q_items q) \<le> q_capacity q | None \<Rightarrow> False)"

definition output_inv :: "('d, 'k) outlet \<Rightarrow> ('k \<Rightarrow> message list) \<Rightarrow> int \<Rightarrow> message list \<Rightarrow> ('d, 'k) System \<Rightarrow> bool" where
  "output_inv E confirmed c0 log0 s \<longleftrightarrow>
     delivered (jw_store (sy_journal s)) = Inr (ow_cursor (sy_output s)) \<and>
     pg_delivered (jw_progress (sy_journal s)) = ow_cursor (sy_output s) \<and>
     distinct (map fst (delivery_rows (jw_store (sy_journal s)))) \<and>
     c0 \<le> ow_cursor (sy_output s) \<and> ow_cursor (sy_output s) \<le> durable (jw_progress (sy_journal s)) \<and>
     (\<forall>n \<in> {c0 <.. ow_cursor (sy_output s)}. is_ok (store_read (ol_codec E) n (jw_store (sy_journal s)))) \<and>
     (sy_output_live s \<longrightarrow> financial (confirmed (ow_broker (sy_output s))) =
        financial log0 @ stored_messages E (ow_engine_id (sy_output s)) (jw_store (sy_journal s)) (c0 + 1) (ow_cursor (sy_output s)))"

definition fail_stop :: "('d, 'k) System \<Rightarrow> bool" where
  "fail_stop s \<longleftrightarrow> (sy_core_live s \<and> sy_journal_live s \<and> sy_output_live s) \<or> w_closed (sy_core s)"

lemma journal_queue_simps [simp]:
  "journal_queue (s\<lparr>sy_journal := j\<rparr>) = journal_queue s" "journal_queue (s\<lparr>sy_output := ow\<rparr>) = journal_queue s"
  "journal_queue (s\<lparr>sy_core_live := b\<rparr>) = journal_queue s" "journal_queue (s\<lparr>sy_journal_live := b\<rparr>) = journal_queue s"
  "journal_queue (s\<lparr>sy_output_live := b\<rparr>) = journal_queue s"
  "journal_queue (s\<lparr>sy_core := w\<rparr>) = (case w_output w of Some q \<Rightarrow> q_items q | None \<Rightarrow> [])"
  by (simp_all add: journal_queue_def)

lemma set_queue_simps [simp]:
  "w_state (set_queue items w) = w_state w" "w_closed (set_queue items w) = w_closed w"
  "w_output (set_queue items w) = map_option (\<lambda>q. q\<lparr>q_items := items\<rparr>) (w_output w)"
  by (simp_all add: set_queue_def)

lemma stored_messages_stable:
  assumes "\<forall>n \<in> {a .. b}. is_ok (store_read (ol_codec E) n s)"
    and "\<And>n r. store_read (ol_codec E) n s = Inr r \<Longrightarrow> store_read (ol_codec E) n s' = Inr r"
  shows "stored_messages E i s' a b = stored_messages E i s a b"
  using assms unfolding stored_messages_def by (fastforce simp: is_ok_iff intro!: arg_cong [where f = concat])

lemma stored_messages_snoc:
  "a \<le> b + 1 \<Longrightarrow> store_read (ol_codec E) (b + 1) s = Inr r \<Longrightarrow>
   stored_messages E i s a (b + 1) = stored_messages E i s a b @ record_messages E i r"
  by (simp add: stored_messages_def upto_rec2)

section \<open>Every step keeps the invariant\<close>

lemma journal_iteration_store:
  assumes "journal_iteration C now committed arrived sending queue w = (rest, w', flag)"
  shows "delivery_rows (jw_store w') = delivery_rows (jw_store w)"
    "store_read C n (jw_store w) = Inr r \<Longrightarrow> store_read C n (jw_store w') = Inr r"
    "pg_delivered (jw_progress w') = pg_delivered (jw_progress w)"
    "flag = Continue \<Longrightarrow> queue = [] \<Longrightarrow> jw_progress w' = jw_progress w"
proof -
  have "jw_store w' = jw_store w \<or> (\<exists>batch n. append C now committed batch (jw_sequence w) (jw_store w) = Inr (jw_store w', n))"
    using assms by (auto simp: journal_iteration_def finish_journal_def split: if_splits prod.splits sum.splits)
  then show "delivery_rows (jw_store w') = delivery_rows (jw_store w)"
    "store_read C n (jw_store w) = Inr r \<Longrightarrow> store_read C n (jw_store w') = Inr r"
    using store_read_append append_rows by fastforce+
qed (use assms in \<open>auto simp: journal_iteration_def finish_journal_def split: if_splits prod.splits sum.splits\<close>)

lemma delivered_rows: "delivery_rows s' = delivery_rows s \<Longrightarrow> delivered s' = delivered s"
  by (simp add: delivered_def)

text \<open>Growing the journal keeps what the output worker has done.\<close>

lemma output_inv_grow:
  assumes inv: "output_inv E confirmed c0 log0 s"
    and t: "delivery_rows (jw_store (sy_journal t)) = delivery_rows (jw_store (sy_journal s))"
      "\<And>n r. store_read (ol_codec E) n (jw_store (sy_journal s)) = Inr r \<Longrightarrow>
         store_read (ol_codec E) n (jw_store (sy_journal t)) = Inr r"
      "durable (jw_progress (sy_journal s)) \<le> durable (jw_progress (sy_journal t))"
      "pg_delivered (jw_progress (sy_journal t)) = pg_delivered (jw_progress (sy_journal s))"
      "sy_output t = sy_output s" "sy_output_live t = sy_output_live s"
  shows "output_inv E confirmed c0 log0 t"
proof -
  let ?i = "ow_engine_id (sy_output s)" and ?c = "ow_cursor (sy_output s)"
  have reads: "\<forall>n \<in> {c0 + 1 .. ?c}. is_ok (store_read (ol_codec E) n (jw_store (sy_journal s)))"
    using inv by (auto simp: output_inv_def)
  have msgs: "stored_messages E ?i (jw_store (sy_journal t)) (c0 + 1) ?c = stored_messages E ?i (jw_store (sy_journal s)) (c0 + 1) ?c"
    by (rule stored_messages_stable [OF reads t(2)])
  have "is_ok (store_read (ol_codec E) n (jw_store (sy_journal t)))" if "n \<in> {c0 <.. ?c}" for n
  proof -
    have "n \<in> {c0 + 1 .. ?c}" using that by simp
    with reads t(2) show ?thesis by (fastforce simp: is_ok_iff)
  qed
  then show ?thesis
    using inv t(1,3-6) delivered_rows [OF t(1)] msgs by (simp add: output_inv_def)
qed

definition sys_inv ::
    "('d, 'k) outlet \<Rightarrow> ('k \<Rightarrow> message list) \<Rightarrow> 'd EngineState \<Rightarrow> int \<Rightarrow> message list \<Rightarrow> ('d, 'k) System \<Rightarrow> bool" where
  "sys_inv E confirmed st0 c0 log0 s \<longleftrightarrow>
     (\<exists>reqs lost st. journal_inv E st0 s reqs lost st) \<and> queue_inv s \<and> output_inv E confirmed c0 log0 s \<and> fail_stop s"

lemma deliver_record_engine: "deliver_record E s p w = (s', p', w', flag) \<Longrightarrow> ow_engine_id w' = ow_engine_id w"
  by (auto simp: deliver_record_def Let_def split: sum.splits prod.splits)

context engine_pipeline
begin

lemma core_keeps:
  assumes inv: "sys_inv E confirmed st0 c0 log0 s" and live: "sy_core_live s"
    and run: "loop_iteration (ol_decimal E) is_running is_closed (sy_core s) = r"
  shows "\<exists>w go. r = Inr (w, go) \<and> sys_inv E confirmed st0 c0 log0 (s\<lparr>sy_core := w, sy_core_live := go\<rparr>)"
proof -
  from inv obtain reqs lost st where j: "journal_inv E st0 s reqs lost st" and q: "queue_inv s"
    and out: "output_inv E confirmed c0 log0 s" and fs: "fail_stop s" by (auto simp: sys_inv_def)
  from q obtain qu where qu: "w_output (sy_core s) = Some qu" "q_open qu" "length (q_items qu) \<le> q_capacity qu"
    by (auto simp: queue_inv_def split: option.splits)
  have ok: "engine_ok (ol_decimal E) (w_state (sy_core s))" using j by (simp add: journal_inv_def)
  obtain w' go new where w': "loop_iteration (ol_decimal E) is_running is_closed (sy_core s) = Inr (w', go)"
    "engine_ok (ol_decimal E) (w_state w')" "w_output w' = Some (qu\<lparr>q_items := q_items qu @ new\<rparr>)"
    "served (ol_decimal E) (w_state (sy_core s)) new (w_state w')" "length new \<le> 1"
    "new \<noteq> [] \<Longrightarrow> length (q_items qu) < q_capacity qu" "\<not> go \<Longrightarrow> w_closed w'" "w_closed (sy_core s) \<Longrightarrow> w_closed w'"
    by (rule loop_iteration_total [OF ok qu(1,2), of is_running is_closed]) blast
  let ?t = "s\<lparr>sy_core := w', sy_core_live := go\<rparr>"
  have "served (ol_decimal E) st ((lost @ q_items qu) @ new) (w_state w')"
    by (rule served_append [OF w'(4)]) (use j qu(1) in \<open>simp add: journal_inv_def journal_queue_def\<close>)
  then have "journal_inv E st0 ?t reqs lost st"
    using j w'(2,3) by (simp add: journal_inv_def)
  moreover have "length (q_items qu @ new) \<le> q_capacity qu" using w'(5,6) qu(3) by (cases "new = []") auto
  then have "queue_inv ?t" using w'(3) qu by (simp add: queue_inv_def)
  moreover have "output_inv E confirmed c0 log0 ?t" using out by (simp add: output_inv_def)
  moreover have "fail_stop ?t" using fs w'(7,8) by (auto simp: fail_stop_def)
  ultimately show ?thesis using run w'(1) unfolding sys_inv_def by blast
qed

lemma journal_keeps:
  assumes inv: "sys_inv E confirmed st0 c0 log0 s" and live: "sy_journal_live s"
  shows "sys_inv E confirmed st0 c0 log0 (journal_turn E now committed arrived s)"
proof -
  from inv obtain reqs lost st where j: "journal_inv E st0 s reqs lost st" and q: "queue_inv s"
    and out: "output_inv E confirmed c0 log0 s" and fs: "fail_stop s" by (auto simp: sys_inv_def)
  from q obtain qu where qu: "w_output (sy_core s) = Some qu" "q_open qu" "length (q_items qu) \<le> q_capacity qu"
    by (auto simp: queue_inv_def split: option.splits)
  let ?j = "(sy_journal s)\<lparr>jw_closed := w_closed (sy_core s)\<rparr>"
  obtain rest j' flag where it: "journal_iteration (ol_codec E) now committed arrived (sy_core_live s) (journal_queue s) ?j =
      (rest, j', flag)" by (rule prod_cases3)
  have turn: "journal_turn E now committed arrived s =
      s\<lparr>sy_core := (set_queue rest (sy_core s))\<lparr>w_closed := jw_closed j'\<rparr>, sy_journal := j', sy_journal_live := (flag = Continue)\<rparr>"
    by (simp add: journal_turn_def it)
  have lost: "lost = []" using j live by (simp add: journal_inv_def)
  have sv: "served (ol_decimal E) st (journal_queue s) (w_state (sy_core s))" using j lost by (simp add: journal_inv_def)
  have queue: "journal_queue (journal_turn E now committed arrived s) = rest" using qu(1) by (simp add: turn)
  show ?thesis
  proof (cases flag)
    case Continue
    have rec: "recover (ol_decimal E) (ol_codec E) (jw_store ?j) = Inr (st, ow_engine_id (sy_output s))"
      "jw_sequence ?j = int (length (record_rows (jw_store ?j)))" using j by (simp_all add: journal_inv_def)
    obtain batch st1 where b: "journal_queue s = batch @ rest" "served (ol_decimal E) st batch st1"
      "served (ol_decimal E) st1 rest (w_state (sy_core s))"
      "recover (ol_decimal E) (ol_codec E) (jw_store j') = Inr (st1, ow_engine_id (sy_output s))"
      "jw_sequence j' = int (length (record_rows (jw_store j')))" "jw_replies j' = jw_replies ?j @ map finish batch"
      "jw_closed j' = jw_closed ?j" "journal_queue s \<noteq> [] \<Longrightarrow> durable (jw_progress j') = jw_sequence j'"
      "length (record_rows (jw_store j')) = length (record_rows (jw_store ?j)) + length (journalled batch)"
      by (rule journal_iteration_durable [OF rec sv it [unfolded Continue]]) blast
    let ?t = "journal_turn E now committed arrived s"
    have t: "sy_journal ?t = j'" "sy_output ?t = sy_output s" "w_state (sy_core ?t) = w_state (sy_core s)"
      "w_closed (sy_core ?t) = w_closed (sy_core s)" "w_output (sy_core ?t) = Some (qu\<lparr>q_items := rest\<rparr>)"
      "sy_core_live ?t = sy_core_live s" "sy_output_live ?t = sy_output_live s" "sy_journal_live ?t"
      using qu(1) b(7) Continue by (simp_all add: turn)
    have dur: "durable (jw_progress j') = jw_sequence j'"
    proof (cases "journal_queue s = []")
      case True
      then have "batch = []" using b(1) by simp
      then have "jw_sequence j' = jw_sequence ?j" using b(5,9) rec(2) by (simp add: journalled_def)
      with journal_iteration_store(4) [OF it Continue True] j show ?thesis by (simp add: journal_inv_def)
    qed (rule b(8))
    have "served (ol_decimal E) st0 (reqs @ batch) st1"
      by (rule served_append [OF b(2)]) (use j in \<open>simp add: journal_inv_def\<close>)
    then have "journal_inv E st0 ?t (reqs @ batch) [] st1"
      using j b dur queue by (simp add: journal_inv_def t)
    moreover have "queue_inv ?t" using qu b(1) by (simp add: queue_inv_def t journal_queue_def)
    moreover have "output_inv E confirmed c0 log0 ?t"
      by (rule output_inv_grow [OF out])
        (use journal_iteration_store(1-3) [OF it] j dur b(5,9) in \<open>simp_all add: t journal_inv_def\<close>)
    moreover have "fail_stop ?t" using fs Continue live by (simp add: fail_stop_def t)
    ultimately show ?thesis by (auto simp: sys_inv_def)
  next
    case (Stopped r)
    let ?t = "journal_turn E now committed arrived s"
    note st = journal_iteration_stops [OF it [unfolded Stopped]]
    obtain batch where b: "journal_queue s = batch @ rest" using st(7) by blast
    have seq: "jw_sequence j' = jw_sequence (sy_journal s)"
      using it Stopped by (auto simp: journal_iteration_def finish_journal_def split: if_splits prod.splits sum.splits)
    have t: "sy_journal ?t = j'" "sy_output ?t = sy_output s" "w_state (sy_core ?t) = w_state (sy_core s)"
      "w_closed (sy_core ?t) = jw_closed j'" "w_output (sy_core ?t) = Some (qu\<lparr>q_items := rest\<rparr>)"
      "sy_core_live ?t = sy_core_live s" "sy_output_live ?t = sy_output_live s" "\<not> sy_journal_live ?t"
      using qu(1) Stopped by (simp_all add: turn)
    have "journal_inv E st0 ?t reqs batch st"
      using j lost b st(1,2,4) queue seq by (simp add: journal_inv_def t)
    moreover have "queue_inv ?t" using qu b by (simp add: queue_inv_def t journal_queue_def)
    moreover have "output_inv E confirmed c0 log0 ?t"
      by (rule output_inv_grow [OF out]) (use st journal_iteration_store(3) [OF it] in \<open>simp_all add: t\<close>)
    moreover have "w_closed (sy_core ?t)"
      using st(5,6) fs by (cases "r = Inr ()") (auto simp: t fail_stop_def)
    then have "fail_stop ?t" by (simp add: fail_stop_def)
    ultimately show ?thesis by (auto simp: sys_inv_def)
  qed
qed

lemma output_keeps:
  assumes inv: "sys_inv E confirmed st0 c0 log0 s" and live: "sy_output_live s" and d1: "d1 \<le> durable (jw_progress (sy_journal s))"
  shows "sys_inv E confirmed st0 c0 log0 (output_turn E d1 jdone d2 s)"
proof -
  from inv obtain reqs lost st where j: "journal_inv E st0 s reqs lost st" and q: "queue_inv s"
    and out: "output_inv E confirmed c0 log0 s" and fs: "fail_stop s" by (auto simp: sys_inv_def)
  let ?s = "jw_store (sy_journal s)" and ?p = "jw_progress (sy_journal s)" and ?o = "sy_output s"
  obtain s' p' w' flag where it: "run_store_iteration E d1 jdone d2 ?s ?p ?o = (s', p', w', flag)" by (rule prod_cases4)
  let ?t = "output_turn E d1 jdone d2 s"
  have turn: "?t = s\<lparr>sy_journal := (sy_journal s)\<lparr>jw_store := s', jw_progress := p'\<rparr>, sy_output := w',
      sy_output_live := (flag = Continue), sy_core := (sy_core s)\<lparr>w_closed := (w_closed (sy_core s) \<or> flag \<noteq> Continue)\<rparr>\<rparr>"
    by (simp add: output_turn_def it)
  have fs': "fail_stop ?t" using fs by (auto simp: fail_stop_def turn)
  have q': "queue_inv ?t" using q by (simp add: queue_inv_def turn)
  have queue: "journal_queue ?t = journal_queue s" by (simp add: turn journal_queue_def)
  define w0 where "w0 = (if ow_cursor ?o \<ge> ow_startup_end ?o then ready_send (Inr ()) ?o else ?o)"
  have w0: "ow_cursor w0 = ow_cursor ?o" "ow_broker w0 = ow_broker ?o" "ow_engine_id w0 = ow_engine_id ?o"
    by (simp_all add: w0_def)
  consider (idle) "s' = ?s" "p' = ?p" "w' = w0"
    | (sent) r where "flag = Continue" "store_read (ol_codec E) (ow_cursor ?o + 1) ?s = Inr r" "ow_cursor ?o < d1"
        "mark_delivered (ow_cursor ?o + 1) ?s = Inr s'" "p' = ?p\<lparr>pg_delivered := ow_cursor ?o + 1\<rparr>"
        "ow_cursor w' = ow_cursor ?o + 1" "ow_engine_id w' = ow_engine_id ?o"
        "financial (confirmed (ow_broker w')) = financial (confirmed (ow_broker ?o)) @ record_messages E (ow_engine_id ?o) r"
    | (failed) "flag \<noteq> Continue" "s' = ?s" "p' = ?p" "ow_cursor w' = ow_cursor ?o" "ow_engine_id w' = ow_engine_id ?o"
  proof (cases "ow_cursor w0 < d1")
    case True
    then have run: "deliver_record E ?s ?p w0 = (s', p', w', flag)"
      using it by (simp add: run_store_iteration_def w0_def Let_def split: if_splits)
    have "ow_engine_id w' = ow_engine_id ?o" using deliver_record_engine [OF run] w0(3) by simp
    with run True w0 show thesis
      by (elim deliver_record_cases [OF _ refl]) (auto intro: sent failed)
  next
    case False
    then show thesis
      using it by (intro idle) (auto simp: run_store_iteration_def w0_def Let_def split: if_splits)
  qed
  then show ?thesis
  proof cases
    case idle
    then have "journal_inv E st0 ?t reqs lost st" "output_inv E confirmed c0 log0 ?t"
      using j out w0 live queue by (simp_all add: journal_inv_def output_inv_def turn)
    with q' fs' show ?thesis by (auto simp: sys_inv_def)
  next
    case failed
    then have "journal_inv E st0 ?t reqs lost st" "output_inv E confirmed c0 log0 ?t"
      using j out queue by (simp_all add: journal_inv_def output_inv_def turn)
    with q' fs' show ?thesis by (auto simp: sys_inv_def)
  next
    case (sent r)
    have cur: "delivered ?s = Inr (ow_cursor ?o)" "distinct (map fst (delivery_rows ?s))" "c0 \<le> ow_cursor ?o"
      using out by (simp_all add: output_inv_def)
    note m = mark_delivered_Inr [OF cur(2,1) sent(4)] and rows = mark_delivered_rows [OF sent(4)]
    have le: "ow_cursor ?o + 1 \<le> int (length (record_rows ?s))" using sent(3) d1 j by (simp add: journal_inv_def)
    have rec: "recover (ol_decimal E) (ol_codec E) s' = Inr (st, ow_engine_id ?o)"
      using m le j unfolding journal_inv_def by blast
    have j': "journal_inv E st0 ?t reqs lost st"
      using j rec rows queue sent by (simp add: journal_inv_def turn)
    have reads: "store_read (ol_codec E) n s' = store_read (ol_codec E) n ?s" for n
      using store_read_rows rows by blast
    have "stored_messages E (ow_engine_id ?o) s' (c0 + 1) (ow_cursor ?o + 1) =
        stored_messages E (ow_engine_id ?o) ?s (c0 + 1) (ow_cursor ?o) @ record_messages E (ow_engine_id ?o) r"
      using stored_messages_snoc [of "c0 + 1" "ow_cursor ?o" E ?s r "ow_engine_id ?o"] sent(2) cur(3)
      by (simp add: stored_messages_def reads)
    moreover have "is_ok (store_read (ol_codec E) n s')" if "n \<in> {c0 <.. ow_cursor ?o + 1}" for n
      using that out sent(2) by (cases "n = ow_cursor ?o + 1") (auto simp: output_inv_def reads)
    ultimately have "output_inv E confirmed c0 log0 ?t"
      using out conjunct1 [OF conjunct2 [OF m]] rows sent d1 live cur by (simp add: output_inv_def turn)
    with j' q' fs' show ?thesis by (auto simp: sys_inv_def)
  qed
qed

lemma client_keeps:
  assumes "sys_inv E confirmed st0 c0 log0 s"
    and "w_state w = w_state (sy_core s)" "w_output w = w_output (sy_core s)" "w_closed (sy_core s) \<longrightarrow> w_closed w"
  shows "sys_inv E confirmed st0 c0 log0 (s\<lparr>sy_core := w\<rparr>)"
  using assms
  by (auto simp: sys_inv_def journal_inv_def queue_inv_def output_inv_def fail_stop_def journal_queue_def)

lemma step_keeps: "sys_step E now s t \<Longrightarrow> sys_inv E confirmed st0 c0 log0 s \<Longrightarrow> sys_inv E confirmed st0 c0 log0 t"
proof (induction rule: sys_step.induct)
  case (core s is_running is_closed w go)
  from core_keeps [OF core(3,1,2)] show ?case by auto
next
  case (core_panic s is_running is_closed e)
  from core_keeps [OF core_panic(3,1,2)] show ?case by simp
qed (auto intro: journal_keeps output_keeps client_keeps)

lemma started_inv:
  assumes "started E s" "engine_ok (ol_decimal E) (w_state (sy_core s))"
  shows "sys_inv E confirmed (w_state (sy_core s)) (ow_cursor (sy_output s)) (confirmed (ow_broker (sy_output s))) s"
proof -
  note st = assms(1) [unfolded started_def]
  have seq: "jw_sequence (sy_journal s) = int (length (record_rows (jw_store (sy_journal s))))"
    by (rule recover_sequence) (use st in blast)+
  obtain n cursor where "delivered (jw_store (sy_journal s)) = Inr cursor" "cursor \<le> n" "n = int (length (record_rows (jw_store (sy_journal s))))"
    by (rule recover_Inr [of "ol_decimal E" "ol_codec E" "jw_store (sy_journal s)" "w_state (sy_core s)" "ow_engine_id (sy_output s)"])
      (use st in blast)+
  then have le: "ow_cursor (sy_output s) \<le> int (length (record_rows (jw_store (sy_journal s))))" using st by simp
  have "journal_inv E (w_state (sy_core s)) s [] [] (w_state (sy_core s))"
    using st assms(2) seq by (auto simp: journal_inv_def journal_queue_def intro: served.nothing split: option.splits)
  moreover have "queue_inv s" using st by (auto simp: queue_inv_def split: option.splits)
  moreover have "output_inv E confirmed (ow_cursor (sy_output s)) (confirmed (ow_broker (sy_output s))) s"
    using st seq le by (simp add: output_inv_def stored_messages_def)
  moreover have "fail_stop s" using st by (simp add: fail_stop_def)
  ultimately show ?thesis unfolding sys_inv_def by blast
qed

lemma started_ok: "started E s \<Longrightarrow> engine_ok (ol_decimal E) (w_state (sy_core s))"
  using recover_facts [OF decimal_library_axioms] unfolding started_def by blast

lemma reachable_inv:
  assumes "reachable E now s0 s" "started E s0"
  shows "sys_inv E confirmed (w_state (sy_core s0)) (ow_cursor (sy_output s0)) (confirmed (ow_broker (sy_output s0))) s"
  using assms(1)
proof (induction rule: reachable.induct)
  case start
  show ?case by (rule started_inv [OF assms(2) started_ok [OF assms(2)]])
qed (rule step_keeps)

end

section \<open>A started engine for the witnesses\<close>

definition sample_outlet :: "(refdec, broker) outlet" where
  "sample_outlet =
     \<lparr>ol_decimal = ref_decimal, ol_codec = sample_codec, ol_show = (\<lambda>_. ''d''), ol_event_json = (\<lambda>e. Inr (event_id_of e)),
      ol_market_json = (\<lambda>e. Inr (ms_event_id e)), ol_send = scripted_send\<rparr>"

definition sample_opening :: "refdec EngineState" where
  "sample_opening = (case recover ref_decimal sample_codec sample_store of Inr (st, _) \<Rightarrow> st | Inl _ \<Rightarrow> EngineState_new)"

definition sample_system :: "(refdec, broker) System" where
  "sample_system =
     \<lparr>sy_core = \<lparr>w_state = sample_opening, w_balances = [BalanceCredit sample_credit 9], w_orders = [], w_connected = True,
        w_output = Some \<lparr>q_items = [], q_capacity = 4, q_open = True\<rparr>, w_replies = [], w_running = True, w_closed = False\<rparr>,
      sy_core_live = True,
      sy_journal = \<lparr>jw_store = sample_store, jw_sequence = 0, jw_progress = Progress_new 0 0, jw_closed = False, jw_replies = []\<rparr>,
      sy_journal_live = True,
      sy_output = \<lparr>ow_engine_id = ''e1'', ow_startup_end = 0, ow_ready = None, ow_cursor = 0,
        ow_market = Projection_default, ow_broker = \<lparr>brk_log = [], brk_count = 0, brk_script = (\<lambda>_. None)\<rparr>\<rparr>,
      sy_output_live = True\<rparr>"

definition core_turn :: "(refdec, broker) System \<Rightarrow> (refdec, broker) System" where
  "core_turn s =
     (case loop_iteration ref_decimal True False (sy_core s) of
        Inr (w, go) \<Rightarrow> s\<lparr>sy_core := w, sy_core_live := go\<rparr> | Inl _ \<Rightarrow> s)"

text \<open>The credit is executed, committed and answered, and its event is delivered.\<close>

definition sample_run :: "(refdec, broker) System" where
  "sample_run =
     output_turn sample_outlet 1 False 1 (journal_turn sample_outlet (\<lambda>_. 0) True 1 (core_turn sample_system))"

interpretation running: engine_pipeline sample_outlet brk_log
proof -
  have "ol_decimal sample_outlet = ref_decimal" "ol_codec sample_outlet = sample_codec" "ol_send sample_outlet = scripted_send"
    by (simp_all add: sample_outlet_def)
  then show "engine_pipeline sample_outlet brk_log"
    using sample.journal_store_axioms scripted.kafka_broker_axioms by (simp add: engine_pipeline_def)
qed

lemma sample_started: "started sample_outlet sample_system"
proof -
  have "case recover ref_decimal sample_codec sample_store of Inr (st, i) \<Rightarrow> i = ''e1'' | Inl _ \<Rightarrow> False" by code_simp
  then have rec: "recover ref_decimal sample_codec sample_store = Inr (sample_opening, ''e1'')"
    by (auto simp: sample_opening_def split: sum.splits)
  have "last_sequence sample_store = Inr 0" "delivered sample_store = Inr 0" "distinct (map fst (delivery_rows sample_store))"
    by code_simp+
  with rec show ?thesis by (simp add: started_def sample_system_def sample_outlet_def Progress_new_def)
qed

lemma sample_first_steps:
  "sys_step sample_outlet (\<lambda>_. 0) sample_system (core_turn sample_system)"
  "reachable sample_outlet (\<lambda>_. 0) sample_system (core_turn sample_system)" "sy_journal_live (core_turn sample_system)"
proof -
  have dec: "ol_decimal sample_outlet = ref_decimal" by (simp add: sample_outlet_def)
  have "is_ok (loop_iteration ref_decimal True False (sy_core sample_system))" by code_simp
  then obtain w go where w: "loop_iteration ref_decimal True False (sy_core sample_system) = Inr (w, go)"
    by (auto simp: is_ok_iff)
  have live: "sy_core_live sample_system" "sy_journal_live sample_system" by (simp_all add: sample_system_def)
  have s1: "core_turn sample_system = sample_system\<lparr>sy_core := w, sy_core_live := go\<rparr>"
    by (simp only: core_turn_def w sum.case prod.case)
  show step: "sys_step sample_outlet (\<lambda>_. 0) sample_system (core_turn sample_system)"
    unfolding s1 by (rule sys_step.core [OF live(1), where is_running = True and is_closed = False]) (simp only: dec w)
  from reachable.step [OF reachable.start step]
  show "reachable sample_outlet (\<lambda>_. 0) sample_system (core_turn sample_system)" .
  show "sy_journal_live (core_turn sample_system)" using live(2) by (simp add: s1)
qed

lemma sample_reachable: "reachable sample_outlet (\<lambda>_. 0) sample_system sample_run"
proof -
  let ?s2 = "journal_turn sample_outlet (\<lambda>_. 0) True 1 (core_turn sample_system)"
  note r2 = reachable.step [OF sample_first_steps(2) sys_step.journal [OF sample_first_steps(3), where committed = True and arrived = 1]]
  have "sy_output_live ?s2 \<and> 1 \<le> durable (jw_progress (sy_journal ?s2))" by code_simp
  then show ?thesis unfolding sample_run_def by (intro reachable.step [OF r2] sys_step.deliver_turn) simp_all
qed

section \<open>Properties\<close>



text \<open>
  C4. The core is never interrupted by its queue. In every reachable state the journal queue
  holds at most its capacity, the core executes its next iteration without a panic, and its state
  is what serving the durable, the lost and the queued requests one after the other gives.
\<close>

theorem core_never_panics:
  assumes "engine_pipeline E confirmed" "started E s0" "reachable E now s0 s" "sy_core_live s"
  shows "(\<exists>q. w_output (sy_core s) = Some q \<and> length (q_items q) \<le> q_capacity q) \<and>
    (\<forall>is_running is_closed. \<exists>w go. loop_iteration (ol_decimal E) is_running is_closed (sy_core s) = Inr (w, go)) \<and>
    (\<exists>reqs. served (ol_decimal E) (w_state (sy_core s0)) reqs (w_state (sy_core s)))"
proof -
  note inv = engine_pipeline.reachable_inv [OF assms(1,3,2)]
  then have "\<exists>q. w_output (sy_core s) = Some q \<and> length (q_items q) \<le> q_capacity q"
    by (auto simp: sys_inv_def queue_inv_def split: option.splits)
  moreover have "\<exists>w go. loop_iteration (ol_decimal E) is_running is_closed (sy_core s) = Inr (w, go)" for is_running is_closed
    using engine_pipeline.core_keeps [OF assms(1) inv assms(4) refl, of is_running is_closed] by blast
  moreover have "\<exists>reqs. served (ol_decimal E) (w_state (sy_core s0)) reqs (w_state (sy_core s))"
    using inv served_append unfolding sys_inv_def journal_inv_def by blast
  ultimately show ?thesis by blast
qed

theorem core_never_panics_witness:
  "\<exists>w go. loop_iteration ref_decimal True False (sy_core sample_run) = Inr (w, go)"
proof -
  have "sy_core_live sample_run" by code_simp
  moreover have "ol_decimal sample_outlet = ref_decimal" by (simp add: sample_outlet_def)
  ultimately show ?thesis
    using core_never_panics [OF running.engine_pipeline_axioms sample_started sample_reachable] by auto
qed

text \<open>
  C9. While the output worker runs, the financial messages the broker confirmed since the start
  are exactly the events of the records after the delivery cursor at the start up to the present
  cursor, in journal order and each once, and the cursor is not ahead of the durable sequence.
\<close>

theorem financial_messages_in_order:
  assumes "engine_pipeline E confirmed" "started E s0" "reachable E now s0 s" "sy_output_live s"
  shows "financial (confirmed (ow_broker (sy_output s))) = financial (confirmed (ow_broker (sy_output s0))) @
      stored_messages E (ow_engine_id (sy_output s)) (jw_store (sy_journal s)) (ow_cursor (sy_output s0) + 1) (ow_cursor (sy_output s)) \<and>
    delivered (jw_store (sy_journal s)) = Inr (ow_cursor (sy_output s)) \<and>
    ow_cursor (sy_output s) \<le> durable (jw_progress (sy_journal s))"
  using engine_pipeline.reachable_inv [OF assms(1,3,2)] assms(4) by (simp add: sys_inv_def output_inv_def)

theorem financial_messages_in_order_witness:
  "financial (brk_log (ow_broker (sy_output sample_run))) = [(''order-events'', Some ''e1'', ''e1:1:0'')] \<and>
   delivered (jw_store (sy_journal sample_run)) = Inr (ow_cursor (sy_output sample_run))"
proof -
  have "sy_output_live sample_run" by code_simp
  moreover have "financial (brk_log (ow_broker (sy_output sample_run))) = [(''order-events'', Some ''e1'', ''e1:1:0'')]" by code_simp
  ultimately show ?thesis
    using financial_messages_in_order [OF running.engine_pipeline_axioms sample_started sample_reachable] by simp
qed

text \<open>
  C10. The engine fails closed: in every reachable state in which one of the three workers has
  ended, for whatever reason, the flag that refuses new commands is set.
\<close>

theorem dead_worker_closes_engine:
  assumes "engine_pipeline E confirmed" "started E s0" "reachable E now s0 s"
    "\<not> (sy_core_live s \<and> sy_journal_live s \<and> sy_output_live s)"
  shows "w_closed (sy_core s)"
  using engine_pipeline.reachable_inv [OF assms(1,3,2)] assms(4) by (auto simp: sys_inv_def fail_stop_def)

definition sample_failed :: "(refdec, broker) System" where
  "sample_failed = journal_turn sample_outlet (\<lambda>_. 0) False 1 (core_turn sample_system)"

theorem dead_worker_closes_engine_witness:
  "\<not> sy_journal_live sample_failed \<and> w_closed (sy_core sample_failed)"
proof -
  have dec: "ol_decimal sample_outlet = ref_decimal" by (simp add: sample_outlet_def)
  have r: "reachable sample_outlet (\<lambda>_. 0) sample_system sample_failed"
    unfolding sample_failed_def using sample_first_steps sys_step.journal by (blast intro: reachable.step)
  have dead: "\<not> sy_journal_live sample_failed" by code_simp
  with dead_worker_closes_engine [OF running.engine_pipeline_axioms sample_started r] show ?thesis by blast
qed

end
