(* ===== verification/Handle.thy ===== *)
theory Handle
  imports Pipeline
begin

text \<open>
  The request side of the engine (\<open>runtime/handle.rs\<close>): a handle sends commands into the two bounded
  input queues and waits for the answer on a one-shot channel.

  A request has two steps: entering the queue, which is a function on the queues, and waiting. How
  the wait ends is an argument: an answer arrived, the sender was dropped, or the time limit passed.
  The texts in which the channels report an error are parameters; no property depends on them.
\<close>

section \<open>Definitions\<close>

record channel_texts =
  ct_full :: string
  ct_disconnected :: string
  ct_received :: string

record 'd EngineHandle =
  order_tx :: "'d OrderCommand list"
  balance_tx :: "'d BalanceCommand list"
  tx_capacity :: nat
  tx_connected :: bool
  h_closed :: bool

datatype 'a awaited = Answer 'a | SenderDropped | TimedOut

definition is_accepting :: "'d EngineHandle \<Rightarrow> bool" where
  "is_accepting h \<longleftrightarrow> \<not> h_closed h"

definition try_send :: "channel_texts \<Rightarrow> nat \<Rightarrow> bool \<Rightarrow> 'a \<Rightarrow> 'a list \<Rightarrow> string + 'a list" where
  "try_send T capacity is_connected x queue =
     (if \<not> is_connected then Inl (ct_disconnected T)
      else if length queue \<ge> capacity then Inl (ct_full T)
      else Inr (queue @ [x]))"

definition send_order :: "channel_texts \<Rightarrow> 'd OrderCommand \<Rightarrow> 'd EngineHandle \<Rightarrow> 'd EngineHandle res" where
  "send_order T command h =
     ensure (\<not> h_closed h) ''Engine command channel is closed''
     (case try_send T (tx_capacity h) (tx_connected h) command (order_tx h) of
        Inl e \<Rightarrow> Inl (Error (''Engine queue unavailable: '' @ e))
      | Inr queue \<Rightarrow> Inr (h\<lparr>order_tx := queue\<rparr>))"

definition send_balance :: "channel_texts \<Rightarrow> 'd BalanceCommand \<Rightarrow> 'd EngineHandle \<Rightarrow> 'd EngineHandle res" where
  "send_balance T command h =
     ensure (\<not> h_closed h) ''Engine command channel is closed''
     (case try_send T (tx_capacity h) (tx_connected h) command (balance_tx h) of
        Inl e \<Rightarrow> Inl (Error (''Engine balance queue unavailable: '' @ e))
      | Inr queue \<Rightarrow> Inr (h\<lparr>balance_tx := queue\<rparr>))"

datatype request_error = NotAccepted | OutcomeUnknown | Rejected string

text \<open>Waiting for an answer whose loss leaves the outcome unknown.\<close>

definition financial_wait :: "unit res awaited \<Rightarrow> request_error + unit" where
  "financial_wait reply =
     (case reply of
        TimedOut \<Rightarrow> Inl OutcomeUnknown
      | SenderDropped \<Rightarrow> Inl OutcomeUnknown
      | Answer (Inl (Error reason)) \<Rightarrow> Inl (Rejected reason)
      | Answer (Inl (Panic reason)) \<Rightarrow> Inl (Rejected reason)
      | Answer (Inr _) \<Rightarrow> Inr ())"

definition change_withdrawal ::
    "channel_texts \<Rightarrow> 'd WithdrawalCommand \<Rightarrow> chan \<Rightarrow> unit res awaited \<Rightarrow> 'd EngineHandle \<Rightarrow>
     'd EngineHandle \<times> (request_error + unit)" where
  "change_withdrawal T command sender reply h =
     (case send_balance T (BalanceWithdrawal command sender) h of
        Inl _ \<Rightarrow> (h, Inl NotAccepted)
      | Inr h' \<Rightarrow> (h', financial_wait reply))"

definition credit_deposit ::
    "channel_texts \<Rightarrow> 'd DepositCredit \<Rightarrow> chan \<Rightarrow> unit res awaited \<Rightarrow> 'd EngineHandle \<Rightarrow>
     'd EngineHandle \<times> (request_error + unit)" where
  "credit_deposit T credit sender reply h =
     (case send_balance T (BalanceCredit credit sender) h of
        Inl _ \<Rightarrow> (h, Inl NotAccepted)
      | Inr h' \<Rightarrow> (h', financial_wait reply))"

text \<open>The other requests report every failure as a text.\<close>

definition with_prefix :: "string \<Rightarrow> 'a res \<Rightarrow> 'a res" where
  "with_prefix message r =
     (case r of Inl (Error e) \<Rightarrow> Inl (Error (message @ e)) | Inl (Panic p) \<Rightarrow> Inl (Panic p) | Inr x \<Rightarrow> Inr x)"

definition wait_for :: "string \<Rightarrow> string \<Rightarrow> 'a res awaited \<Rightarrow> 'a res" where
  "wait_for on_timeout on_drop reply =
     (case reply of
        TimedOut \<Rightarrow> Inl (Error on_timeout)
      | SenderDropped \<Rightarrow> Inl (Error on_drop)
      | Answer r \<Rightarrow> r)"

definition ask ::
    "channel_texts \<Rightarrow> string \<Rightarrow> string \<Rightarrow> ('d EngineHandle \<Rightarrow> 'd EngineHandle res) \<Rightarrow> 'a res awaited \<Rightarrow>
     'd EngineHandle \<Rightarrow> 'd EngineHandle \<times> 'a res" where
  "ask T on_send on_timeout enqueue reply h =
     (case with_prefix on_send (enqueue h) of
        Inl e \<Rightarrow> (h, Inl e)
      | Inr h' \<Rightarrow> (h', wait_for on_timeout (''Failed to receive response: '' @ ct_received T) reply))"

definition submit_order ::
    "channel_texts \<Rightarrow> 'd OrderEntry \<Rightarrow> chan \<Rightarrow> unit res awaited \<Rightarrow> 'd EngineHandle \<Rightarrow> 'd EngineHandle \<times> unit res" where
  "submit_order T order sender reply h =
     (case send_order T (SubmitOrder order sender) h of
        Inl e \<Rightarrow> (h, Inl e)
      | Inr h' \<Rightarrow>
          (h', wait_for ''Durable submission outcome unknown; retry the same order id''
                 ''Journal response unavailable; retry the same order id'' reply))"

definition handle_cancel_order ::
    "channel_texts \<Rightarrow> u64 \<Rightarrow> u64 \<Rightarrow> TradingPair \<Rightarrow> chan \<Rightarrow> 'd OrderEntry res awaited \<Rightarrow> 'd EngineHandle \<Rightarrow>
     'd EngineHandle \<times> 'd OrderEntry res" where
  "handle_cancel_order T order_id user_id pair sender =
     ask T ''Failed to send cancel command: '' ''Cancel order timeout''
       (send_order T (CancelOrder order_id user_id pair sender))"

definition get_orderbook ::
    "channel_texts \<Rightarrow> TradingPair \<Rightarrow> nat option \<Rightarrow> chan \<Rightarrow> 'd depth_view res awaited \<Rightarrow> 'd EngineHandle \<Rightarrow>
     'd EngineHandle \<times> 'd depth_view res" where
  "get_orderbook T pair depth sender =
     ask T ''Failed to send get_orderbook command: '' ''Get orderbook timeout''
       (send_order T (GetOrderbook pair depth sender))"

text \<open>The first order of a side carries the best price.\<close>

definition first_price :: "'d OrderEntry list \<Rightarrow> 'd option" where
  "first_price entries = (case entries of [] \<Rightarrow> None | e # _ \<Rightarrow> o_price e)"

definition handle_best_bid ::
    "channel_texts \<Rightarrow> TradingPair \<Rightarrow> chan \<Rightarrow> 'd depth_view res awaited \<Rightarrow> 'd EngineHandle \<Rightarrow>
     'd EngineHandle \<times> 'd option res" where
  "handle_best_bid T pair sender reply h =
     (case get_orderbook T pair (Some 1) sender reply h of
        (h', r) \<Rightarrow> (h', res_bind r (\<lambda>(bids, _). Inr (first_price bids))))"

definition handle_best_ask ::
    "channel_texts \<Rightarrow> TradingPair \<Rightarrow> chan \<Rightarrow> 'd depth_view res awaited \<Rightarrow> 'd EngineHandle \<Rightarrow>
     'd EngineHandle \<times> 'd option res" where
  "handle_best_ask T pair sender reply h =
     (case get_orderbook T pair (Some 1) sender reply h of
        (h', r) \<Rightarrow> (h', res_bind r (\<lambda>(_, asks). Inr (first_price asks))))"

definition handle_lock_balance ::
    "channel_texts \<Rightarrow> u64 \<Rightarrow> string \<Rightarrow> 'd \<Rightarrow> chan \<Rightarrow> unit res awaited \<Rightarrow> 'd EngineHandle \<Rightarrow> 'd EngineHandle \<times> unit res" where
  "handle_lock_balance T user_id mint amount sender =
     ask T ''Failed to send lock_balance command: '' ''Lock balance timeout''
       (send_order T (LockBalance user_id mint amount sender))"

definition handle_unlock_balance ::
    "channel_texts \<Rightarrow> u64 \<Rightarrow> string \<Rightarrow> 'd \<Rightarrow> chan \<Rightarrow> unit res awaited \<Rightarrow> 'd EngineHandle \<Rightarrow> 'd EngineHandle \<times> unit res" where
  "handle_unlock_balance T user_id mint amount sender =
     ask T ''Failed to send unlock_balance command: '' ''Unlock balance timeout''
       (send_order T (UnlockBalance user_id mint amount sender))"

definition handle_get_balance ::
    "channel_texts \<Rightarrow> u64 \<Rightarrow> string \<Rightarrow> chan \<Rightarrow> ('d \<times> 'd) res awaited \<Rightarrow> 'd EngineHandle \<Rightarrow>
     'd EngineHandle \<times> ('d \<times> 'd) res" where
  "handle_get_balance T user_id mint sender =
     ask T ''Failed to send get_balance command: '' ''Get balance timeout''
       (send_order T (GetBalance user_id mint sender))"

definition update_balance ::
    "channel_texts \<Rightarrow> u64 \<Rightarrow> string \<Rightarrow> 'd \<Rightarrow> chan \<Rightarrow> unit res awaited \<Rightarrow> 'd EngineHandle \<Rightarrow> 'd EngineHandle \<times> unit res" where
  "update_balance T user_id mint available_delta sender =
     ask T ''Failed to send update_balance command: '' ''Update balance timeout''
       (send_balance T (UpdateBalance user_id mint available_delta sender))"

section \<open>Which request an answer belongs to\<close>

fun balance_chan :: "'d BalanceCommand \<Rightarrow> chan" where
  "balance_chan (BalanceWithdrawal _ sender) = sender"
| "balance_chan (BalanceCredit _ sender) = sender"
| "balance_chan (UpdateBalance _ _ _ sender) = sender"

fun order_chan :: "'d OrderCommand \<Rightarrow> chan" where
  "order_chan (SubmitOrder _ sender) = sender"
| "order_chan (CancelOrder _ _ _ sender) = sender"
| "order_chan (GetOrderbook _ _ sender) = sender"
| "order_chan (GetBalance _ _ sender) = sender"
| "order_chan (LockBalance _ _ _ sender) = sender"
| "order_chan (UnlockBalance _ _ _ sender) = sender"

text \<open>An item of the journal queue stems from one of the commands the clients sent.\<close>

definition stems_from :: "'d BalanceCommand set \<Rightarrow> 'd OrderCommand set \<Rightarrow> 'd Pending \<Rightarrow> bool" where
  "stems_from B Q p \<longleftrightarrow>
     (\<exists>b \<in> B. map_prod Some id (route_balance b) = (pd_command p, pd_reply p)) \<or>
     (\<exists>c \<in> Q. \<exists>L st. route_order L st c = (pd_command p, pd_reply p))"

lemma stems_from_mono: "stems_from B Q p \<Longrightarrow> B \<subseteq> B' \<Longrightarrow> Q \<subseteq> Q' \<Longrightarrow> stems_from B' Q' p"
  by (auto simp: stems_from_def)

lemma finish_chan:
  "map_prod Some id (route_balance b) = (pd_command p, pd_reply p) \<Longrightarrow> fst (finish p) = balance_chan b"
  "route_order L st c = (pd_command p, pd_reply p) \<Longrightarrow> fst (finish p) = order_chan c"
proof -
  assume "map_prod Some id (route_balance b) = (pd_command p, pd_reply p)"
  then have "pd_reply p = snd (map_prod Some id (route_balance b))" by simp
  then show "fst (finish p) = balance_chan b" by (cases b) (simp_all add: finish_def)
next
  assume "route_order L st c = (pd_command p, pd_reply p)"
  then have "pd_reply p = snd (route_order L st c)" by simp
  then show "fst (finish p) = order_chan c" by (cases c) (simp_all add: finish_def)
qed

lemma loop_iteration_queue:
  assumes "loop_iteration L is_running is_closed w = Inr (w', go)" "w_output w = Some q"
  shows "\<exists>new. w_output w' = Some (q\<lparr>q_items := q_items q @ new\<rparr>) \<and>
    (\<forall>p \<in> set new. stems_from (set (w_balances w)) (set (w_orders w)) p)"
proof -
  have publish: "\<exists>new. w_output w'' = Some (q\<lparr>q_items := q_items q @ new\<rparr>) \<and> set new \<subseteq> {p}"
    if "publish p v = Inr w''" "w_output v = Some q" for p v w''
    using that by (auto simp: publish_def split: if_splits)
  have served: "\<exists>new. w_output w'' = Some (q\<lparr>q_items := q_items q @ new\<rparr>) \<and>
      (\<forall>p \<in> set new. (pd_command p, pd_reply p) = routed)"
    if "serve L routed v = Inr (w'', go)" "w_output v = Some q" for routed v w''
  proof -
    from that(1) obtain st out where "publish \<lparr>pd_command = fst routed, pd_outcome = out, pd_reply = snd routed\<rparr> (v\<lparr>w_state := st\<rparr>) = Inr w''"
      by (auto simp: serve_def res_bind_Inr_iff split: prod.splits)
    from publish [OF this] that(2) show ?thesis by fastforce
  qed
  have idle: "\<exists>new. w_output w = Some (q\<lparr>q_items := q_items q @ new\<rparr>) \<and>
    (\<forall>p \<in> set new. stems_from (set (w_balances w)) (set (w_orders w)) p)"
    using assms(2) by (intro exI [of _ "[]"]) simp
  show ?thesis
  proof (cases "w_running w \<and> \<not> w_closed w \<and> \<not> output_full w")
    case False
    with assms(1) idle show ?thesis by (auto simp: loop_iteration_def split: if_splits)
  next
    case True
    show ?thesis
    proof (cases "w_balances w")
      case (Cons b rest)
      with assms(1) True have "serve L (map_prod Some id (route_balance b)) (w\<lparr>w_balances := rest\<rparr>) = Inr (w', go)"
        by (auto simp: loop_iteration_def split: prod.splits)
      from served [OF this] assms(2) Cons show ?thesis by (fastforce simp: stems_from_def)
    next
      case Nil
      show ?thesis
      proof (cases "w_orders w")
        case (Cons c rest)
        show ?thesis
        proof (cases "is_closed \<or> \<not> is_running")
          case True
          with Cons Nil \<open>w_running w \<and> _\<close> assms(1) idle show ?thesis by (auto simp: loop_iteration_def)
        next
          case False
          with Cons Nil True assms(1) have "serve L (route_order L (w_state w) c) (w\<lparr>w_orders := rest\<rparr>) = Inr (w', go)"
            by (auto simp: loop_iteration_def)
          from served [OF this] assms(2) Cons show ?thesis by (fastforce simp: stems_from_def)
        qed
      qed (use Nil True assms(1) idle in \<open>auto simp: loop_iteration_def split: if_splits\<close>)
    qed
  qed
qed

text \<open>The runs of a started engine whose clients send commands from two given sets.\<close>

inductive client_run ::
    "('d, 'k) outlet \<Rightarrow> (int \<Rightarrow> datetime) \<Rightarrow> 'd BalanceCommand set \<Rightarrow> 'd OrderCommand set \<Rightarrow> ('d, 'k) System \<Rightarrow> ('d, 'k) System \<Rightarrow> bool"
  for E now B Q s0 where
  start: "set (w_balances (sy_core s0)) \<subseteq> B \<Longrightarrow> set (w_orders (sy_core s0)) \<subseteq> Q \<Longrightarrow> client_run E now B Q s0 s0"
| step: "client_run E now B Q s0 s \<Longrightarrow> sys_step E now s t \<Longrightarrow> set (w_balances (sy_core t)) \<subseteq> B \<Longrightarrow>
    set (w_orders (sy_core t)) \<subseteq> Q \<Longrightarrow> client_run E now B Q s0 t"

lemma client_run_inputs:
  "client_run E now B Q s0 s \<Longrightarrow> set (w_balances (sy_core s)) \<subseteq> B \<and> set (w_orders (sy_core s)) \<subseteq> Q"
  by (erule client_run.cases) simp_all

lemma client_run_reachable: "client_run E now B Q s0 s \<Longrightarrow> reachable E now s0 s"
  by (induction rule: client_run.induct) (auto intro: reachable.intros)

definition answered_inv ::
    "('d, 'k) outlet \<Rightarrow> 'd BalanceCommand set \<Rightarrow> 'd OrderCommand set \<Rightarrow> 'd EngineState \<Rightarrow> ('d, 'k) System \<Rightarrow> bool" where
  "answered_inv E B Q st0 s \<longleftrightarrow>
     (\<forall>p \<in> set (journal_queue s). stems_from B Q p) \<and>
     (\<exists>reqs st i. jw_replies (sy_journal s) = map finish reqs \<and> (\<forall>p \<in> set reqs. stems_from B Q p) \<and>
        served (ol_decimal E) st0 reqs st \<and> recover (ol_decimal E) (ol_codec E) (jw_store (sy_journal s)) = Inr (st, i))"

lemma recover_same_rows:
  assumes "recover L C s = Inr (st, i)" "recover L C s' = Inr (st', i')"
    and "record_rows s' = record_rows s" "genesis_rows s' = genesis_rows s"
  shows "st' = st"
proof -
  from assms(1) obtain genesis stored st0 n where a: "map_of (genesis_rows s) 1 = Some stored"
    "decode C (genesis_from_str C) stored = Inr genesis" "res_fold (genesis_account L) (g_balances genesis) EngineState_new = Inr st0"
    "res_fold (replay_row L C) (sort_key fst (record_rows s)) (st0, 1) = Inr (st, n + 1)"
    by (rule recover_Inr)
  from assms(2) obtain genesis' stored' st0' n' where "map_of (genesis_rows s') 1 = Some stored'"
    "decode C (genesis_from_str C) stored' = Inr genesis'" "res_fold (genesis_account L) (g_balances genesis') EngineState_new = Inr st0'"
    "res_fold (replay_row L C) (sort_key fst (record_rows s')) (st0', 1) = Inr (st', n' + 1)"
    by (rule recover_Inr)
  with a assms(3,4) show ?thesis by simp
qed

lemma run_store_iteration_rows:
  "run_store_iteration E d1 jdone d2 s p w = (s', p', w', flag) \<Longrightarrow> record_rows s' = record_rows s \<and> genesis_rows s' = genesis_rows s"
  by (auto simp: run_store_iteration_def deliver_record_def mark_delivered_def res_bind_Inr_iff ensure_Inr_iff Let_def
      split: if_splits sum.splits prod.splits)

lemma output_turn_frame:
  "jw_replies (sy_journal (output_turn E d1 jdone d2 s)) = jw_replies (sy_journal s)"
  "journal_queue (output_turn E d1 jdone d2 s) = journal_queue s"
  "record_rows (jw_store (sy_journal (output_turn E d1 jdone d2 s))) = record_rows (jw_store (sy_journal s))"
  "genesis_rows (jw_store (sy_journal (output_turn E d1 jdone d2 s))) = genesis_rows (jw_store (sy_journal s))"
proof -
  obtain s' p' w' flag where it: "run_store_iteration E d1 jdone d2 (jw_store (sy_journal s)) (jw_progress (sy_journal s)) (sy_output s) =
      (s', p', w', flag)" by (rule prod_cases4)
  have "record_rows s' = record_rows (jw_store (sy_journal s)) \<and> genesis_rows s' = genesis_rows (jw_store (sy_journal s))"
    using it by (rule run_store_iteration_rows)
  then show "jw_replies (sy_journal (output_turn E d1 jdone d2 s)) = jw_replies (sy_journal s)"
    "journal_queue (output_turn E d1 jdone d2 s) = journal_queue s"
    "record_rows (jw_store (sy_journal (output_turn E d1 jdone d2 s))) = record_rows (jw_store (sy_journal s))"
    "genesis_rows (jw_store (sy_journal (output_turn E d1 jdone d2 s))) = genesis_rows (jw_store (sy_journal s))"
    by (simp_all add: output_turn_def it journal_queue_def)
qed

context engine_pipeline
begin

lemma answered_step:
  assumes inv: "answered_inv E B Q st0 s" and sys: "sys_inv E confirmed st0 c0 log0 s" "sys_inv E confirmed st0 c0 log0 t"
    and inputs: "set (w_balances (sy_core s)) \<subseteq> B" "set (w_orders (sy_core s)) \<subseteq> Q" and step: "sys_step E now s t"
  shows "answered_inv E B Q st0 t"
  using step
proof cases
  case (core is_running is_closed w go)
  from sys(1) obtain q where q: "w_output (sy_core s) = Some q"
    by (auto simp: sys_inv_def queue_inv_def split: option.splits)
  from loop_iteration_queue [OF core(3) q] obtain new where new: "w_output w = Some (q\<lparr>q_items := q_items q @ new\<rparr>)"
    "\<And>p. p \<in> set new \<Longrightarrow> stems_from (set (w_balances (sy_core s))) (set (w_orders (sy_core s))) p" by blast
  have "stems_from B Q p" if "p \<in> set new" for p
    by (rule stems_from_mono [OF new(2) [OF that] inputs])
  with inv q new(1) core show ?thesis by (auto simp: answered_inv_def journal_queue_def)
next
  case (journal committed arrived)
  from inv obtain reqs st i where r: "jw_replies (sy_journal s) = map finish reqs" "\<And>p. p \<in> set reqs \<Longrightarrow> stems_from B Q p"
    "served (ol_decimal E) st0 reqs st" "recover (ol_decimal E) (ol_codec E) (jw_store (sy_journal s)) = Inr (st, i)"
    and queued: "\<And>p. p \<in> set (journal_queue s) \<Longrightarrow> stems_from B Q p" by (auto simp: answered_inv_def)
  from sys(1) r(4) journal(2) have jn: "jw_sequence (sy_journal s) = int (length (record_rows (jw_store (sy_journal s))))"
    "served (ol_decimal E) st (journal_queue s) (w_state (sy_core s))"
    by (auto simp: sys_inv_def journal_inv_def)
  from sys(1) obtain q where q: "w_output (sy_core s) = Some q"
    by (auto simp: sys_inv_def queue_inv_def split: option.splits)
  let ?j = "(sy_journal s)\<lparr>jw_closed := w_closed (sy_core s)\<rparr>"
  obtain rest j' flag where it: "journal_iteration (ol_codec E) now committed arrived (sy_core_live s) (journal_queue s) ?j =
      (rest, j', flag)" by (rule prod_cases3)
  have t: "sy_journal t = j'" "journal_queue t = rest" using journal(1) q by (simp_all add: journal_turn_def it)
  show ?thesis
  proof (cases flag)
    case Continue
    have rec: "recover (ol_decimal E) (ol_codec E) (jw_store ?j) = Inr (st, i)"
      "jw_sequence ?j = int (length (record_rows (jw_store ?j)))" using r(4) jn by simp_all
    obtain batch st1 where b: "journal_queue s = batch @ rest" "served (ol_decimal E) st batch st1"
      "recover (ol_decimal E) (ol_codec E) (jw_store j') = Inr (st1, i)" "jw_replies j' = jw_replies ?j @ map finish batch"
      by (rule journal_iteration_durable [OF rec jn(2) it [unfolded Continue]]) blast
    have "jw_replies j' = map finish (reqs @ batch)" "\<forall>p \<in> set (reqs @ batch). stems_from B Q p" "\<forall>p \<in> set rest. stems_from B Q p"
      using b(1,4) r(1,2) queued by auto
    with served_append [OF b(2) r(3)] b(3) show ?thesis unfolding answered_inv_def t by blast
  next
    case (Stopped res)
    note st = journal_iteration_stops [OF it [unfolded Stopped]]
    from st(7) queued have "\<forall>p \<in> set rest. stems_from B Q p" by auto
    with st(1,2) r show ?thesis unfolding answered_inv_def t by auto
  qed
next
  case (deliver_turn d1 jdone d2)
  from inv obtain reqs st i where r: "jw_replies (sy_journal s) = map finish reqs" "\<forall>p \<in> set reqs. stems_from B Q p"
    "served (ol_decimal E) st0 reqs st" "recover (ol_decimal E) (ol_codec E) (jw_store (sy_journal s)) = Inr (st, i)"
    and queued: "\<forall>p \<in> set (journal_queue s). stems_from B Q p" by (auto simp: answered_inv_def)
  from sys(2) obtain st' i' where rec: "recover (ol_decimal E) (ol_codec E) (jw_store (sy_journal t)) = Inr (st', i')"
    by (auto simp: sys_inv_def journal_inv_def)
  have "st' = st"
    by (rule recover_same_rows [OF r(4) rec]) (simp_all add: deliver_turn(1) output_turn_frame)
  with r rec queued show ?thesis by (auto simp: answered_inv_def deliver_turn(1) output_turn_frame)
qed (use inv in \<open>simp_all add: answered_inv_def journal_queue_def\<close>)

lemma client_run_answered:
  assumes "client_run E now B Q s0 s" "started E s0"
  shows "answered_inv E B Q (w_state (sy_core s0)) s"
  using assms(1)
proof (induction rule: client_run.induct)
  case start
  from assms(2) show ?case
    by (auto simp: answered_inv_def started_def journal_queue_def intro: served.nothing split: option.splits)
next
  case (step s t)
  note inv = reachable_inv [OF client_run_reachable [OF step.hyps(1)] assms(2)]
  from step_keeps [OF step.hyps(2) inv] step.IH inv client_run_inputs [OF step.hyps(1)] step.hyps(2)
  show ?case by (blast intro: answered_step)
qed

end

text \<open>An answer belongs to the only command that carries its channel, and that command is in the history.\<close>

lemma served_member:
  assumes "served L st reqs st'" "p \<in> set reqs" "pd_command p = Some c"
  obtains before a b after where "served L st before a" "journal_apply L a c = Inr (b, pd_outcome p)" "served L b after st'"
proof -
  from assms(2) obtain ps qs where "reqs = (ps @ [p]) @ qs" by (auto dest: split_list)
  with assms(1) obtain b where b: "served L st (ps @ [p]) b" "served L b qs st'" using served_split by metis
  from b(1) obtain a where "served L st ps a" "journal_apply L a c = Inr (b, pd_outcome p)"
    by (rule served_snocE) (use assms(3) in auto)
  with b(2) show thesis by (rule that [rotated 2])
qed

definition sole_command :: "chan \<Rightarrow> 'd Command \<Rightarrow> 'd Reply \<Rightarrow> 'd BalanceCommand set \<Rightarrow> 'd OrderCommand set \<Rightarrow> bool" where
  "sole_command sender c reply B Q \<longleftrightarrow>
     (\<forall>b \<in> B. balance_chan b = sender \<longrightarrow> route_balance b = (c, reply)) \<and>
     (\<forall>k \<in> Q. order_chan k = sender \<longrightarrow> (\<forall>L st. route_order L st k = (Some c, reply)))"

lemma answered_request:
  assumes "engine_pipeline E confirmed" "started E s0" "client_run E now B Q s0 s"
    and "sole_command sender c reply B Q" "(sender, response) \<in> set (jw_replies (sy_journal s))"
  obtains before a b after st i outcome where "served (ol_decimal E) (w_state (sy_core s0)) before a"
    "journal_apply (ol_decimal E) a c = Inr (b, outcome)" "served (ol_decimal E) b after st"
    "recover (ol_decimal E) (ol_codec E) (jw_store (sy_journal s)) = Inr (st, i)"
    "finish \<lparr>pd_command = Some c, pd_outcome = outcome, pd_reply = reply\<rparr> = (sender, response)"
proof -
  from engine_pipeline.client_run_answered [OF assms(1,3,2)] obtain reqs st i where r:
    "jw_replies (sy_journal s) = map finish reqs" "\<And>p. p \<in> set reqs \<Longrightarrow> stems_from B Q p"
    "served (ol_decimal E) (w_state (sy_core s0)) reqs st" "recover (ol_decimal E) (ol_codec E) (jw_store (sy_journal s)) = Inr (st, i)"
    by (auto simp: answered_inv_def)
  from assms(5) r(1) obtain p where p: "p \<in> set reqs" "finish p = (sender, response)" by auto
  from r(2) [OF p(1)] have "pd_command p = Some c \<and> pd_reply p = reply"
    unfolding stems_from_def
  proof (elim disjE bexE exE)
    fix b
    assume b: "b \<in> B" "map_prod Some id (route_balance b) = (pd_command p, pd_reply p)"
    with finish_chan(1) [OF b(2)] p(2) assms(4) show ?thesis by (auto simp: sole_command_def map_prod_def)
  next
    fix k L st
    assume k: "k \<in> Q" "route_order L st k = (pd_command p, pd_reply p)"
    with finish_chan(2) [OF k(2)] p(2) assms(4) show ?thesis by (auto simp: sole_command_def)
  qed
  then have c: "pd_command p = Some c" "pd_reply p = reply" by simp_all
  from r(3) p(1) c(1) obtain before a b after where "served (ol_decimal E) (w_state (sy_core s0)) before a"
    "journal_apply (ol_decimal E) a c = Inr (b, pd_outcome p)" "served (ol_decimal E) b after st" by (rule served_member)
  then show thesis by (rule that [OF _ _ _ r(4)]) (use c p(2) in \<open>cases reply; simp add: finish_def\<close>)
qed

section \<open>Receipts of deposits and submissions stay\<close>

lemma journal_apply_receipts:
  assumes "journal_apply L st c = Inr (st', out)"
  shows "hm_get (deposit_receipts st) i = Some r \<Longrightarrow> hm_get (deposit_receipts st') i = Some r"
    and "hm_get (submissions st) k = Some e \<Longrightarrow> hm_get (submissions st') k = Some e"
proof -
  have "st' = st \<or> (\<exists>res. execute L st c = (st', res))"
    using assms by (auto simp: journal_apply_def split: option.splits prod.splits sum.splits failure.splits)
  then have "(hm_get (deposit_receipts st) i = Some r \<longrightarrow> hm_get (deposit_receipts st') i = Some r) \<and>
    (hm_get (submissions st) k = Some e \<longrightarrow> hm_get (submissions st') k = Some e)"
  proof (elim disjE exE)
    fix res
    assume "execute L st c = (st', res)"
    then show ?thesis
      by (cases c)
        (auto simp: withdrawal_apply_def deposit_apply_def execute_submit_def execute_cancel_def execute_balance_def
          execute_executor_def Let_def split: sum.splits proceed.splits failure.splits option.splits prod.splits if_splits)
  qed simp
  then show "hm_get (deposit_receipts st) i = Some r \<Longrightarrow> hm_get (deposit_receipts st') i = Some r"
    "hm_get (submissions st) k = Some e \<Longrightarrow> hm_get (submissions st') k = Some e" by simp_all
qed

lemma served_receipts:
  assumes "served L st ps st'"
  shows "hm_get (deposit_receipts st) i = Some r \<Longrightarrow> hm_get (deposit_receipts st') i = Some r"
    and "hm_get (submissions st) k = Some e \<Longrightarrow> hm_get (submissions st') k = Some e"
  using assms by (induction rule: served.induct) (auto dest: journal_apply_receipts)

context decimal_library
begin

lemma deposit_outcome:
  assumes "journal_apply L a (CreditDeposit credit) = Inr (b, out)"
  shows "case out of Failed _ \<Rightarrow> cache_of b = cache_of a
    | _ \<Rightarrow> \<exists>receipt. hm_get (deposit_receipts b) (dc_deposit_id credit) = Some receipt \<and> dr_rejection receipt = None \<and>
        deposit_credit_eq L (dr_original receipt) credit"
  using assms
  by (auto simp: journal_apply_def recorded_cancellation_def deposit_apply_def Let_def ensure_Inr_iff deposit_credit_eq_def dec_simps
      split: option.splits sum.splits failure.splits prod.splits)

lemma submit_outcome:
  assumes "journal_apply L a (Submit order) = Inr (b, out)"
  shows "case out of Failed _ \<Rightarrow> True
    | _ \<Rightarrow> \<exists>e. hm_get (submissions b) (o_id order) = Some e \<and> order_entry_eq L (order\<lparr>o_created_at := o_created_at e\<rparr>) e"
proof -
  have "order_entry_eq L (order\<lparr>o_created_at := o_created_at order\<rparr>) order" using order_entry_eq_refl by simp
  with assms show ?thesis
    by (auto simp: journal_apply_def recorded_cancellation_def execute_submit_def Let_def ensure_Inr_iff res_bind_Inr_iff
        split: option.splits sum.splits failure.splits prod.splits)
qed

end

section \<open>Properties\<close>


lemma sample_client_run:
  "client_run sample_outlet (\<lambda>_. 0) {BalanceCredit sample_credit 9} {} sample_system sample_run"
proof -
  let ?run = "client_run sample_outlet (\<lambda>_. 0) {BalanceCredit sample_credit 9} {} sample_system"
  let ?s1 = "core_turn sample_system"
  let ?s2 = "journal_turn sample_outlet (\<lambda>_. 0) True 1 ?s1"
  have two: "sys_step sample_outlet (\<lambda>_. 0) ?s1 ?s2" by (rule sys_step.journal [OF sample_first_steps(3)])
  have "sy_output_live ?s2 \<and> 1 \<le> durable (jw_progress (sy_journal ?s2))" by code_simp
  then have three: "sys_step sample_outlet (\<lambda>_. 0) ?s2 sample_run"
    unfolding sample_run_def by (intro sys_step.deliver_turn) simp_all
  have inputs: "set (w_balances (sy_core sample_system)) \<subseteq> {BalanceCredit sample_credit 9} \<and> w_orders (sy_core sample_system) = []"
    by (simp add: sample_system_def)
  have "w_balances (sy_core ?s1) = [] \<and> w_orders (sy_core ?s1) = []" by code_simp
  moreover have "w_balances (sy_core ?s2) = [] \<and> w_orders (sy_core ?s2) = []" by code_simp
  moreover have "w_balances (sy_core sample_run) = [] \<and> w_orders (sy_core sample_run) = []" by code_simp
  ultimately show ?thesis
    using client_run.step [OF client_run.step [OF client_run.step [OF client_run.start sample_first_steps(1)] two] three] inputs by simp
qed


end
