(* ===== verification/Startup.thy ===== *)
theory Startup
  imports Journal_Store
begin

text \<open>
  The opening balances of a first start (\<open>runtime/startup.rs\<close>) and the exact reading of decimal
  columns (\<open>shared/database/exact_decimal.rs\<close>). The platform's database is the record \<open>Platform\<close>:
  the tables the inspection reads, as one snapshot, and the statements that fail, named by the
  context of their error. Rows of \<open>user_balances\<close> are listed in the order the database sorts assets in.
  An identifier is a \<open>BIGINT\<close>, so it fits \<open>i64\<close>. The text of a decoding error of the database library is left out of its message.
\<close>

section \<open>Reading decimal columns\<close>

definition normalized_numeric :: "string \<Rightarrow> string" where
  "normalized_numeric v =
     (if CHR ''.'' \<in> set v then trim_end_matches (CHR ''.'') (trim_end_matches (CHR ''0'') v) else v)"

definition parse_numeric :: "'d decimal_lib \<Rightarrow> string \<Rightarrow> string \<Rightarrow> 'd res" where
  "parse_numeric L v column =
     ok_or (''error occurred while decoding column '' @ column) (dec_from_str_exact L (normalized_numeric v))"

definition read_optional_decimal :: "'d decimal_lib \<Rightarrow> string option \<Rightarrow> string \<Rightarrow> 'd option res" where
  "read_optional_decimal L v column =
     (case v of None \<Rightarrow> Inr None | Some text \<Rightarrow> res_bind (parse_numeric L text column) (\<lambda>d. Inr (Some d)))"

section \<open>The inspection\<close>

record Platform =
  pf_unavailable :: "string \<Rightarrow> bool"
  engine_order_receipts :: "int list"
  engine_event_receipts :: "string list"
  bitcoin_credit_dispatch_attempts :: "string list"
  bitcoin_withdrawals :: "string list"
  bitcoin_withdrawal_dispatch_attempts :: "string list"
  pf_orders :: "(int \<times> string option) list"
  user_balances :: "(int \<times> string \<times> string \<times> string) list"

definition statement :: "Platform \<Rightarrow> string \<Rightarrow> 'a res \<Rightarrow> 'a res" where
  "statement db what k = ensure (\<not> pf_unavailable db what) what k"

definition final_statuses :: "string list" where
  "final_statuses = [''filled'', ''cancelled'', ''rejected'', ''expired'']"

definition unresolved_orders :: "Platform \<Rightarrow> (int \<times> string option) list" where
  "unresolved_orders db =
     sort_key fst (filter (\<lambda>(i, status). case status of None \<Rightarrow> True | Some s \<Rightarrow> s \<notin> set final_statuses) (pf_orders db))"

definition startup_row ::
    "'d decimal_lib \<Rightarrow> int \<times> string \<times> string \<times> string \<Rightarrow> 'd BalanceCache \<Rightarrow> 'd BalanceCache res" where
  "startup_row L row c =
     (case row of (stored_user_id, mint, available_text, locked_text) \<Rightarrow>
        ensure (stored_user_id \<le> i64_top) ''error occurred while decoding column user_id''
        (ensure (stored_user_id > 0) ''Engine startup blocked: invalid user id''
        (let user_id = word_of_int stored_user_id :: u64;
             who = ''user='' @ nat_str stored_user_id in
         res_bind (parse_numeric L available_text ''available'') (\<lambda>av'.
         res_bind (parse_numeric L locked_text ''locked'') (\<lambda>lk'.
         ensure (mint \<noteq> [] \<and> trim mint = mint)
           (''Engine startup blocked: invalid asset identifier for '' @ who)
         (ensure (dec_le L (dec_zero L) av' \<and> dec_le L (dec_zero L) lk')
           (''Engine startup blocked: negative balance for '' @ who @ '', mint='' @ mint)
         (ensure (dec_val L av' < 1000000000000000000000 \<and> dec_scale L (dec_normalize L av') \<le> 9)
           ''Engine startup blocked: available exceeds NUMERIC(30,9)''
         (ensure (dec_eq L lk' (dec_zero L))
           (''Engine startup blocked: unresolved locked balance for '' @ who @ '', mint='' @ mint @
            ''; authoritative replay is required'')
         (ensure (get_balance user_id mint c = None)
           (''Engine startup blocked: duplicate balance for '' @ who @ '', mint='' @ mint)
           (Inr (set_balance user_id mint av' lk' c)))))))))))"

definition load_balances :: "'d decimal_lib \<Rightarrow> Platform \<Rightarrow> 'd BalanceCache res" where
  "load_balances L db =
     statement db ''Failed to begin startup inspection''
     (statement db ''Failed to configure startup inspection snapshot''
     (statement db ''Failed to inspect durable engine receipts''
     (case sort (engine_order_receipts db) of
        order_id # _ \<Rightarrow>
          Inl (Error (''Engine startup blocked: durable receipt order_id='' @ int_str order_id @
            ''; authoritative replay is required''))
      | [] \<Rightarrow>
     statement db ''Failed to inspect current engine event history''
     (ensure (engine_event_receipts db = [])
       ''Engine startup blocked: current engine event history exists; restore the authoritative journal''
     (statement db ''Failed to inspect native deposit dispatch history''
     (ensure (bitcoin_credit_dispatch_attempts db = [])
       ''Engine startup blocked: native deposit dispatch history exists; restore the authoritative journal''
     (statement db ''Failed to inspect native withdrawal history''
     (ensure (bitcoin_withdrawals db = [])
       ''Engine startup blocked: native withdrawal history exists; restore the authoritative journal''
     (statement db ''Failed to inspect native withdrawal dispatch history''
     (ensure (bitcoin_withdrawal_dispatch_attempts db = [])
       ''Engine startup blocked: native withdrawal dispatch history exists; restore the authoritative journal''
     (statement db ''Failed to inspect unresolved orders during startup''
     (case unresolved_orders db of
        (order_id, status) # _ \<Rightarrow>
          Inl (Error (''Engine startup blocked: unresolved order id='' @ int_str order_id @ '', status='' @
            (case status of None \<Rightarrow> ''NULL'' | Some s \<Rightarrow> s) @ ''; authoritative replay is required''))
      | [] \<Rightarrow>
     statement db ''Failed to read balances during startup''
     (res_bind (res_fold (startup_row L) (sort_key fst (user_balances db)) BalanceCache_new) (\<lambda>balances.
      statement db ''Failed to finish startup inspection'' (Inr balances)))))))))))))))"

section \<open>What the inspection accepts\<close>

definition row_loaded :: "'d decimal_lib \<Rightarrow> 'd BalanceCache \<Rightarrow> int \<times> string \<times> string \<times> string \<Rightarrow> bool" where
  "row_loaded L c row \<longleftrightarrow> (case row of (user, mint, a, l) \<Rightarrow>
     (\<exists>av' lk'. parse_numeric L a ''available'' = Inr av' \<and> parse_numeric L l ''locked'' = Inr lk' \<and> dec_eq L lk' (dec_zero L) \<and>
        0 < user \<and> get_balance (word_of_int user) mint c = Some \<lparr>available = av', locked = lk'\<rparr>))"

definition account_seed :: "account \<times> 'd Balance \<Rightarrow> u64 \<times> string \<times> 'd \<times> 'd" where
  "account_seed x = (case x of ((user, mint), b) \<Rightarrow> (user, mint, available b, locked b))"

definition opening_ok :: "'d decimal_lib \<Rightarrow> 'd BalanceCache \<Rightarrow> bool" where
  "opening_ok L c \<longleftrightarrow> cache_ok L c \<and> list_all (\<lambda>x. seed_ok L (account_seed x)) (balances c)"

lemma opening_seeds: "opening_ok L c \<Longrightarrow> list_all (seed_ok L) (journal_seed c)"
  by (auto simp: opening_ok_def journal_seed_def list_all_iff account_seed_def)

lemma word_of_user: "0 < u \<Longrightarrow> u \<le> i64_top \<Longrightarrow> (0 :: u64) < word_of_int u"
  by (simp add: word_less_alt uint_word_of_int i64_top_def)

lemma row_loaded_mono:
  "row_loaded L c row \<Longrightarrow> (\<And>k b. hm_get (balances c) k = Some b \<Longrightarrow> hm_get (balances c') k = Some b) \<Longrightarrow> row_loaded L c' row"
  by (fastforce simp: row_loaded_def get_balance_def split: prod.splits)

context decimal_library
begin

lemma startup_amount:
  assumes "0 \<le> dec_val L a" "dec_val L a < 1000000000000000000000" "dec_scale L (dec_normalize L a) \<le> 9"
  shows "is_ok (units L a)"
proof -
  define w where "w = dec_normalize L a"
  define n where "n = dec_mantissa L w * 10 ^ (9 - dec_scale L w)"
  have w: "dec_val L w = dec_val L a" by (simp add: w_def normalize_val)
  have "(10::rat) ^ 9 = 10 ^ (9 - dec_scale L w) * 10 ^ dec_scale L w"
    using assms(3) by (simp add: w_def power_add [symmetric] del: power_Suc)
  then have n: "dec_val L a * 10 ^ 9 = of_int n"
    unfolding w [symmetric] by (simp add: dec_val_def n_def divide_eq_eq mult.assoc)
  have "0 \<le> dec_val L a * 10 ^ 9" "dec_val L a * 10 ^ 9 < 1000000000000000000000 * 10 ^ 9"
    using assms(1,2) by simp_all
  then have "0 \<le> (of_int n :: rat)" "(of_int n :: rat) < of_int (10 ^ 30)" unfolding n by simp_all
  then have "0 \<le> n" "n < 10 ^ 30" by (simp_all only: of_int_0_le_iff of_int_less_iff)
  with n have "units L a = Inr n" by (simp add: units_Inr_iff FACTOR_def MAX_UNITS_def)
  then show ?thesis by simp
qed

lemma startup_row_Inr:
  assumes "startup_row L row c = Inr c'" "opening_ok L c"
  shows "opening_ok L c'" "row_loaded L c' row" "length (balances c') = Suc (length (balances c))"
    "hm_get (balances c) k = Some b \<Longrightarrow> hm_get (balances c') k = Some b"
proof -
  obtain u m a l where row: "row = (u, m, a, l)" by (cases row)
  from assms(1) obtain av' lk' where r: "0 < u" "u \<le> i64_top" "parse_numeric L a ''available'' = Inr av'"
    "parse_numeric L l ''locked'' = Inr lk'" "m \<noteq> []" "trim m = m" "0 \<le> dec_val L av'"
    "dec_val L av' < 1000000000000000000000" "dec_scale L (dec_normalize L av') \<le> 9" "dec_val L lk' = 0"
    "hm_get (balances c) (word_of_int u, m) = None"
    and c': "c' = c\<lparr>balances := hm_insert (word_of_int u, m) \<lparr>available = av', locked = lk'\<rparr> (balances c)\<rparr>"
    by (auto simp: startup_row_def row Let_def res_bind_Inr_iff ensure_Inr_iff dec_simps get_balance_def set_balance_def)
  have ok: "is_ok (units L av')" "is_ok (units L lk')" using startup_amount [OF r(7-9)] zero_ok [OF r(10)] by simp_all
  have ins: "balances c' = balances c @ [((word_of_int u, m), \<lparr>available = av', locked = lk'\<rparr>)]"
    using hm_insert_fresh [OF r(11)] by (simp add: c')
  have "cache_ok L c'" using assms(2) ok by (simp add: opening_ok_def c' cache_ok_insert balance_ok_def)
  moreover have "seed_ok L (word_of_int u, m, av', lk')"
    using r ok word_of_user [OF r(1,2)] by (simp add: seed_ok_def dec_simps)
  ultimately show "opening_ok L c'" using assms(2) by (simp add: opening_ok_def ins account_seed_def)
  show "row_loaded L c' row" using r by (simp add: row_loaded_def row c' get_balance_def dec_simps)
  show "length (balances c') = Suc (length (balances c))" by (simp add: ins)
  show "hm_get (balances c) k = Some b \<Longrightarrow> hm_get (balances c') k = Some b" using r(11) by (auto simp: c')
qed

lemma startup_rows:
  assumes "res_fold (startup_row L) rows c = Inr c'" "opening_ok L c"
  shows "opening_ok L c' \<and> list_all (row_loaded L c') rows \<and> length (balances c') = length (balances c) + length rows \<and>
    (\<forall>k b. hm_get (balances c) k = Some b \<longrightarrow> hm_get (balances c') k = Some b)"
  using assms
proof (induction rows arbitrary: c)
  case (Cons row rows)
  then obtain c1 where c1: "startup_row L row c = Inr c1" "res_fold (startup_row L) rows c1 = Inr c'"
    by (auto simp: res_bind_Inr_iff)
  note one = startup_row_Inr [OF c1(1) Cons.prems(2)]
  note IH = Cons.IH [OF c1(2) one(1)]
  then have "row_loaded L c' row" using row_loaded_mono [OF one(2)] by blast
  with IH one(3,4) show ?case by auto
qed simp

lemma load_balances_Inr:
  assumes "load_balances L db = Inr c"
  shows "opening_ok L c" "list_all (row_loaded L c) (user_balances db)" "length (balances c) = length (user_balances db)"
    "engine_order_receipts db = [] \<and> engine_event_receipts db = [] \<and> bitcoin_credit_dispatch_attempts db = [] \<and>
     bitcoin_withdrawals db = [] \<and> bitcoin_withdrawal_dispatch_attempts db = [] \<and> unresolved_orders db = []"
proof -
  from assms have r: "res_fold (startup_row L) (sort_key fst (user_balances db)) BalanceCache_new = Inr c"
    and s: "sort (engine_order_receipts db) = []" "engine_event_receipts db = []" "bitcoin_credit_dispatch_attempts db = []"
     "bitcoin_withdrawals db = []" "bitcoin_withdrawal_dispatch_attempts db = []" "unresolved_orders db = []"
    by (auto simp: load_balances_def statement_def ensure_Inr_iff res_bind_Inr_iff split: list.splits)
  have "opening_ok L BalanceCache_new" by (simp add: opening_ok_def cache_ok_def BalanceCache_new_def)
  from startup_rows [OF r this] have f: "opening_ok L c" "list_all (row_loaded L c) (sort_key fst (user_balances db))"
    "length (balances c) = length (user_balances db)"
    by (simp_all add: BalanceCache_new_def)
  then show "opening_ok L c" "list_all (row_loaded L c) (user_balances db)" "length (balances c) = length (user_balances db)"
    by (simp_all add: list_all_iff)
  have "engine_order_receipts db = []" using s(1) by (metis length_0_conv length_sort)
  with s show "engine_order_receipts db = [] \<and> engine_event_receipts db = [] \<and> bitcoin_credit_dispatch_attempts db = [] \<and>
     bitcoin_withdrawals db = [] \<and> bitcoin_withdrawal_dispatch_attempts db = [] \<and> unresolved_orders db = []" by simp
qed

end

section \<open>Properties\<close>


definition sample_platform :: Platform where
  "sample_platform =
     \<lparr>pf_unavailable = (\<lambda>_. False), engine_order_receipts = [], engine_event_receipts = [],
      bitcoin_credit_dispatch_attempts = [], bitcoin_withdrawals = [], bitcoin_withdrawal_dispatch_attempts = [],
      pf_orders = [(3, Some ''filled'')], user_balances = [(1, ''USDT'', ''500.000000000'', ''0'')]\<rparr>"


end
