(* ===== verification/Order_Receipt.thy ===== *)
theory Order_Receipt
  imports Startup
begin

text \<open>
  The request for a new order (\<open>models/order.rs\<close>) and its durable acceptance in the platform's
  database (\<open>services/order_receipt.rs\<close>).

  The database is the record \<open>PlatformDb\<close>; a \<open>NUMERIC\<close> column is its text, as the statements read it.
  The transaction runs at READ COMMITTED: every statement sees what has been committed before it, so
  other transactions may commit between any two statements. The record \<open>session\<close> says what they
  commit before each statement, which statement fails, and how the commit ends. The key of a
  row that was inserted but not committed blocks other inserts of that key, so the insertion and the
  commit stand together. The text of a numeric that is stored is the database's, a parameter.
\<close>

section \<open>Requests\<close>

record 'd CreateOrderRequest =
  cr_order_id :: "u64 option"
  cr_user_id :: u64
  cr_order_type :: string
  cr_order_side :: string
  cr_base_mint :: string
  cr_quote_mint :: "string option"
  cr_price :: "'d option"
  cr_amount :: "'d option"
  cr_quote_amount :: "'d option"

definition deserialize_exact_optional_decimal :: "'d decimal_lib \<Rightarrow> string option \<Rightarrow> 'd option option" where
  "deserialize_exact_optional_decimal L v =
     (case v of
        None \<Rightarrow> Some None
      | Some t \<Rightarrow>
          (let normalized = (if CHR ''.'' \<in> set t then trim_end_matches (CHR ''.'') (trim_end_matches (CHR ''0'') t) else t) in
           map_option Some (dec_from_str_exact L normalized)))"

definition request_quote_mint :: "'d CreateOrderRequest \<Rightarrow> string" where
  "request_quote_mint request = (case cr_quote_mint request of None \<Rightarrow> ''USDT'' | Some m \<Rightarrow> m)"

section \<open>Receipts\<close>

datatype accept_error = ReceiptInvalid | ReceiptConflict | Unavailable string | HandlerPanic string

record OrderAcceptance =
  oa_order_id :: string
  oa_user_id :: string
  oa_receipt_status :: string
  oa_accepted_at :: datetime

record 'd AcceptanceResult =
  ar_receipt :: OrderAcceptance
  ar_created :: bool
  ar_fee_rate :: 'd

record command_row =
  cm_user_id :: int
  cm_order_type :: string
  cm_order_side :: string
  cm_base_mint :: string
  cm_quote_mint :: string
  cm_price :: "string option"
  cm_amount :: "string option"
  cm_quote_amount :: "string option"
  cm_fee_rate :: "string option"

record order_row =
  or_user_id :: int
  or_status :: string
  or_unfilled :: bool

text \<open>Receipts, submissions and orders by their identifier; a receipt also has its acceptance time.\<close>

record PlatformDb =
  db_receipts :: "(int \<times> command_row \<times> datetime) list"
  db_submissions :: "(int \<times> command_row) list"
  db_orders :: "(int \<times> order_row) list"

record 'd StoredCommand =
  sc_fee_rate :: 'd
  sc_order_id :: int
  sc_user_id :: int
  sc_order_type :: string
  sc_order_side :: string
  sc_base_mint :: string
  sc_quote_mint :: string
  sc_price :: "'d option"
  sc_amount :: "'d option"
  sc_quote_amount :: "'d option"
  sc_accepted_at :: datetime

definition from_row :: "'d decimal_lib \<Rightarrow> int \<Rightarrow> command_row \<Rightarrow> datetime \<Rightarrow> 'd StoredCommand res" where
  "from_row L order_id r accepted_at =
     res_bind (res_bind (read_optional_decimal L (cm_fee_rate r) ''fee_rate'')
                 (ok_or ''no column found for name: fee_rate'')) (\<lambda>rate.
     res_bind (read_optional_decimal L (cm_price r) ''price'') (\<lambda>price.
     res_bind (read_optional_decimal L (cm_amount r) ''amount'') (\<lambda>amount.
     res_bind (read_optional_decimal L (cm_quote_amount r) ''quote_amount'') (\<lambda>budget.
       Inr \<lparr>sc_fee_rate = rate, sc_order_id = order_id, sc_user_id = cm_user_id r, sc_order_type = cm_order_type r,
            sc_order_side = cm_order_side r, sc_base_mint = cm_base_mint r, sc_quote_mint = cm_quote_mint r,
            sc_price = price, sc_amount = amount, sc_quote_amount = budget, sc_accepted_at = accepted_at\<rparr>))))"

definition command_matches :: "'d decimal_lib \<Rightarrow> 'd StoredCommand \<Rightarrow> 'd CreateOrderRequest \<Rightarrow> bool" where
  "command_matches L c request \<longleftrightarrow>
     Some (word_of_int (sc_order_id c)) = cr_order_id request \<and> word_of_int (sc_user_id c) = cr_user_id request \<and>
     sc_order_type c = cr_order_type request \<and> sc_order_side c = cr_order_side request \<and>
     sc_base_mint c = cr_base_mint request \<and> sc_quote_mint c = request_quote_mint request \<and>
     dec_eq_opt L (sc_price c) (cr_price request) \<and> dec_eq_opt L (sc_amount c) (cr_amount request) \<and>
     dec_eq_opt L (sc_quote_amount c) (cr_quote_amount request)"

definition i64_str :: "int \<Rightarrow> string" where
  "i64_str n = (if n < 0 then ''-'' @ nat_str (- n) else nat_str n)"

definition acceptance :: "'d StoredCommand \<Rightarrow> OrderAcceptance" where
  "acceptance c =
     \<lparr>oa_order_id = i64_str (sc_order_id c), oa_user_id = i64_str (sc_user_id c), oa_receipt_status = ''accepted'',
      oa_accepted_at = sc_accepted_at c\<rparr>"

definition accepted :: "'d StoredCommand \<Rightarrow> bool \<Rightarrow> 'd AcceptanceResult" where
  "accepted c created = \<lparr>ar_receipt = acceptance c, ar_created = created, ar_fee_rate = sc_fee_rate c\<rparr>"

section \<open>Transactions\<close>

datatype commit_result = Committed | CommitFailed bool

record 'd session =
  ss_others :: "nat \<Rightarrow> PlatformDb \<Rightarrow> PlatformDb"
  ss_fails :: "nat \<Rightarrow> bool"
  ss_commit :: commit_result
  ss_transaction_now :: datetime
  ss_clock :: datetime
  ss_numeric :: "'d \<Rightarrow> string"

type_synonym 'a transaction = "PlatformDb \<Rightarrow> PlatformDb \<times> (accept_error + 'a)"

definition tx_bind :: "'a transaction \<Rightarrow> ('a \<Rightarrow> 'b transaction) \<Rightarrow> 'b transaction" where
  "tx_bind m f db = (case m db of (db', Inl e) \<Rightarrow> (db', Inl e) | (db', Inr x) \<Rightarrow> f x db')"

definition tx_stop :: "accept_error \<Rightarrow> 'a transaction" where
  "tx_stop e db = (db, Inl e)"

definition tx_ensure :: "bool \<Rightarrow> accept_error \<Rightarrow> 'a transaction \<Rightarrow> 'a transaction" where
  "tx_ensure b e m = (if b then m else tx_stop e)"

text \<open>Statement number \<open>k\<close>: what others committed before it is visible; it fails or yields a result.\<close>

definition tx_statement :: "'d session \<Rightarrow> nat \<Rightarrow> (PlatformDb \<Rightarrow> 'a res) \<Rightarrow> 'a transaction" where
  "tx_statement S k query db =
     (let db' = ss_others S k db in
      if ss_fails S k then (db', Inl (Unavailable ''statement failed''))
      else (case query db' of
              Inr x \<Rightarrow> (db', Inr x)
            | Inl (Error e) \<Rightarrow> (db', Inl (Unavailable e))
            | Inl (Panic e) \<Rightarrow> (db', Inl (Unavailable e))))"

definition tx_commit :: "'d session \<Rightarrow> (PlatformDb \<Rightarrow> PlatformDb) \<Rightarrow> 'a \<Rightarrow> 'a transaction" where
  "tx_commit S change x db =
     (case ss_commit S of
        Committed \<Rightarrow> (change db, Inr x)
      | CommitFailed done \<Rightarrow> (if done then change db else db, Inl (Unavailable ''Commit durable engine acceptance'')))"

definition select_receipt :: "'d decimal_lib \<Rightarrow> int \<Rightarrow> PlatformDb \<Rightarrow> 'd StoredCommand option res" where
  "select_receipt L order_id db =
     (case map_of (db_receipts db) order_id of
        None \<Rightarrow> Inr None
      | Some (r, t) \<Rightarrow> res_bind (from_row L order_id r t) (\<lambda>c. Inr (Some c)))"

definition select_original :: "'d decimal_lib \<Rightarrow> 'd session \<Rightarrow> int \<Rightarrow> int \<Rightarrow> PlatformDb \<Rightarrow> 'd StoredCommand option res" where
  "select_original L S order_id user_id db =
     (case (map_of (db_submissions db) order_id, map_of (db_orders db) order_id) of
        (Some r, Some o') \<Rightarrow>
          (if cm_user_id r = user_id \<and> or_user_id o' = user_id \<and> or_status o' = ''pending'' \<and> or_unfilled o'
           then res_bind (from_row L order_id r (ss_transaction_now S)) (\<lambda>c. Inr (Some c)) else Inr None)
      | _ \<Rightarrow> Inr None)"

definition receipt_row :: "'d session \<Rightarrow> int \<Rightarrow> 'd StoredCommand \<Rightarrow> command_row" where
  "receipt_row S user_id c =
     \<lparr>cm_user_id = user_id, cm_order_type = sc_order_type c, cm_order_side = sc_order_side c,
      cm_base_mint = sc_base_mint c, cm_quote_mint = sc_quote_mint c, cm_price = map_option (ss_numeric S) (sc_price c),
      cm_amount = map_option (ss_numeric S) (sc_amount c), cm_quote_amount = map_option (ss_numeric S) (sc_quote_amount c),
      cm_fee_rate = Some (ss_numeric S (sc_fee_rate c))\<rparr>"

definition bigint_id :: "u64 \<Rightarrow> int option" where
  "bigint_id n = (if 0 < uint n \<and> uint n \<le> i64_top then Some (uint n) else None)"

text \<open>An existing receipt answers the request, or the request contradicts it.\<close>

definition answer_existing ::
    "'d decimal_lib \<Rightarrow> 'd session \<Rightarrow> 'd CreateOrderRequest \<Rightarrow> 'd StoredCommand \<Rightarrow> 'd AcceptanceResult transaction" where
  "answer_existing L S request existing =
     tx_ensure (command_matches L existing request) ReceiptConflict
       (tx_commit S id (accepted existing False))"

definition insert_receipt ::
    "'d decimal_lib \<Rightarrow> 'd session \<Rightarrow> int \<Rightarrow> int \<Rightarrow> 'd CreateOrderRequest \<Rightarrow> 'd StoredCommand \<Rightarrow> 'd AcceptanceResult transaction" where
  "insert_receipt L S order_id user_id request original =
     tx_bind (tx_statement S 6 (\<lambda>db.
        if map_of (db_receipts db) order_id = None
        then res_bind (from_row L order_id (receipt_row S user_id original) (ss_clock S)) (\<lambda>c. Inr (Some c))
        else Inr None)) (\<lambda>inserted.
     case inserted of
       Some stored \<Rightarrow>
         tx_ensure (command_matches L stored request) ReceiptConflict
           (tx_commit S (\<lambda>db. db\<lparr>db_receipts := db_receipts db @ [(order_id, receipt_row S user_id original, ss_clock S)]\<rparr>)
              (accepted stored True))
     | None \<Rightarrow>
         tx_bind (tx_statement S 7 (\<lambda>db. res_bind (select_receipt L order_id db)
                    (ok_or ''no rows returned by a query that expected to return at least one row'')))
           (answer_existing L S request))"

definition accept ::
    "'d decimal_lib \<Rightarrow> 'd session \<Rightarrow> 'd CreateOrderRequest \<Rightarrow> 'd AcceptanceResult transaction" where
  "accept L S request =
     (case (Option.bind (cr_order_id request) bigint_id, bigint_id (cr_user_id request)) of
        (Some order_id, Some user_id) \<Rightarrow>
          tx_bind (tx_statement S 0 (\<lambda>_. Inr ())) (\<lambda>_.
          tx_bind (tx_statement S 1 (\<lambda>_. Inr ())) (\<lambda>_.
          tx_bind (tx_statement S 2 (\<lambda>_. Inr ())) (\<lambda>_.
          tx_bind (tx_statement S 3 (select_receipt L order_id)) (\<lambda>existing.
          case existing of
            Some existing \<Rightarrow> answer_existing L S request existing
          | None \<Rightarrow>
              tx_bind (tx_statement S 4 (select_original L S order_id user_id)) (\<lambda>original.
              case original of
                None \<Rightarrow>
                  tx_bind (tx_statement S 5 (select_receipt L order_id)) (\<lambda>existing.
                  case existing of
                    None \<Rightarrow> tx_stop ReceiptInvalid
                  | Some existing \<Rightarrow> answer_existing L S request existing)
              | Some original \<Rightarrow>
                  tx_ensure (command_matches L original request) ReceiptConflict
                  (case fee L (dec_zero L) (sc_fee_rate original) of
                     Inl (Error e) \<Rightarrow> tx_stop (Unavailable e)
                   | Inl (Panic e) \<Rightarrow> tx_stop (Unavailable e)
                   | Inr _ \<Rightarrow> insert_receipt L S order_id user_id request original))))))
      | _ \<Rightarrow> tx_stop ReceiptInvalid)"

section \<open>Receipts are never replaced\<close>

definition grows :: "PlatformDb \<Rightarrow> PlatformDb \<Rightarrow> bool" where
  "grows db db' \<longleftrightarrow> (\<forall>i r. map_of (db_receipts db) i = Some r \<longrightarrow> map_of (db_receipts db') i = Some r)"

text \<open>The other transactions of a session add receipts and never change or delete one.\<close>

definition steady :: "'d session \<Rightarrow> bool" where
  "steady S \<longleftrightarrow> (\<forall>k db. grows db (ss_others S k db))"

definition growing :: "'a transaction \<Rightarrow> bool" where
  "growing m \<longleftrightarrow> (\<forall>db. grows db (fst (m db)))"

lemma grows_refl [simp]: "grows db db"
  by (simp add: grows_def)

lemma grows_trans: "grows a b \<Longrightarrow> grows b c \<Longrightarrow> grows a c"
  by (simp add: grows_def)

lemma growing_bind [intro]:
  assumes "growing m" "\<And>x. growing (f x)"
  shows "growing (tx_bind m f)"
  unfolding growing_def
proof
  fix db
  obtain db1 r where m: "m db = (db1, r)" by (cases "m db")
  then have g: "grows db db1" using assms(1) unfolding growing_def by (metis fst_conv)
  show "grows db (fst (tx_bind m f db))"
  proof (cases r)
    case (Inr x)
    have "grows db1 (fst (f x db1))" using assms(2) unfolding growing_def by blast
    with g m Inr show ?thesis by (auto simp: tx_bind_def intro: grows_trans)
  qed (use g m in \<open>simp add: tx_bind_def\<close>)
qed

lemma growing_stop [intro, simp]: "growing (tx_stop e)"
  by (simp add: growing_def tx_stop_def)

lemma growing_ensure [intro]: "growing m \<Longrightarrow> growing (tx_ensure b e m)"
  by (simp add: tx_ensure_def)

lemma growing_statement [intro]: "steady S \<Longrightarrow> growing (tx_statement S k q)"
  by (auto simp: growing_def steady_def tx_statement_def Let_def split: sum.splits failure.splits)

lemma growing_commit [intro]: "(\<And>db. grows db (change db)) \<Longrightarrow> growing (tx_commit S change x)"
  by (simp add: growing_def tx_commit_def split: commit_result.splits)

lemma growing_accept:
  assumes "steady S"
  shows "growing (accept L S request)"
proof -
  have existing: "growing (answer_existing L S request c)" for c
    unfolding answer_existing_def by (intro growing_ensure growing_commit) simp
  have insert: "growing (insert_receipt L S i u request c)" for i u c
    unfolding insert_receipt_def using assms existing
    by (auto intro!: growing_bind growing_statement growing_ensure growing_commit simp: grows_def map_add_Some_iff split: option.splits)
  show ?thesis
    unfolding accept_def using assms existing insert
    by (auto intro!: growing_bind growing_statement growing_ensure split: option.splits sum.splits failure.splits)
qed

lemma tx_bind_Inr: "tx_bind m f db = (db', Inr x) \<longleftrightarrow> (\<exists>db1 y. m db = (db1, Inr y) \<and> f y db1 = (db', Inr x))"
  by (auto simp: tx_bind_def split: prod.splits sum.splits)

lemma tx_ensure_Inr: "tx_ensure b e m db = (db', Inr x) \<longleftrightarrow> b \<and> m db = (db', Inr x)"
  by (simp add: tx_ensure_def tx_stop_def)

lemma tx_stop_Inr [simp]: "tx_stop e db \<noteq> (db', Inr x)"
  by (simp add: tx_stop_def)

lemma tx_statement_Inr: "tx_statement S k q db = (db', Inr x) \<longleftrightarrow> db' = ss_others S k db \<and> \<not> ss_fails S k \<and> q db' = Inr x"
  by (auto simp: tx_statement_def Let_def split: sum.splits failure.splits)

lemma tx_commit_Inr: "tx_commit S change x db = (db', Inr y) \<longleftrightarrow> ss_commit S = Committed \<and> db' = change db \<and> y = x"
  by (auto simp: tx_commit_def split: commit_result.splits)

lemmas tx_simps = tx_bind_Inr tx_ensure_Inr tx_statement_Inr tx_commit_Inr

text \<open>The receipt that a successful acceptance rests on.\<close>

definition receipt_backs ::
    "'d decimal_lib \<Rightarrow> PlatformDb \<Rightarrow> int \<Rightarrow> 'd CreateOrderRequest \<Rightarrow> 'd AcceptanceResult \<Rightarrow> bool" where
  "receipt_backs L db order_id request a \<longleftrightarrow>
     (\<exists>r t c. map_of (db_receipts db) order_id = Some (r, t) \<and> from_row L order_id r t = Inr c \<and>
        command_matches L c request \<and> a = accepted c (ar_created a))"

lemma select_receipt_Inr:
  "select_receipt L order_id db = Inr (Some c) \<longleftrightarrow>
     (\<exists>r t. map_of (db_receipts db) order_id = Some (r, t) \<and> from_row L order_id r t = Inr c)"
  by (auto simp: select_receipt_def res_bind_Inr_iff split: option.splits prod.splits)

lemma answer_existing_Inr:
  assumes "answer_existing L S request c db = (db', Inr a)" "select_receipt L order_id db = Inr (Some c)"
  shows "db' = db \<and> receipt_backs L db' order_id request a \<and> \<not> ar_created a"
  using assms by (auto simp: answer_existing_def tx_simps receipt_backs_def select_receipt_Inr accepted_def)

lemma insert_receipt_Inr:
  assumes "insert_receipt L S order_id user_id request original db = (db', Inr a)"
  shows "receipt_backs L db' order_id request a"
proof -
  from assms obtain inserted db1 where db1: "db1 = ss_others S 6 db"
    and ins: "(if map_of (db_receipts db1) order_id = None
        then res_bind (from_row L order_id (receipt_row S user_id original) (ss_clock S)) (\<lambda>c. Inr (Some c)) else Inr None) = Inr inserted"
    and run: "(case inserted of
       Some stored \<Rightarrow>
         tx_ensure (command_matches L stored request) ReceiptConflict
           (tx_commit S (\<lambda>db. db\<lparr>db_receipts := db_receipts db @ [(order_id, receipt_row S user_id original, ss_clock S)]\<rparr>)
              (accepted stored True))
     | None \<Rightarrow>
         tx_bind (tx_statement S 7 (\<lambda>db. res_bind (select_receipt L order_id db)
                    (ok_or ''no rows returned by a query that expected to return at least one row'')))
           (answer_existing L S request)) db1 = (db', Inr a)"
    by (auto simp: insert_receipt_def tx_bind_Inr tx_statement_Inr)
  show ?thesis
  proof (cases inserted)
    case None
    with run obtain c db2 where c: "select_receipt L order_id db2 = Inr (Some c)" "answer_existing L S request c db2 = (db', Inr a)"
      by (auto simp: tx_bind_Inr tx_statement_Inr res_bind_Inr_iff ok_or_Inr_iff)
    from answer_existing_Inr [OF c(2,1)] show ?thesis by blast
  next
    case (Some stored)
    with run ins show ?thesis
      by (auto simp: tx_simps receipt_backs_def accepted_def res_bind_Inr_iff map_add_def split: if_splits)
  qed
qed

lemma accept_Inr:
  assumes "accept L S request db = (db', Inr a)"
  obtains order_id user_id where "Option.bind (cr_order_id request) bigint_id = Some order_id"
    "bigint_id (cr_user_id request) = Some user_id" "receipt_backs L db' order_id request a"
    "steady S \<Longrightarrow> map_of (db_receipts db) order_id \<noteq> None \<Longrightarrow> \<not> ar_created a"
proof -
  from assms obtain order_id user_id where ids: "Option.bind (cr_order_id request) bigint_id = Some order_id"
    "bigint_id (cr_user_id request) = Some user_id"
    by (auto simp: accept_def split: option.splits)
  with assms obtain db3 existing where s3: "db3 = ss_others S 3 (ss_others S 2 (ss_others S 1 (ss_others S 0 db)))"
    "select_receipt L order_id db3 = Inr existing"
    and run: "(case existing of
            Some existing \<Rightarrow> answer_existing L S request existing
          | None \<Rightarrow>
              tx_bind (tx_statement S 4 (select_original L S order_id user_id)) (\<lambda>original.
              case original of
                None \<Rightarrow>
                  tx_bind (tx_statement S 5 (select_receipt L order_id)) (\<lambda>existing.
                  case existing of
                    None \<Rightarrow> tx_stop ReceiptInvalid
                  | Some existing \<Rightarrow> answer_existing L S request existing)
              | Some original \<Rightarrow>
                  tx_ensure (command_matches L original request) ReceiptConflict
                  (case fee L (dec_zero L) (sc_fee_rate original) of
                     Inl (Error e) \<Rightarrow> tx_stop (Unavailable e)
                   | Inl (Panic e) \<Rightarrow> tx_stop (Unavailable e)
                   | Inr _ \<Rightarrow> insert_receipt L S order_id user_id request original))) db3 = (db', Inr a)"
    by (auto simp: accept_def tx_bind_Inr tx_statement_Inr)
  show thesis
  proof (cases existing)
    case (Some c)
    with run s3 answer_existing_Inr show ?thesis by (intro that [OF ids]) fastforce+
  next
    case None
    have old: "map_of (db_receipts db) order_id = None" if "steady S"
    proof (rule ccontr)
      assume "map_of (db_receipts db) order_id \<noteq> None"
      moreover have "grows db db3" using that unfolding s3 steady_def by (meson grows_trans)
      ultimately have "map_of (db_receipts db3) order_id \<noteq> None" unfolding grows_def by blast
      with s3(2) None show False by (auto simp: select_receipt_def res_bind_Inr_iff split: option.splits prod.splits)
    qed
    from None run obtain db4 original where run: "(case original of
                None \<Rightarrow>
                  tx_bind (tx_statement S 5 (select_receipt L order_id)) (\<lambda>existing.
                  case existing of
                    None \<Rightarrow> tx_stop ReceiptInvalid
                  | Some existing \<Rightarrow> answer_existing L S request existing)
              | Some original \<Rightarrow>
                  tx_ensure (command_matches L original request) ReceiptConflict
                  (case fee L (dec_zero L) (sc_fee_rate original) of
                     Inl (Error e) \<Rightarrow> tx_stop (Unavailable e)
                   | Inl (Panic e) \<Rightarrow> tx_stop (Unavailable e)
                   | Inr _ \<Rightarrow> insert_receipt L S order_id user_id request original)) db4 = (db', Inr a)"
      by (auto simp: tx_bind_Inr)
    have "receipt_backs L db' order_id request a"
    proof (cases original)
      case None
      with run obtain db5 c where "select_receipt L order_id db5 = Inr (Some c)" "answer_existing L S request c db5 = (db', Inr a)"
        by (auto simp: tx_bind_Inr tx_statement_Inr split: option.splits)
      with answer_existing_Inr show ?thesis by blast
    next
      case (Some c)
      with run have "insert_receipt L S order_id user_id request c db4 = (db', Inr a)"
        by (auto simp: tx_ensure_Inr split: sum.splits failure.splits)
      then show ?thesis by (rule insert_receipt_Inr)
    qed
    with old show ?thesis by (intro that [OF ids]) auto
  qed
qed

section \<open>Properties\<close>

text \<open>Two requests with the same content: amounts are compared as numbers.\<close>

definition same_request :: "'d decimal_lib \<Rightarrow> 'd CreateOrderRequest \<Rightarrow> 'd CreateOrderRequest \<Rightarrow> bool" where
  "same_request L a b \<longleftrightarrow>
     cr_order_id a = cr_order_id b \<and> cr_user_id a = cr_user_id b \<and> cr_order_type a = cr_order_type b \<and>
     cr_order_side a = cr_order_side b \<and> cr_base_mint a = cr_base_mint b \<and> request_quote_mint a = request_quote_mint b \<and>
     dec_eq_opt L (cr_price a) (cr_price b) \<and> dec_eq_opt L (cr_amount a) (cr_amount b) \<and>
     dec_eq_opt L (cr_quote_amount a) (cr_quote_amount b)"

context decimal_library
begin

lemma matches_same:
  "command_matches L c a \<Longrightarrow> command_matches L c b \<Longrightarrow> same_request L a b"
  by (auto simp: command_matches_def same_request_def dec_simps)

end

text \<open>
  C16. The acceptance binds an order identifier to one command, whatever other transactions commit
  between its statements, as long as none of them changes or deletes a receipt. A transaction never
  changes or removes a receipt itself. When one request was accepted, every later accepted request
  with that identifier has the same content, is reported as not newly created, and gets the fee rate
  and the acceptance time of the first: a retry cannot become another order.
\<close>

theorem accept_binds_once:
  assumes "decimal_library L" "steady S1" "steady S2"
    and "accept L S1 request db = (db1, Inr a)" "grows db1 db2" "accept L S2 again db2 = (db3, Inr b)"
    and "cr_order_id again = cr_order_id request"
  shows "same_request L again request \<and> \<not> ar_created b \<and> ar_fee_rate b = ar_fee_rate a \<and> ar_receipt b = ar_receipt a \<and>
    grows db db1 \<and> grows db2 db3"
proof -
  obtain i where i: "Option.bind (cr_order_id request) bigint_id = Some i" "receipt_backs L db1 i request a"
    by (rule accept_Inr [OF assms(4)])
  obtain j where j: "Option.bind (cr_order_id again) bigint_id = Some j" "receipt_backs L db3 j again b"
    "steady S2 \<Longrightarrow> map_of (db_receipts db2) j \<noteq> None \<Longrightarrow> \<not> ar_created b"
    by (rule accept_Inr [OF assms(6)]) (rule that)
  have ij: "j = i" using i(1) j(1) assms(7) by simp
  have g: "grows db db1" "grows db2 db3"
    using growing_accept [OF assms(2), of L request] growing_accept [OF assms(3), of L again] assms(4,6)
    unfolding growing_def by (metis fst_conv)+
  from i(2) obtain r t c where c: "map_of (db_receipts db1) i = Some (r, t)" "from_row L i r t = Inr c"
    "command_matches L c request" "a = accepted c (ar_created a)" unfolding receipt_backs_def by blast
  have kept: "map_of (db_receipts db2) i = Some (r, t)" "map_of (db_receipts db3) i = Some (r, t)"
    using c(1) assms(5) g(2) by (auto simp: grows_def)
  with j(2) ij c(2) have d: "command_matches L c again" "b = accepted c (ar_created b)"
    by (auto simp: receipt_backs_def)
  have "same_request L again request" by (rule decimal_library.matches_same [OF assms(1) d(1) c(3)])
  moreover have "ar_fee_rate b = ar_fee_rate a" "ar_receipt b = ar_receipt a"
    using c(4) d(2) by (metis AcceptanceResult.select_convs accepted_def)+
  ultimately show ?thesis using j(3) [OF assms(3)] kept(1) ij g by simp
qed

definition sample_request :: "refdec CreateOrderRequest" where
  "sample_request =
     \<lparr>cr_order_id = Some 1, cr_user_id = 101, cr_order_type = ''buy'', cr_order_side = ''limit'', cr_base_mint = ''SOL'',
      cr_quote_mint = None, cr_price = Some (RefDec 100 0), cr_amount = Some (RefDec 2 0), cr_quote_amount = None\<rparr>"

definition sample_session :: "refdec session" where
  "sample_session =
     \<lparr>ss_others = (\<lambda>_ db. db), ss_fails = (\<lambda>_. False), ss_commit = Committed, ss_transaction_now = 5, ss_clock = 6,
      ss_numeric = (\<lambda>d. if d = RefDec 100 0 then ''100.000000000'' else if d = RefDec 2 0 then ''2.000000000'' else ''0.000000'')\<rparr>"

definition sample_db :: PlatformDb where
  "sample_db =
     \<lparr>db_receipts = [],
      db_submissions = [(1, \<lparr>cm_user_id = 101, cm_order_type = ''buy'', cm_order_side = ''limit'', cm_base_mint = ''SOL'',
        cm_quote_mint = ''USDT'', cm_price = Some ''100.000000000'', cm_amount = Some ''2.000000000'', cm_quote_amount = None,
        cm_fee_rate = Some ''0.000000''\<rparr>)],
      db_orders = [(1, \<lparr>or_user_id = 101, or_status = ''pending'', or_unfilled = True\<rparr>)]\<rparr>"

theorem accept_binds_once_witness:
  "case accept ref_decimal sample_session sample_request sample_db of
     (db1, Inr a) \<Rightarrow>
       ar_created a \<and>
       (case accept ref_decimal sample_session sample_request db1 of
          (db2, Inr b) \<Rightarrow> \<not> ar_created b \<and> ar_receipt b = ar_receipt a
        | _ \<Rightarrow> False)
   | _ \<Rightarrow> False"
proof -
  have steady: "steady sample_session" by (simp add: steady_def sample_session_def)
  have "case accept ref_decimal sample_session sample_request sample_db of
      (db1, Inr a) \<Rightarrow> ar_created a \<and> (case accept ref_decimal sample_session sample_request db1 of (db2, Inr b) \<Rightarrow> True | _ \<Rightarrow> False)
    | _ \<Rightarrow> False" by code_simp
  then obtain db1 a db2 b where one: "accept ref_decimal sample_session sample_request sample_db = (db1, Inr a)" "ar_created a"
    and two: "accept ref_decimal sample_session sample_request db1 = (db2, Inr b)"
    by (auto split: prod.splits sum.splits)
  from accept_binds_once [OF refd.decimal_library_axioms steady steady one(1) grows_refl two refl] one two show ?thesis by simp
qed

end
