(* ===== verification/Audit_Page.thy ===== *)
theory Audit_Page
  imports Pipeline
begin

text \<open>
  The audit query (\<open>runtime/audit.rs\<close>) and the service keys (\<open>shared/service_identity.rs\<close>): a page of
  the confirmed events, read from the committed journal alone, behind a key that is compared by
  its hash. The file is \<open>None\<close> while no journal exists. The messages of the source are Korean;
  they stand here in English, and none of them leaves the process.
\<close>

section \<open>Service keys\<close>

definition ServiceToken_parse :: "'d codec \<Rightarrow> string \<Rightarrow> string res" where
  "ServiceToken_parse C v =
     ensure (32 \<le> length v \<and> length v \<le> 1024) ''a service key has 32 to 1024 bytes'' (Inr (sha256 C v))"

definition token_matches :: "'d codec \<Rightarrow> string \<Rightarrow> string \<Rightarrow> bool" where
  "token_matches C token provided =
     (if \<not> (32 \<le> length provided \<and> length provided \<le> 1024) then False else token = sha256 C provided)"

section \<open>Pages\<close>

record PageQuery =
  pq_after :: int
  pq_through :: "int option"
  pq_engine_id :: "string option"
  pq_limit :: "nat option"

record AuditPage =
  ap_engine_id :: string
  ap_through :: int
  ap_next_after :: int
  ap_events :: "string list"

definition page_limit :: "PageQuery \<Rightarrow> nat" where
  "page_limit q = (case pq_limit q of None \<Rightarrow> 50 | Some n \<Rightarrow> n)"

definition page_bytes :: int where
  "page_bytes = 4 * 1024 * 1024"

definition AuditReader_new :: "'d codec \<Rightarrow> string option \<Rightarrow> string option res" where
  "AuditReader_new C token =
     (case token of None \<Rightarrow> Inr None | Some t \<Rightarrow> res_bind (ServiceToken_parse C t) (\<lambda>h. Inr (Some h)))"

text \<open>The state of the callback: the bytes so far and the texts of the page.\<close>

definition audit_send :: "nat \<Rightarrow> string \<Rightarrow> (int \<times> string list) visit" where
  "audit_send index payload acc =
     (case acc of (bytes, events) \<Rightarrow>
        let bytes' = bytes + int (length payload) in
        if bytes' > page_bytes
        then ((bytes', events), Inl \<lparr>de_next_event = 0, de_reason = ''audit page too large''\<rparr>)
        else ((bytes', events @ [payload]), Inr ()))"

definition audit_row ::
    "'d codec \<Rightarrow> 'd Event json \<Rightarrow> row \<Rightarrow> AuditPage \<times> int \<Rightarrow> (AuditPage \<times> int) res" where
  "audit_row C json stored acc =
     (case (stored, acc) of ((key, text), (page, bytes)) \<Rightarrow>
        res_bind (u64_try_from key) (\<lambda>sequence.
        ensure (sequence = ap_next_after page + 1) ''missing journal sequence''
        (res_bind (decode C (record_from_str C) text) (\<lambda>record.
         ensure (rec_sequence record = sequence) ''journal sequence mismatch''
         (res_bind
           (case rec_outcome record of
              Applied (Some batch) \<Rightarrow>
                (case visit_events json audit_send batch
                        \<lparr>pos_engine_id = ap_engine_id page, pos_sequence = sequence, pos_timestamp = rec_timestamp record\<rparr>
                        (bytes, ap_events page) of
                   (acc', Inr _) \<Rightarrow> Inr acc'
                 | (_, Inl error) \<Rightarrow> Inl (Error (de_reason error)))
            | _ \<Rightarrow> Inr (bytes, ap_events page))
           (\<lambda>(bytes', events).
              ensure (bytes' \<le> page_bytes) ''audit page too large''
                (Inr (page\<lparr>ap_events := events, ap_next_after := sequence\<rparr>, bytes'))))))))"

definition audit_read :: "'d codec \<Rightarrow> 'd Event json \<Rightarrow> PageQuery \<Rightarrow> Store option \<Rightarrow> AuditPage res" where
  "audit_read C json query file =
     res_bind (ok_or ''unable to open database file'' file) (\<lambda>s.
     ensure (user_version s = 4) ''unsupported audit journal version''
     (res_bind (query_row 1 (genesis_rows s)) (\<lambda>stored.
      res_bind (decode C (genesis_from_str C) stored) (\<lambda>genesis.
      ensure (g_version genesis = 4 \<and> uuid_parses C (g_engine_id genesis)) ''invalid genesis''
      (ensure (case pq_engine_id query of None \<Rightarrow> True | Some i \<Rightarrow> i = g_engine_id genesis) ''the engine changed during the query''
      (res_bind (last_sequence s) (\<lambda>last.
       let through = (case pq_through query of None \<Rightarrow> last | Some n \<Rightarrow> n) in
       ensure (pq_after query \<le> through \<and> through \<le> last) ''the query leaves the committed range''
       (res_bind (i64_try_from (pq_after query)) (\<lambda>lower.
        res_bind (i64_try_from through) (\<lambda>upper.
        res_bind
          (res_fold (audit_row C json)
             (take (page_limit query) (sort_key fst (filter (\<lambda>(n, _). lower < n \<and> n \<le> upper) (record_rows s))))
             (\<lparr>ap_engine_id = g_engine_id genesis, ap_through = through, ap_next_after = pq_after query, ap_events = []\<rparr>, 0))
          (\<lambda>(page, bytes).
             ensure (ap_next_after page = through \<or> ap_next_after page > pq_after query) ''missing journal tail''
               (Inr page))))))))))))"

text \<open>
  The handler: the key of the reader, the value of the header, whether the one permit is free. The
  status is 200 with a page or the error status.
\<close>

definition audit_page ::
    "'d codec \<Rightarrow> 'd Event json \<Rightarrow> string option \<Rightarrow> string option \<Rightarrow> bool \<Rightarrow> PageQuery \<Rightarrow> Store option \<Rightarrow> int + AuditPage" where
  "audit_page C json token provided permit query file =
     (case token of
        None \<Rightarrow> Inl 503
      | Some t \<Rightarrow>
          (case provided of
             None \<Rightarrow> Inl 401
           | Some v \<Rightarrow>
               if \<not> token_matches C t v then Inl 401
               else if \<not> (1 \<le> page_limit query \<and> page_limit query \<le> 100) \<or> pq_after query > i64_top \<or>
                       (case pq_through query of None \<Rightarrow> False | Some n \<Rightarrow> n > i64_top) \<or>
                       (pq_after query > 0 \<and> (pq_through query = None \<or> pq_engine_id query = None))
               then Inl 400
               else if \<not> permit then Inl 429
               else (case audit_read C json query file of Inr page \<Rightarrow> Inr page | Inl _ \<Rightarrow> Inl 503)))"

section \<open>A page holds what the output worker sends\<close>

lemma audit_send_Inr:
  "audit_send i t (bytes, events) = ((bytes', events'), Inr u) \<Longrightarrow> bytes' = bytes + int (length t) \<and> events' = events @ [t]"
  by (simp add: audit_send_def Let_def split: if_splits)

lemma audit_visit:
  "visit_list json audit_send i es (bytes, events) = ((bytes', events'), Inr u) \<Longrightarrow>
   \<exists>texts. list_all2 (\<lambda>e t. json e = Inr t) es texts \<and> events' = events @ texts"
proof (induction es arbitrary: i bytes events)
  case (Cons e es)
  from Cons.prems obtain t bytes1 events1 where t: "json e = Inr t" "audit_send i t (bytes, events) = ((bytes1, events1), Inr ())"
    "visit_list json audit_send (Suc i) es (bytes1, events1) = ((bytes', events'), Inr u)"
    by (auto simp: visit_then_def send_event_def encode_def split: sum.splits prod.splits)
  from Cons.IH [OF t(3)] obtain texts where "list_all2 (\<lambda>e t. json e = Inr t) es texts" "events' = events1 @ texts" by blast
  with t(1) audit_send_Inr [OF t(2)] show ?case by (intro exI [of _ "t # texts"]) simp
qed (simp add: visit_done_def)

definition page_messages :: "AuditPage \<Rightarrow> message list" where
  "page_messages page = map (\<lambda>t. (''order-events'', Some (ap_engine_id page), t)) (ap_events page)"

lemma audit_row_Inr:
  assumes "audit_row C json stored (page, bytes) = Inr (page', bytes')"
  obtains r where "fst stored = ap_next_after page + 1" "decode C (record_from_str C) (snd stored) = Inr r"
    "rec_sequence r = fst stored" "ap_next_after page' = fst stored" "ap_engine_id page' = ap_engine_id page"
    "ap_through page' = ap_through page"
    "page_messages page' = page_messages page @ event_messages json (ap_engine_id page) (record_events (ap_engine_id page) r)"
proof -
  obtain key txt' where st: "stored = (key, txt')" by (cases stored)
  from assms obtain r events where r: "key = ap_next_after page + 1" "decode C (record_from_str C) txt' = Inr r"
    "rec_sequence r = key" "page' = page\<lparr>ap_events := events, ap_next_after := key\<rparr>"
    and ev: "(case rec_outcome r of
              Applied (Some batch) \<Rightarrow>
                (case visit_events json audit_send batch
                        \<lparr>pos_engine_id = ap_engine_id page, pos_sequence = key, pos_timestamp = rec_timestamp r\<rparr>
                        (bytes, ap_events page) of
                   (acc', Inr _) \<Rightarrow> Inr acc'
                 | (_, Inl error) \<Rightarrow> Inl (Error (de_reason error)))
            | _ \<Rightarrow> Inr (bytes, ap_events page)) = Inr (bytes', events)"
    unfolding audit_row_def st prod.case res_bind_Inr_iff ensure_Inr_iff u64_try_from_def
    by (auto simp: ensure_Inr_iff split: if_splits)
  have "\<exists>texts. list_all2 (\<lambda>e t. json e = Inr t) (record_events (ap_engine_id page) r) texts \<and> events = ap_events page @ texts"
  proof (cases "\<exists>batch. rec_outcome r = Applied (Some batch)")
    case True
    with ev r(3) show ?thesis
      by (auto simp: visit_events_list record_events_def dest: audit_visit split: prod.splits sum.splits)
  next
    case False
    with ev show ?thesis by (auto simp: record_events_def split: Outcome.splits option.splits)
  qed
  then obtain texts where "list_all2 (\<lambda>e t. json e = Inr t) (record_events (ap_engine_id page) r) texts" "events = ap_events page @ texts"
    by blast
  with r st show thesis by (intro that [of r]) (simp_all add: page_messages_def event_messages_texts)
qed

lemma stored_messages_Cons:
  "store_read (ol_codec E) a s = Inr r \<Longrightarrow> a \<le> b \<Longrightarrow>
   stored_messages E i s a b = record_messages E i r @ stored_messages E i s (a + 1) b"
  by (simp add: stored_messages_def upto_rec1)

lemma audit_rows:
  assumes "res_fold (audit_row C json) rows (page, bytes) = Inr (page', bytes')"
    and "set rows \<subseteq> set (record_rows s)" "\<forall>x \<in> set rows. fst x \<le> upper" "upper \<le> i64_top" "distinct (map fst (record_rows s))"
    and E: "ol_codec E = C" "ol_event_json E = json"
  shows "ap_engine_id page' = ap_engine_id page \<and> ap_through page' = ap_through page \<and>
    ap_next_after page \<le> ap_next_after page' \<and> (rows = [] \<or> ap_next_after page' \<le> upper) \<and>
    page_messages page' = page_messages page @
      stored_messages E (ap_engine_id page) s (ap_next_after page + 1) (ap_next_after page')"
  using assms(1-3)
proof (induction rows arbitrary: page bytes)
  case Nil
  then show ?case by (simp add: stored_messages_def)
next
  case (Cons x rows)
  from Cons.prems(1) obtain page1 bytes1 where one: "audit_row C json x (page, bytes) = Inr (page1, bytes1)"
    and rest: "res_fold (audit_row C json) rows (page1, bytes1) = Inr (page', bytes')" by (auto simp: res_bind_Inr_iff)
  from one obtain r where r: "fst x = ap_next_after page + 1" "decode C (record_from_str C) (snd x) = Inr r"
    "rec_sequence r = fst x" "ap_next_after page1 = fst x" "ap_engine_id page1 = ap_engine_id page"
    "ap_through page1 = ap_through page"
    "page_messages page1 = page_messages page @ event_messages json (ap_engine_id page) (record_events (ap_engine_id page) r)"
    by (rule audit_row_Inr)
  have "map_of (record_rows s) (fst x) = Some (snd x)" using Cons.prems(2) assms(5) by (cases x) simp
  then have rd: "store_read (ol_codec E) (ap_next_after page + 1) s = Inr r"
    using r(1-3) Cons.prems(3) assms(4) E by (simp add: store_read_def i64_try_from_def query_row_def)
  have IH: "ap_engine_id page' = ap_engine_id page \<and> ap_through page' = ap_through page \<and>
    ap_next_after page + 1 \<le> ap_next_after page' \<and> (rows = [] \<or> ap_next_after page' \<le> upper) \<and>
    page_messages page' = page_messages page1 @
      stored_messages E (ap_engine_id page) s (ap_next_after page + 1 + 1) (ap_next_after page')"
    using Cons.IH [OF rest] Cons.prems(2,3) r by simp
  moreover have "ap_next_after page' \<le> upper" using IH rest r(1,4) Cons.prems(3) by (cases "rows = []") auto
  moreover have "stored_messages E (ap_engine_id page) s (ap_next_after page + 1) (ap_next_after page') =
      record_messages E (ap_engine_id page) r @ stored_messages E (ap_engine_id page) s (ap_next_after page + 1 + 1) (ap_next_after page')"
    using IH by (intro stored_messages_Cons [OF rd]) simp
  ultimately show ?case using r(7) E by (simp add: record_messages_def)
qed

section \<open>Properties\<close>

text \<open>
  C28. The audit query and the output worker agree. A page holds exactly the events that the
  output worker sends for the records after \<open>after\<close> up to \<open>next_after\<close>, with the same texts in the
  same order; it never leaves the range asked for, and unless the range is finished it advances, so
  asking again from \<open>next_after\<close> reads the whole range.
\<close>

theorem audit_page_equals_output:
  assumes "audit_read (ol_codec E) (ol_event_json E) query (Some s) = Inr page" "distinct (map fst (record_rows s))"
  shows "page_messages page = stored_messages E (ap_engine_id page) s (pq_after query + 1) (ap_next_after page) \<and>
    pq_after query \<le> ap_next_after page \<and> ap_next_after page \<le> ap_through page \<and>
    (ap_next_after page = ap_through page \<or> pq_after query < ap_next_after page)"
proof -
  let ?C = "ol_codec E"
  define rows where "rows upper = take (page_limit query) (sort_key fst (filter (\<lambda>(n, _). pq_after query < n \<and> n \<le> upper) (record_rows s)))" for upper
  from assms(1) obtain i through bytes where r: "pq_after query \<le> through" "through \<le> i64_top"
    "res_fold (audit_row ?C (ol_event_json E)) (rows through)
       (\<lparr>ap_engine_id = i, ap_through = through, ap_next_after = pq_after query, ap_events = []\<rparr>, 0) = Inr (page, bytes)"
    "ap_next_after page = through \<or> pq_after query < ap_next_after page"
    unfolding audit_read_def rows_def by (auto simp: res_bind_Inr_iff ensure_Inr_iff i64_try_from_def Let_def)
  have sub: "set (rows through) \<subseteq> set (record_rows s)" "\<forall>x \<in> set (rows through). fst x \<le> through"
    unfolding rows_def by (auto dest!: in_set_takeD)
  note a = audit_rows [OF r(3) sub r(2) assms(2) refl refl]
  have "ap_next_after page \<le> through"
  proof (cases "rows through = []")
    case True
    with r(3) have "page = \<lparr>ap_engine_id = i, ap_through = through, ap_next_after = pq_after query, ap_events = []\<rparr>" by simp
    with r(1) show ?thesis by simp
  next
    case False
    with a show ?thesis by simp
  qed
  with a r(4) show ?thesis by (auto simp: page_messages_def)
qed

theorem audit_page_equals_output_witness:
  "\<exists>page. audit_read sample_codec (\<lambda>e. Inr (event_id_of e))
       \<lparr>pq_after = 0, pq_through = None, pq_engine_id = None, pq_limit = Some 2\<rparr> (Some sample_full_store) = Inr page \<and>
     page_messages page = stored_messages sample_outlet ''e1'' sample_full_store 1 1"
proof -
  let ?q = "\<lparr>pq_after = 0, pq_through = None, pq_engine_id = None, pq_limit = Some 2\<rparr> :: PageQuery"
  have "case audit_read sample_codec (\<lambda>e. Inr (event_id_of e)) ?q (Some sample_full_store) of
      Inr page \<Rightarrow> ap_engine_id page = ''e1'' \<and> ap_next_after page = 1 | Inl _ \<Rightarrow> False" by code_simp
  then obtain page where p: "audit_read sample_codec (\<lambda>e. Inr (event_id_of e)) ?q (Some sample_full_store) = Inr page"
    "ap_engine_id page = ''e1''" "ap_next_after page = 1" by (auto split: sum.splits)
  have "distinct (map fst (record_rows sample_full_store))" by code_simp
  moreover have "audit_read (ol_codec sample_outlet) (ol_event_json sample_outlet) ?q (Some sample_full_store) = Inr page"
    using p(1) by (simp add: sample_outlet_def)
  ultimately show ?thesis using audit_page_equals_output [of sample_outlet ?q sample_full_store page] p by simp
qed

end
