(* ===== verification/Gateway.thy ===== *)
theory Gateway
  imports Handle Order_Receipt Audit_Page
begin

text \<open>
  The requests of the platform: the service for orders (\<open>services/order_service.rs\<close>), the handlers for
  orders, deposits and withdrawals (\<open>handlers/order_handler.rs\<close>, \<open>handlers/deposit_handler.rs\<close>,
  \<open>handlers/withdrawal_handler.rs\<close>, \<open>handlers/financial_input.rs\<close>), the key check of the router
  (\<open>routes/mod.rs\<close>) and the health check (\<open>shared/handlers/health.rs\<close>).

  The body of a request arrives decoded; a decoding that failed is the status of its rejection. A
  response is its status and its fields. \<open>unwrap\<close> on a missing value is a panic, which aborts the request. Quotation marks inside texts are left out.
\<close>

section \<open>Amounts in requests\<close>

fun split_char :: "char \<Rightarrow> string \<Rightarrow> string list" where
  "split_char sep [] = [[]]"
| "split_char sep (c # cs) =
     (if c = sep then [] # split_char sep cs
      else (case split_char sep cs of [] \<Rightarrow> [[c]] | p # ps \<Rightarrow> (c # p) # ps))"

definition financial_validated :: "'d decimal_lib \<Rightarrow> u64 \<Rightarrow> string \<Rightarrow> string \<Rightarrow> 'd option" where
  "financial_validated L user_id asset t =
     (if user_id = 0 \<or> uint user_id > i64_top \<or> asset = [] \<or> length asset > 128 \<or>
         \<not> list_all (\<lambda>c. is_ascii_uppercase c \<or> is_ascii_digit c) asset \<or> t = [] \<or> length t > 64
      then None
      else (let parts = split_char (CHR ''.'') t; integral = hd parts; fractional = tl parts in
        if integral = [] \<or> \<not> list_all is_ascii_digit integral \<or> length fractional > 1 \<or>
           (fractional \<noteq> [] \<and> (hd fractional = [] \<or> \<not> list_all is_ascii_digit (hd fractional)))
        then None
        else (case dec_from_str_exact L t of
                None \<Rightarrow> None
              | Some v \<Rightarrow> if dec_le L v (dec_zero L) \<or> \<not> is_ok (units L v) then None else Some v)))"

section \<open>Deposits and withdrawals\<close>

record CreditRequest =
  cq_deposit_id :: uuid
  cq_user_id :: u64
  cq_asset :: string
  cq_amount :: string

definition credit_validated :: "'d decimal_lib \<Rightarrow> CreditRequest \<Rightarrow> 'd DepositCredit option" where
  "credit_validated L request =
     (if uuid_is_nil L (cq_deposit_id request) then None
      else map_option (\<lambda>v. \<lparr>dc_deposit_id = cq_deposit_id request, dc_user_id = cq_user_id request,
                            dc_asset = cq_asset request, dc_amount = v\<rparr>)
             (financial_validated L (cq_user_id request) (cq_asset request) (cq_amount request)))"

record WithdrawalRequest =
  wq_withdrawal_id :: uuid
  wq_user_id :: u64
  wq_asset :: string
  wq_amount :: string
  wq_action :: WithdrawalAction

definition withdrawal_validated :: "'d decimal_lib \<Rightarrow> WithdrawalRequest \<Rightarrow> 'd WithdrawalCommand option" where
  "withdrawal_validated L request =
     (if uuid_is_nil L (wq_withdrawal_id request) then None
      else map_option (\<lambda>v. \<lparr>wc_action = wq_action request,
               wc_funds = \<lparr>wf_withdrawal_id = wq_withdrawal_id request, wf_user_id = wq_user_id request,
                           wf_asset = wq_asset request, wf_amount = v\<rparr>\<rparr>)
             (financial_validated L (wq_user_id request) (wq_asset request) (wq_amount request)))"

text \<open>The status, the code and the identifiers of a financial response.\<close>

record financial_reply =
  fr_status :: int
  fr_code :: string
  fr_id :: "uuid option"
  fr_action :: "WithdrawalAction option"

definition rejection_status :: "int \<Rightarrow> int" where
  "rejection_status status = (if status = 413 then 413 else 400)"

definition deposit_reply :: "int \<Rightarrow> string \<Rightarrow> uuid option \<Rightarrow> financial_reply" where
  "deposit_reply status code i = \<lparr>fr_status = status, fr_code = code, fr_id = i, fr_action = None\<rparr>"

definition deposit_handler ::
    "'d decimal_lib \<Rightarrow> channel_texts \<Rightarrow> int + CreditRequest \<Rightarrow> chan \<Rightarrow> unit res awaited \<Rightarrow> 'd EngineHandle \<Rightarrow>
     'd EngineHandle \<times> financial_reply" where
  "deposit_handler L T request sender reply h =
     (case request of
        Inl status \<Rightarrow> (h, deposit_reply (rejection_status status) ''INVALID_DEPOSIT_CREDIT'' None)
      | Inr body \<Rightarrow>
          (case credit_validated L body of
             None \<Rightarrow> (h, deposit_reply 400 ''INVALID_DEPOSIT_CREDIT'' None)
           | Some credit \<Rightarrow>
               (let i = Some (dc_deposit_id credit) in
                case credit_deposit T credit sender reply h of
                  (h', Inr _) \<Rightarrow> (h', deposit_reply 200 ''DURABLY_CREDITED'' i)
                | (h', Inl NotAccepted) \<Rightarrow> (h', deposit_reply 503 ''NOT_ACCEPTED'' i)
                | (h', Inl (Rejected _)) \<Rightarrow> (h', deposit_reply 409 ''DURABLY_REJECTED'' i)
                | (h', Inl OutcomeUnknown) \<Rightarrow> (h', deposit_reply 504 ''OUTCOME_UNKNOWN'' i))))"

fun durable_code :: "WithdrawalAction \<Rightarrow> string" where
  "durable_code Reserve = ''DURABLY_RESERVED''"
| "durable_code Release = ''DURABLY_RELEASED''"
| "durable_code Complete = ''DURABLY_COMPLETED''"

definition withdrawal_reply :: "int \<Rightarrow> string \<Rightarrow> uuid option \<Rightarrow> WithdrawalAction option \<Rightarrow> financial_reply" where
  "withdrawal_reply status code i action = \<lparr>fr_status = status, fr_code = code, fr_id = i, fr_action = action\<rparr>"

definition withdrawal_handler ::
    "'d decimal_lib \<Rightarrow> channel_texts \<Rightarrow> int + WithdrawalRequest \<Rightarrow> chan \<Rightarrow> unit res awaited \<Rightarrow> 'd EngineHandle \<Rightarrow>
     'd EngineHandle \<times> financial_reply" where
  "withdrawal_handler L T request sender reply h =
     (case request of
        Inl status \<Rightarrow> (h, withdrawal_reply (rejection_status status) ''INVALID_WITHDRAWAL_COMMAND'' None None)
      | Inr body \<Rightarrow>
          (case withdrawal_validated L body of
             None \<Rightarrow> (h, withdrawal_reply 400 ''INVALID_WITHDRAWAL_COMMAND'' None None)
           | Some command \<Rightarrow>
               (let i = Some (wf_withdrawal_id (wc_funds command)); action = Some (wc_action command) in
                case change_withdrawal T command sender reply h of
                  (h', Inr _) \<Rightarrow> (h', withdrawal_reply 200 (durable_code (wc_action command)) i action)
                | (h', Inl NotAccepted) \<Rightarrow> (h', withdrawal_reply 503 ''NOT_ACCEPTED'' i action)
                | (h', Inl OutcomeUnknown) \<Rightarrow> (h', withdrawal_reply 504 ''OUTCOME_UNKNOWN'' i action)
                | (h', Inl (Rejected _)) \<Rightarrow> (h', withdrawal_reply 409 ''DURABLY_REJECTED'' i action))))"

section \<open>Orders\<close>

definition bail :: "bool \<Rightarrow> string \<Rightarrow> unit res \<Rightarrow> unit res" where
  "bail b message k = ensure (\<not> b) message k"

definition not_positive :: "'d decimal_lib \<Rightarrow> 'd option \<Rightarrow> bool" where
  "not_positive L v = (case v of None \<Rightarrow> False | Some d \<Rightarrow> dec_le L d (dec_zero L))"

definition validate_order_request :: "'d decimal_lib \<Rightarrow> 'd CreateOrderRequest \<Rightarrow> unit res" where
  "validate_order_request L r =
     (let buy = (cr_order_type r = ''buy''); sell = (cr_order_type r = ''sell'');
          limit = (cr_order_side r = ''limit''); market = (cr_order_side r = ''market'') in
      bail (\<not> buy \<and> \<not> sell) ''Invalid order_type: must be buy or sell''
     (bail (\<not> limit \<and> \<not> market) ''Invalid order_side: must be limit or market''
     (bail (limit \<and> cr_price r = None) ''Limit order must have price''
     (bail (market \<and> cr_price r \<noteq> None) ''Market order cannot have price''
     (bail (sell \<and> cr_amount r = None) ''Sell orders must have amount''
     (bail (sell \<and> not_positive L (cr_amount r)) ''Amount must be positive''
     (bail (sell \<and> cr_quote_amount r \<noteq> None) ''Sell orders cannot use quote_amount''
     (bail (buy \<and> limit \<and> cr_amount r = None) ''Limit buy orders must have amount''
     (bail (buy \<and> limit \<and> not_positive L (cr_amount r)) ''Amount must be positive''
     (bail (buy \<and> limit \<and> cr_quote_amount r \<noteq> None) ''Limit buy orders cannot use quote_amount''
     (bail (buy \<and> market \<and> cr_quote_amount r = None)
       ''Market buy orders must have quote_amount (amount-based market buy is not supported)''
     (bail (buy \<and> market \<and> cr_amount r \<noteq> None) ''Market buy orders cannot use amount, use quote_amount instead''
     (bail (buy \<and> market \<and> not_positive L (cr_quote_amount r)) ''Quote amount must be positive''
     (bail (not_positive L (cr_price r)) ''Price must be positive'' (Inr ())))))))))))))))"

definition unwrap :: "'a option \<Rightarrow> 'a res" where
  "unwrap v = (case v of Some x \<Rightarrow> Inr x | None \<Rightarrow> Inl (Panic ''called Option::unwrap() on a None value''))"

definition order_entry :: "'d decimal_lib \<Rightarrow> u64 \<Rightarrow> 'd CreateOrderRequest \<Rightarrow> 'd AcceptanceResult \<Rightarrow> 'd OrderEntry res" where
  "order_entry L user_id r a =
     (let market_buy = (cr_order_type r = ''buy'' \<and> cr_order_side r = ''market'') in
      res_bind (if market_buy then Inr (dec_zero L) else unwrap (cr_amount r)) (\<lambda>amount.
      res_bind (unwrap (cr_order_id r)) (\<lambda>i.
        Inr \<lparr>o_fee_rate = ar_fee_rate a, o_id = i, o_user_id = user_id, o_order_type = cr_order_type r,
             o_order_side = cr_order_side r, o_base_mint = cr_base_mint r, o_quote_mint = request_quote_mint r,
             o_price = cr_price r, o_amount = amount, o_quote_amount = cr_quote_amount r, o_filled_amount = dec_zero L,
             o_remaining_amount = amount, o_remaining_quote_amount = (if market_buy then cr_quote_amount r else None),
             o_created_at = oa_accepted_at (ar_receipt a)\<rparr>)))"

definition create_order ::
    "'d decimal_lib \<Rightarrow> 'd session \<Rightarrow> channel_texts \<Rightarrow> u64 \<Rightarrow> 'd CreateOrderRequest \<Rightarrow> chan \<Rightarrow> unit res awaited \<Rightarrow>
     PlatformDb \<Rightarrow> 'd EngineHandle \<Rightarrow> PlatformDb \<times> 'd EngineHandle \<times> (accept_error + 'd AcceptanceResult)" where
  "create_order L S T user_id request sender reply db h =
     (if user_id \<noteq> cr_user_id request then (db, h, Inl ReceiptInvalid)
      else if \<not> is_ok (validate_order_request L request) then (db, h, Inl ReceiptInvalid)
      else (case accept L S request db of
        (db', Inl e) \<Rightarrow> (db', h, Inl e)
      | (db', Inr a) \<Rightarrow>
          (case order_entry L user_id request a of
             Inl (Panic p) \<Rightarrow> (db', h, Inl (HandlerPanic p))
           | Inl (Error e) \<Rightarrow> (db', h, Inl (Unavailable e))
           | Inr entry \<Rightarrow>
               (case submit_order T entry sender reply h of
                  (h', Inr _) \<Rightarrow> (db', h', Inr a)
                | (h', Inl (Error e)) \<Rightarrow> (db', h', Inl (Unavailable e))
                | (h', Inl (Panic p)) \<Rightarrow> (db', h', Inl (HandlerPanic p))))))"

text \<open>The handler: the status with the receipt or the error code. A panic gives no response.\<close>

definition create_order_handler ::
    "'d decimal_lib \<Rightarrow> 'd session \<Rightarrow> channel_texts \<Rightarrow> 'd CreateOrderRequest \<Rightarrow> chan \<Rightarrow> unit res awaited \<Rightarrow>
     PlatformDb \<Rightarrow> 'd EngineHandle \<Rightarrow> PlatformDb \<times> 'd EngineHandle \<times> (int \<times> (string + OrderAcceptance)) option" where
  "create_order_handler L S T request sender reply db h =
     (case create_order L S T (cr_user_id request) request sender reply db h of
        (db', h', Inr a) \<Rightarrow> (db', h', Some (if ar_created a then 202 else 200, Inr (ar_receipt a)))
      | (db', h', Inl ReceiptInvalid) \<Rightarrow> (db', h', Some (400, Inl ''INVALID_ORDER_SUBMISSION''))
      | (db', h', Inl ReceiptConflict) \<Rightarrow> (db', h', Some (409, Inl ''ORDER_SUBMISSION_CONFLICT''))
      | (db', h', Inl (Unavailable _)) \<Rightarrow> (db', h', Some (503, Inl ''ORDER_ACCEPTANCE_UNAVAILABLE''))
      | (db', h', Inl (HandlerPanic _)) \<Rightarrow> (db', h', None))"

record 'd Order =
  od_id :: u64
  od_user_id :: u64
  od_order_type :: string
  od_order_side :: string
  od_base_mint :: string
  od_quote_mint :: string
  od_price :: "'d option"
  od_amount :: 'd
  od_filled_amount :: 'd
  od_filled_quote_amount :: 'd
  od_status :: string
  od_created_at :: datetime
  od_updated_at :: datetime

definition entry_to_order :: "'d decimal_lib \<Rightarrow> datetime \<Rightarrow> 'd OrderEntry \<Rightarrow> 'd Order" where
  "entry_to_order L now e =
     (let status = (if dec_eq L (o_filled_amount e) (dec_zero L) then ''pending''
                    else if is_fully_filled L e then ''filled'' else ''partial'') in
      \<lparr>od_id = o_id e, od_user_id = o_user_id e, od_order_type = o_order_type e, od_order_side = o_order_side e,
       od_base_mint = o_base_mint e, od_quote_mint = o_quote_mint e, od_price = o_price e, od_amount = o_amount e,
       od_filled_amount = o_filled_amount e, od_filled_quote_amount = dec_zero L, od_status = status,
       od_created_at = o_created_at e, od_updated_at = now\<rparr>)"

definition service_cancel_order ::
    "'d decimal_lib \<Rightarrow> channel_texts \<Rightarrow> datetime \<Rightarrow> u64 \<Rightarrow> u64 \<Rightarrow> TradingPair \<Rightarrow> chan \<Rightarrow> 'd OrderEntry res awaited \<Rightarrow>
     'd EngineHandle \<Rightarrow> 'd EngineHandle \<times> 'd Order res" where
  "service_cancel_order L T now user_id order_id pair sender reply h =
     (case handle_cancel_order T order_id user_id pair sender reply h of
        (h', r) \<Rightarrow> (h', with_context ''Failed to cancel order in engine''
                   (res_bind r (\<lambda>e. Inr ((entry_to_order L now e)\<lparr>od_status := ''cancelled''\<rparr>)))))"

record CancelOrderQuery =
  co_user_id :: u64
  co_base_mint :: string
  co_quote_mint :: string

definition cancel_order_handler ::
    "'d decimal_lib \<Rightarrow> channel_texts \<Rightarrow> datetime \<Rightarrow> u64 \<Rightarrow> CancelOrderQuery option \<Rightarrow> chan \<Rightarrow> 'd OrderEntry res awaited \<Rightarrow>
     'd EngineHandle \<Rightarrow> 'd EngineHandle \<times> (int \<times> (string + 'd Order)) option" where
  "cancel_order_handler L T now order_id query sender reply h =
     (case query of
        None \<Rightarrow> (h, Some (400, Inl ''Invalid cancellation query: user_id, base_mint and quote_mint are required''))
      | Some q \<Rightarrow>
          (case service_cancel_order L T now (co_user_id q) order_id
                  (TradingPair_new (co_base_mint q) (co_quote_mint q)) sender reply h of
             (h', Inr r) \<Rightarrow> (h', Some (200, Inr r))
           | (h', Inl (Error e)) \<Rightarrow> (h', Some (400, Inl (''Failed to cancel order: '' @ e)))
           | (h', Inl (Panic _)) \<Rightarrow> (h', None)))"

section \<open>The router\<close>

definition command_router :: "'d codec \<Rightarrow> string \<Rightarrow> string option \<Rightarrow> (unit \<Rightarrow> 'r) \<Rightarrow> int + 'r" where
  "command_router C expected provided handler =
     (case provided of
        None \<Rightarrow> Inl 401
      | Some key \<Rightarrow> if \<not> token_matches C expected key then Inl 401 else Inr (handler ()))"

definition health_check :: "'d EngineHandle \<Rightarrow> int \<times> string \<times> string" where
  "health_check h =
     (if \<not> is_accepting h then (503, ''unavailable'', ''Engine processing is closed'')
      else (200, ''ok'', ''Server is running''))"

section \<open>What a validated request contains\<close>

lemma bail_Inr [simp]: "bail b message k = Inr x \<longleftrightarrow> \<not> b \<and> k = Inr x"
  by (simp add: bail_def ensure_Inr_iff)

definition well_formed_request :: "'d decimal_lib \<Rightarrow> 'd CreateOrderRequest \<Rightarrow> bool" where
  "well_formed_request L r \<longleftrightarrow>
     cr_order_type r \<in> {''buy'', ''sell''} \<and>
     (case cr_price r of
        Some price \<Rightarrow> cr_order_side r = ''limit'' \<and> dec_lt L (dec_zero L) price
      | None \<Rightarrow> cr_order_side r = ''market'') \<and>
     (if cr_order_type r = ''buy'' \<and> cr_order_side r = ''market''
      then cr_amount r = None \<and> (\<exists>budget. cr_quote_amount r = Some budget \<and> dec_lt L (dec_zero L) budget)
      else cr_quote_amount r = None \<and> (\<exists>amount. cr_amount r = Some amount \<and> dec_lt L (dec_zero L) amount))"

lemma validate_order_request_iff: "is_ok (validate_order_request L r) \<longleftrightarrow> well_formed_request L r"
proof -
  have "is_ok (validate_order_request L r) \<longleftrightarrow> validate_order_request L r = Inr ()" by (auto simp: is_ok_iff)
  also have "\<dots> \<longleftrightarrow> well_formed_request L r"
    unfolding validate_order_request_def Let_def bail_Inr well_formed_request_def not_positive_def dec_lt_def
    by (auto split: option.splits)
  finally show ?thesis .
qed

lemma accept_identified: "accept L S request db = (db', Inr a) \<Longrightarrow> \<exists>i. cr_order_id request = Some i \<and> 0 < uint i \<and> uint i \<le> i64_top"
  by (erule accept_Inr) (auto simp: bigint_id_def bind_eq_Some_conv split: if_splits)

text \<open>The entry that is sent to the engine, and what the engine requires of it.\<close>

definition entry_well_formed :: "'d decimal_lib \<Rightarrow> 'd OrderEntry \<Rightarrow> bool" where
  "entry_well_formed L e \<longleftrightarrow>
     0 < uint (o_id e) \<and> uint (o_id e) \<le> i64_top \<and> o_order_type e \<in> {''buy'', ''sell''} \<and>
     (case o_price e of Some price \<Rightarrow> is_limit e \<and> dec_lt L (dec_zero L) price | None \<Rightarrow> is_market e) \<and>
     (case o_remaining_quote_amount e of
        Some budget \<Rightarrow> is_buy e \<and> is_market e \<and> dec_lt L (dec_zero L) budget \<and> o_remaining_amount e = dec_zero L
      | None \<Rightarrow> dec_lt L (dec_zero L) (o_remaining_amount e)) \<and>
     o_quote_amount e = o_remaining_quote_amount e \<and> o_amount e = o_remaining_amount e \<and> o_filled_amount e = dec_zero L"

lemma order_entry_ok:
  assumes "well_formed_request L r" "accept L S r db = (db', Inr a)"
  obtains e where "order_entry L user_id r a = Inr e" "entry_well_formed L e" "o_user_id e = user_id"
    "o_created_at e = oa_accepted_at (ar_receipt a)" "o_fee_rate e = ar_fee_rate a"
    "Some (o_id e) = cr_order_id r" "o_order_type e = cr_order_type r" "o_order_side e = cr_order_side r"
    "o_base_mint e = cr_base_mint r" "o_quote_mint e = request_quote_mint r" "o_price e = cr_price r"
    "o_quote_amount e = cr_quote_amount r" "cr_amount r = (if o_quote_amount e = None then Some (o_amount e) else None)"
proof -
  from accept_identified [OF assms(2)] obtain i where "cr_order_id r = Some i" "0 < uint i" "uint i \<le> i64_top" by blast
  with assms(1) show thesis
    by (intro that [of "case order_entry L user_id r a of Inr e \<Rightarrow> e"])
      (auto simp: well_formed_request_def order_entry_def unwrap_def entry_well_formed_def is_limit_def is_market_def is_buy_def Let_def
        split: if_splits option.splits)
qed

text \<open>Accepting a request never panics.\<close>

definition quiet :: "'a transaction \<Rightarrow> bool" where
  "quiet m \<longleftrightarrow> (\<forall>db p. snd (m db) \<noteq> Inl (HandlerPanic p))"

lemma quiet_bind:
  assumes "quiet m" "\<And>x. quiet (f x)"
  shows "quiet (tx_bind m f)"
  unfolding quiet_def
proof (intro allI)
  fix db p
  obtain db1 r where m: "m db = (db1, r)" by (cases "m db")
  then have "r \<noteq> Inl (HandlerPanic p)" using assms(1) unfolding quiet_def by (metis snd_conv)
  moreover have "snd (f x db1) \<noteq> Inl (HandlerPanic p)" for x using assms(2) by (simp add: quiet_def)
  ultimately show "snd (tx_bind m f db) \<noteq> Inl (HandlerPanic p)" using m by (cases r) (auto simp: tx_bind_def)
qed

lemma quiet_basic:
  "quiet (tx_statement S k q)" "quiet (tx_commit S change x)" "(\<And>p. e \<noteq> HandlerPanic p) \<Longrightarrow> quiet (tx_stop e)"
  "quiet m \<Longrightarrow> (\<And>p. e \<noteq> HandlerPanic p) \<Longrightarrow> quiet (tx_ensure b e m)"
  by (auto simp: quiet_def tx_statement_def tx_commit_def tx_stop_def tx_ensure_def Let_def
      split: sum.splits failure.splits commit_result.splits)

lemma quiet_accept: "quiet (accept L S request)"
proof -
  have existing: "quiet (answer_existing L S request c)" for c
    unfolding answer_existing_def by (intro quiet_basic) simp
  have insert: "quiet (insert_receipt L S i u request c)" for i u c
    unfolding insert_receipt_def by (auto intro!: quiet_bind quiet_basic existing split: option.splits)
  show ?thesis
    unfolding accept_def
    by (auto intro!: quiet_bind quiet_basic existing insert split: option.splits sum.splits failure.splits)
qed

lemma submit_order_sends:
  assumes "submit_order T entry sender reply h = (h', r)"
  shows "(h' = h \<or> h' = h\<lparr>order_tx := order_tx h @ [SubmitOrder entry sender]\<rparr>) \<and>
    (r = Inr x \<longrightarrow> reply = Answer r) \<and> (r = Inl (Panic p) \<longrightarrow> reply = Answer (Inl (Panic p)))"
  using assms
  by (auto simp: submit_order_def send_order_def try_send_def ensure_def wait_for_def split: if_splits sum.splits awaited.splits)

section \<open>Properties\<close>


definition sample_texts :: channel_texts where
  "sample_texts = \<lparr>ct_full = ''full'', ct_disconnected = ''disconnected'', ct_received = ''closed''\<rparr>"

definition sample_handle :: "refdec EngineHandle" where
  "sample_handle = \<lparr>order_tx = [], balance_tx = [], tx_capacity = 2, tx_connected = True, h_closed = False\<rparr>"



text \<open>An engine that receives the order of the sample request: the user has no funds, so it records a rejection.\<close>

definition sample_entry :: "refdec OrderEntry" where
  "sample_entry =
     \<lparr>o_fee_rate = RefDec 0 0, o_id = 1, o_user_id = 101, o_order_type = ''buy'', o_order_side = ''limit'', o_base_mint = ''SOL'',
      o_quote_mint = ''USDT'', o_price = Some (RefDec 100 0), o_amount = RefDec 2 0, o_quote_amount = None,
      o_filled_amount = RefDec 0 0, o_remaining_amount = RefDec 2 0, o_remaining_quote_amount = None, o_created_at = 6\<rparr>"

definition sample_order_outcome :: "refdec Outcome" where
  "sample_order_outcome =
     (case journal_apply ref_decimal sample_opening (Submit sample_entry) of Inr (_, out) \<Rightarrow> out | Inl _ \<Rightarrow> Failed [])"

definition order_codec :: "refdec codec" where
  "order_codec = table_codec [(''g'', sample_genesis)]
     [(''r1'', \<lparr>rec_sequence = 1, rec_timestamp = 0, rec_command = Submit sample_entry, rec_outcome = sample_order_outcome\<rparr>)]"

definition order_outlet :: "(refdec, broker) outlet" where
  "order_outlet = sample_outlet\<lparr>ol_codec := order_codec\<rparr>"

definition order_system :: "(refdec, broker) System" where
  "order_system = sample_system\<lparr>sy_core := (sy_core sample_system)\<lparr>w_balances := [], w_orders := [SubmitOrder sample_entry 7]\<rparr>\<rparr>"

definition order_run :: "(refdec, broker) System" where
  "order_run = journal_turn order_outlet (\<lambda>_. 0) True 1 (core_turn order_system)"

interpretation order_store: journal_store ref_decimal order_codec
  using table_codec_ok [of "[(''g'', sample_genesis)]"
      "[(''r1'', \<lparr>rec_sequence = 1, rec_timestamp = 0, rec_command = Submit sample_entry, rec_outcome = sample_order_outcome\<rparr>)]"]
  by (simp add: journal_store_def refd.decimal_library_axioms order_codec_def)

interpretation ordering: engine_pipeline order_outlet brk_log
proof -
  have "ol_decimal order_outlet = ref_decimal" "ol_codec order_outlet = order_codec" "ol_send order_outlet = scripted_send"
    by (simp_all add: order_outlet_def sample_outlet_def)
  then show "engine_pipeline order_outlet brk_log"
    using order_store.journal_store_axioms scripted.kafka_broker_axioms by (simp add: engine_pipeline_def)
qed

lemma order_started: "started order_outlet order_system"
proof -
  have "case recover ref_decimal order_codec sample_store of
      Inr (st, i) \<Rightarrow> i = ''e1'' \<and> (case recover ref_decimal sample_codec sample_store of Inr (st', i') \<Rightarrow> st = st' | Inl _ \<Rightarrow> False)
    | Inl _ \<Rightarrow> False" by code_simp
  then have rec: "recover ref_decimal order_codec sample_store = Inr (sample_opening, ''e1'')"
    by (auto simp: sample_opening_def split: sum.splits prod.splits)
  have "last_sequence sample_store = Inr 0" "delivered sample_store = Inr 0" "distinct (map fst (delivery_rows sample_store))"
    by code_simp+
  with rec show ?thesis by (simp add: started_def order_system_def order_outlet_def sample_system_def sample_outlet_def Progress_new_def)
qed

lemma order_client_run: "client_run order_outlet (\<lambda>_. 0) {} {SubmitOrder sample_entry 7} order_system order_run"
proof -
  let ?s1 = "core_turn order_system"
  have dec: "ol_decimal order_outlet = ref_decimal" by (simp add: order_outlet_def sample_outlet_def)
  have "is_ok (loop_iteration ref_decimal True False (sy_core order_system))" by code_simp
  then obtain w go where w: "loop_iteration ref_decimal True False (sy_core order_system) = Inr (w, go)"
    by (auto simp: is_ok_iff)
  have s1: "?s1 = order_system\<lparr>sy_core := w, sy_core_live := go\<rparr>" by (simp only: core_turn_def w sum.case prod.case)
  have live: "sy_core_live order_system" "sy_journal_live order_system" by (simp_all add: order_system_def sample_system_def)
  then have live1: "sy_journal_live ?s1" by (simp add: s1)
  have one: "sys_step order_outlet (\<lambda>_. 0) order_system ?s1"
    unfolding s1 by (rule sys_step.core [OF live(1), where is_running = True and is_closed = False]) (simp only: dec w)
  have two: "sys_step order_outlet (\<lambda>_. 0) ?s1 order_run" unfolding order_run_def by (rule sys_step.journal [OF live1])
  have "w_balances (sy_core ?s1) = [] \<and> w_orders (sy_core ?s1) = []" by code_simp
  moreover have "w_balances (sy_core order_run) = [] \<and> w_orders (sy_core order_run) = []" by code_simp
  moreover have "w_balances (sy_core order_system) = [] \<and> w_orders (sy_core order_system) = [SubmitOrder sample_entry 7]"
    by (simp add: order_system_def)
  ultimately show ?thesis using client_run.step [OF client_run.step [OF client_run.start one] two] by simp
qed


end
