(* ===== verification/Lifecycle.thy ===== *)
theory Lifecycle
  imports Handle Startup
begin

text \<open>
  Starting and stopping the engine (\<open>HighPerformanceEngine\<close> of \<open>runtime/engine.rs\<close>, \<open>Ownership\<close> of
  \<open>runtime/journal/store.rs\<close> and \<open>spawn\<close> of \<open>runtime/output.rs\<close>): ownership of the data directory, the
  opening of the journal, the first opening balances, the replay, the delivery of what was not yet
  delivered, and the three workers; and the shutdown that waits for them one after the other.

  What the operating system and the libraries answer is the record \<open>host\<close>; it also holds the journal's file.
  Waiting for a worker runs its loop with a bound on the number of iterations; \<open>None\<close> is a bound
  that was too small, and the properties show that a large enough bound exists.
\<close>

section \<open>Data\<close>

datatype EngineMode = Standard | Bench

definition queue_capacity :: nat where
  "queue_capacity = 100000"

record 'k host =
  hs_directory_ok :: bool
  hs_lock_exists :: bool
  hs_lock_opens :: bool
  hs_lock_free :: bool
  hs_journal :: "Store option"
  hs_pragmas :: pragmas
  hs_new_id :: string
  hs_producer_ok :: bool
  hs_spawn_ok :: bool
  hs_broker :: 'k

record ('d, 'k) HighPerformanceEngine =
  hp_handle :: "'d EngineHandle"
  hp_state :: "'d EngineState option"
  hp_running :: bool
  hp_mode :: EngineMode
  hp_ownership :: bool
  hp_progress :: "Progress option"
  hp_output :: "('d, 'k) OutputWorker option"
  hp_workers :: "('d, 'k) System option"
  hp_threads :: bool
  hp_bench_core :: "'d Worker option"

definition new_with_mode :: "EngineMode \<Rightarrow> ('d, 'k) HighPerformanceEngine" where
  "new_with_mode mode =
     \<lparr>hp_handle = \<lparr>order_tx = [], balance_tx = [], tx_capacity = queue_capacity, tx_connected = True, h_closed = False\<rparr>,
      hp_state = Some EngineState_new, hp_running = False, hp_mode = mode, hp_ownership = False, hp_progress = None,
      hp_output = None, hp_workers = None, hp_threads = False, hp_bench_core = None\<rparr>"

section \<open>Opening the journal\<close>

definition Ownership_acquire :: "'k host \<Rightarrow> 'k host \<times> bool res" where
  "Ownership_acquire hs =
     (if \<not> hs_directory_ok hs then (hs, Inl (Error ''create_dir_all''))
      else if \<not> hs_lock_opens hs then (hs, Inl (Error ''open owner.lock''))
      else (hs\<lparr>hs_lock_exists := True\<rparr>,
            ensure (hs_lock_free hs) ''Engine journal is already owned'' (Inr (\<not> hs_lock_exists hs))))"

definition empty_store :: Store where
  "empty_store = \<lparr>user_version = 0, tables = [], genesis_rows = [], record_rows = [], delivery_rows = []\<rparr>"

definition first_genesis ::
    "'d decimal_lib \<Rightarrow> 'd codec \<Rightarrow> Platform option \<Rightarrow> string \<Rightarrow> Store \<Rightarrow> Store res" where
  "first_genesis L C db new_id s =
     res_bind (ok_or ''Database unavailable in this mode'' db) (\<lambda>platform.
     res_bind (load_balances L platform) (\<lambda>c.
       initialize C new_id (with_cache c EngineState_new) s))"

definition open_journal ::
    "'d decimal_lib \<Rightarrow> 'd codec \<Rightarrow> Platform option \<Rightarrow> 'k host \<Rightarrow> 'k host \<times> Store res" where
  "open_journal L C db hs =
     (case Ownership_acquire hs of
        (hs1, Inl e) \<Rightarrow> (hs1, Inl e)
      | (hs1, Inr fresh) \<Rightarrow>
          (if \<not> (fresh \<or> hs_journal hs1 \<noteq> None)
           then (hs1, Inl (Error ''Previously owned engine journal is missing; automatic DB bootstrap refused''))
           else
             (let file = (case hs_journal hs1 of Some s \<Rightarrow> s | None \<Rightarrow> empty_store);
                  hs2 = hs1\<lparr>hs_journal := Some file\<rparr> in
              case store_open (hs_pragmas hs1) file of
                Inl e \<Rightarrow> (hs2, Inl e)
              | Inr s \<Rightarrow>
                  (let hs3 = hs2\<lparr>hs_journal := Some s\<rparr> in
                   case initialized s of
                     Inl e \<Rightarrow> (hs3, Inl e)
                   | Inr True \<Rightarrow> (hs3, Inr s)
                   | Inr False \<Rightarrow>
                       (case first_genesis L C db (hs_new_id hs1) s of
                          Inl e \<Rightarrow> (hs3, Inl e)
                        | Inr s' \<Rightarrow> (hs3\<lparr>hs_journal := Some s'\<rparr>, Inr s'))))))"

section \<open>Starting\<close>

text \<open>The output worker until it reports that the history is delivered, or ends.\<close>

fun await_ready ::
    "('d, 'k) outlet \<Rightarrow> nat \<Rightarrow> Store \<Rightarrow> Progress \<Rightarrow> ('d, 'k) OutputWorker \<Rightarrow>
     (Store \<times> Progress \<times> ('d, 'k) OutputWorker \<times> progress_flag) option" where
  "await_ready E 0 s p w = None"
| "await_ready E (Suc n) s p w =
     (case run_store_iteration E (durable p) (journal_done p) (durable p) s p w of
        (s', p', w', Continue) \<Rightarrow>
          (if ow_ready w' = None then await_ready E n s' p' w' else Some (s', p', w', Continue))
      | (s', p', w', Stopped r) \<Rightarrow> Some (s', p', w', Stopped r))"

definition spawn ::
    "('d, 'k) outlet \<Rightarrow> nat \<Rightarrow> string \<Rightarrow> Store \<Rightarrow> Progress \<Rightarrow> 'k \<Rightarrow>
     (Store \<times> Progress \<times> ('d, 'k) OutputWorker \<times> progress_flag) option" where
  "spawn E n engine_id s p k =
     (case run_store_start E engine_id (durable p) s k of
        (w, Stopped r) \<Rightarrow> Some (s, p, w, Stopped r)
      | (w, Continue) \<Rightarrow> await_ready E n s p w)"

definition core_of :: "'d EngineHandle \<Rightarrow> 'd EngineState \<Rightarrow> 'd JournalQueue option \<Rightarrow> 'd Worker" where
  "core_of h st q =
     \<lparr>w_state = st, w_balances = balance_tx h, w_orders = order_tx h, w_connected = True, w_output = q,
      w_replies = [], w_running = True, w_closed = h_closed h\<rparr>"

definition launch ::
    "Store \<Rightarrow> Progress \<Rightarrow> ('d, 'k) OutputWorker \<Rightarrow> progress_flag \<Rightarrow> 'd EngineState \<Rightarrow>
     ('d, 'k) HighPerformanceEngine \<Rightarrow> ('d, 'k) HighPerformanceEngine" where
  "launch s p w flag st en =
     (case journal_start \<lparr>jw_store = s, jw_sequence = 0, jw_progress = p, jw_closed = h_closed (hp_handle en), jw_replies = []\<rparr> of
        (j, jflag) \<Rightarrow>
          en\<lparr>hp_state := None, hp_running := True, hp_threads := True,
             hp_workers := Some
               \<lparr>sy_core = (core_of (hp_handle en) st (Some \<lparr>q_items = [], q_capacity = queue_capacity, q_open = True\<rparr>))
                            \<lparr>w_closed := jw_closed j\<rparr>,
                sy_core_live = True, sy_journal = j, sy_journal_live = (jflag = Continue),
                sy_output = w, sy_output_live = (flag = Continue)\<rparr>\<rparr>)"

definition start_standard ::
    "('d, 'k) outlet \<Rightarrow> nat \<Rightarrow> Platform option \<Rightarrow> 'k host \<Rightarrow> ('d, 'k) HighPerformanceEngine \<Rightarrow>
     ('k host \<times> ('d, 'k) HighPerformanceEngine \<times> unit res) option" where
  "start_standard E n db hs en =
     (case open_journal (ol_decimal E) (ol_codec E) db hs of
        (hs1, Inl e) \<Rightarrow> Some (hs1, en, Inl e)
      | (hs1, Inr s) \<Rightarrow>
          (case recover (ol_decimal E) (ol_codec E) s of
             Inl e \<Rightarrow> Some (hs1, en, Inl e)
           | Inr (st, engine_id) \<Rightarrow>
               (let en1 = en\<lparr>hp_state := Some st\<rparr> in
                case res_bind (last_sequence s) (\<lambda>d. res_bind (delivered s) (\<lambda>c. Inr (Progress_new d c))) of
                  Inl e \<Rightarrow> Some (hs1, en1, Inl e)
                | Inr p \<Rightarrow>
                    if \<not> hs_producer_ok hs1 then Some (hs1, en1, Inl (Error ''KafkaProducer::new''))
                    else let en2 = en1\<lparr>hp_ownership := True\<rparr> in
                    if \<not> hs_spawn_ok hs1 then Some (hs1, en2, Inl (Error ''output::spawn''))
                    else
                      (case spawn E n engine_id s p (hs_broker hs1) of
                         None \<Rightarrow> None
                       | Some (s', p', w, flag) \<Rightarrow>
                           (let hs2 = hs1\<lparr>hs_journal := Some s', hs_broker := ow_broker w\<rparr>;
                                en3 = en2\<lparr>hp_progress := Some p', hp_output := Some w,
                                  hp_handle := (hp_handle en2)\<lparr>h_closed := (h_closed (hp_handle en2) \<or> flag \<noteq> Continue)\<rparr>\<rparr> in
                            case ow_ready w of
                              None \<Rightarrow> Some (hs2, en3, Inl (Error ''Recovery output worker stopped''))
                            | Some (Inl e) \<Rightarrow> Some (hs2, en3, Inl e)
                            | Some (Inr _) \<Rightarrow> Some (hs2, launch s' p' w flag st en3, Inr ()))))))"

definition start ::
    "('d, 'k) outlet \<Rightarrow> nat \<Rightarrow> Platform option \<Rightarrow> 'k host \<Rightarrow> ('d, 'k) HighPerformanceEngine \<Rightarrow>
     ('k host \<times> ('d, 'k) HighPerformanceEngine \<times> unit res) option" where
  "start E n db hs en =
     (if hp_running en then Some (hs, en, Inl (Error ''Engine is already running''))
      else case hp_state en of
        None \<Rightarrow> Some (hs, en, Inl (Error ''Stopped engine cannot be restarted; create a new instance''))
      | Some st \<Rightarrow>
          (if h_closed (hp_handle en)
           then Some (hs, en, Inl (Error ''Stopped engine cannot be restarted; create a new instance''))
           else case hp_mode en of
             Standard \<Rightarrow> start_standard E n db hs en
           | Bench \<Rightarrow>
               Some (hs, en\<lparr>hp_state := None, hp_running := True, hp_bench_core := Some (core_of (hp_handle en) st None)\<rparr>, Inr ())))"

section \<open>Stopping\<close>

fun join_journal ::
    "('d, 'k) outlet \<Rightarrow> (int \<Rightarrow> datetime) \<Rightarrow> (nat \<Rightarrow> bool \<times> nat) \<Rightarrow> nat \<Rightarrow> ('d, 'k) System \<Rightarrow>
     (('d, 'k) System \<times> unit res) option" where
  "join_journal E now env 0 s = None"
| "join_journal E now env (Suc n) s =
     (case env 0 of (committed, arrived) \<Rightarrow>
        case journal_iteration (ol_codec E) now committed arrived (sy_core_live s) (journal_queue s)
               ((sy_journal s)\<lparr>jw_closed := w_closed (sy_core s)\<rparr>) of
          (_, _, Stopped r) \<Rightarrow> Some (journal_turn E now committed arrived s, r)
        | (_, _, Continue) \<Rightarrow> join_journal E now (\<lambda>k. env (Suc k)) n (journal_turn E now committed arrived s))"

fun join_output ::
    "('d, 'k) outlet \<Rightarrow> nat \<Rightarrow> ('d, 'k) System \<Rightarrow> (('d, 'k) System \<times> unit res) option" where
  "join_output E 0 s = None"
| "join_output E (Suc n) s =
     (let p = jw_progress (sy_journal s); t = output_turn E (durable p) (journal_done p) (durable p) s in
      case run_store_iteration E (durable p) (journal_done p) (durable p) (jw_store (sy_journal s)) p (sy_output s) of
        (_, _, _, Stopped r) \<Rightarrow> Some (t, r)
      | (_, _, _, Continue) \<Rightarrow> join_output E n t)"

definition worker_error :: "string \<Rightarrow> unit res \<Rightarrow> string option" where
  "worker_error name r =
     (case r of
        Inr _ \<Rightarrow> None
      | Inl (Error e) \<Rightarrow> Some (name @ '' worker failed: '' @ e)
      | Inl (Panic _) \<Rightarrow> Some (name @ '' worker panicked''))"

definition pending_output_count :: "Progress \<Rightarrow> nat" where
  "pending_output_count p = nat (durable p - pg_delivered p)"

definition join_core :: "('d, 'k) outlet \<Rightarrow> ('d, 'k) System \<Rightarrow> ('d, 'k) System \<times> string option" where
  "join_core E s =
     (if \<not> sy_core_live s then (s, None)
      else case loop_iteration (ol_decimal E) False True (sy_core s) of
        Inr (w, go) \<Rightarrow> (s\<lparr>sy_core := w, sy_core_live := go\<rparr>, None)
      | Inl _ \<Rightarrow> (s\<lparr>sy_core_live := False\<rparr>, Some ''Engine worker panicked''))"

definition closing :: "('d, 'k) System \<Rightarrow> ('d, 'k) System" where
  "closing s = s\<lparr>sy_core := (sy_core s)\<lparr>w_closed := True, w_running := False\<rparr>\<rparr>"

text \<open>
  \<open>ended\<close> is what the journal and the output worker had returned if they ended before the shutdown;
  \<open>journal_started\<close> is whether the journal worker was ever started. A later error replaces an earlier one.
\<close>

definition halt ::
    "('d, 'k) outlet \<Rightarrow> (int \<Rightarrow> datetime) \<Rightarrow> (nat \<Rightarrow> bool \<times> nat) \<Rightarrow> unit res \<times> unit res \<Rightarrow> bool \<Rightarrow> nat \<Rightarrow>
     ('d, 'k) System \<Rightarrow> (('d, 'k) System \<times> unit res) option" where
  "halt E now env ended journal_started n s =
     (let (s2, core_error) = join_core E (closing s) in
      case (if \<not> journal_started
            then Some (s2\<lparr>sy_journal := (sy_journal s2)\<lparr>jw_progress := (jw_progress (sy_journal s2))\<lparr>journal_done := True\<rparr>\<rparr>\<rparr>, Inr ())
            else if sy_journal_live s2 then join_journal E now env n s2 else Some (s2, fst ended)) of
        None \<Rightarrow> None
      | Some (s3, jr) \<Rightarrow>
          (case (if sy_output_live s3 then join_output E n s3 else Some (s3, snd ended)) of
             None \<Rightarrow> None
           | Some (s4, outr) \<Rightarrow>
               Some (s4,
                 case (core_error, worker_error ''Journal'' jr, worker_error ''Output'' outr) of
                   (_, _, Some e) \<Rightarrow> Inl (Error e)
                 | (_, Some e, None) \<Rightarrow> Inl (Error e)
                 | (Some e, None, None) \<Rightarrow> Inl (Error e)
                 | (None, None, None) \<Rightarrow>
                     ensure (journal_queue s4 = []) ''Journal queue was not drained''
                     (ensure (pending_output_count (jw_progress (sy_journal s4)) = 0) ''Durable output remains pending''
                       (Inr ())))))"

text \<open>
  Stopping the whole engine. An engine whose start failed while it waited for the output worker holds that
  worker and its progress only; the worker has ended exactly when it closed the engine. The handles of the
  threads are taken once: a second shutdown, as the destructor runs it, joins nothing and repeats the checks.
\<close>

definition abandoned :: "Store \<Rightarrow> Progress \<Rightarrow> ('d, 'k) OutputWorker \<Rightarrow> 'd EngineHandle \<Rightarrow> ('d, 'k) System" where
  "abandoned s p w h =
     \<lparr>sy_core = core_of h EngineState_new None, sy_core_live = False,
      sy_journal = \<lparr>jw_store = s, jw_sequence = 0, jw_progress = p, jw_closed = h_closed h, jw_replies = []\<rparr>,
      sy_journal_live = False, sy_output = w, sy_output_live = (\<not> h_closed h)\<rparr>"

definition stop ::
    "('d, 'k) outlet \<Rightarrow> (int \<Rightarrow> datetime) \<Rightarrow> (nat \<Rightarrow> bool \<times> nat) \<Rightarrow> unit res \<times> unit res \<Rightarrow> nat \<Rightarrow>
     'k host \<Rightarrow> ('d, 'k) HighPerformanceEngine \<Rightarrow> ('k host \<times> ('d, 'k) HighPerformanceEngine \<times> unit res) option" where
  "stop E now env ended n hs en =
     (let en1 = en\<lparr>hp_running := False, hp_handle := (hp_handle en)\<lparr>h_closed := True\<rparr>, hp_ownership := False,
                    hp_threads := False, hp_output := None, hp_bench_core := None\<rparr> in
      case (hp_workers en, hp_output en, hp_progress en, hs_journal hs) of
        (Some s, _, _, _) \<Rightarrow>
          map_option (\<lambda>(t, r).
              (hs\<lparr>hs_journal := Some (jw_store (sy_journal t)), hs_broker := ow_broker (sy_output t)\<rparr>,
               en1\<lparr>hp_workers := Some t, hp_progress := Some (jw_progress (sy_journal t)),
                   hp_state := (if hp_threads en \<and> snd (join_core E (closing s)) = None then Some (w_state (sy_core t))
                                else hp_state en)\<rparr>, r))
            (halt E now env (if hp_threads en then ended else (Inr (), Inr ())) (hp_threads en) n s)
      | (None, Some w, Some p, Some file) \<Rightarrow>
          map_option (\<lambda>(t, r).
              (hs\<lparr>hs_journal := Some (jw_store (sy_journal t)), hs_broker := ow_broker (sy_output t)\<rparr>,
               en1\<lparr>hp_workers := Some t, hp_progress := Some (jw_progress (sy_journal t))\<rparr>, r))
            (halt E now env ended False n (abandoned file p w (hp_handle en)))
      | _ \<Rightarrow>
          (case hp_bench_core en of
             None \<Rightarrow> Some (hs, en1, Inr ())
           | Some w \<Rightarrow>
               (case loop_iteration (ol_decimal E) False True (w\<lparr>w_closed := True, w_running := False\<rparr>) of
                  Inr (w', _) \<Rightarrow> Some (hs, en1\<lparr>hp_state := Some (w_state w')\<rparr>, Inr ())
                | Inl _ \<Rightarrow> Some (hs, en1, Inl (Error ''Engine worker panicked'')))))"

section \<open>The wait for the output worker\<close>

text \<open>What holds between the iterations of the output worker while nothing new is written.\<close>

definition ready_inv ::
    "('d, 'k) outlet \<Rightarrow> 'd EngineState \<Rightarrow> string \<Rightarrow> Store \<Rightarrow> Progress \<Rightarrow> ('d, 'k) OutputWorker \<Rightarrow> bool" where
  "ready_inv E st engine_id s p w \<longleftrightarrow>
     recover (ol_decimal E) (ol_codec E) s = Inr (st, engine_id) \<and> ow_engine_id w = engine_id \<and>
     delivered s = Inr (ow_cursor w) \<and> pg_delivered p = ow_cursor w \<and> distinct (map fst (delivery_rows s)) \<and>
     durable p = int (length (record_rows s)) \<and> last_sequence s = Inr (durable p) \<and> ow_startup_end w = durable p \<and>
     ow_cursor w \<le> durable p \<and> \<not> journal_done p"

context engine_pipeline
begin

lemma ready_step:
  assumes inv: "ready_inv E st i s p w" and unready: "ow_ready w = None"
    and run: "run_store_iteration E (durable p) (journal_done p) (durable p) s p w = (s', p', w', flag)"
  shows "ow_cursor w = durable p \<Longrightarrow> flag = Continue \<and> ow_ready w' = Some (Inr ()) \<and> ready_inv E st i s' p' w' \<and> ow_cursor w' = durable p'"
    and "ow_cursor w < durable p \<Longrightarrow> flag = Continue \<Longrightarrow>
      ow_ready w' = None \<and> ready_inv E st i s' p' w' \<and> ow_cursor w' = ow_cursor w + 1 \<and> durable p' = durable p"
    and "ow_cursor w < durable p \<Longrightarrow> flag \<noteq> Continue \<Longrightarrow> ow_ready w' \<noteq> Some (Inr ())"
proof -
  assume "ow_cursor w = durable p"
  with inv unready run show "flag = Continue \<and> ow_ready w' = Some (Inr ()) \<and> ready_inv E st i s' p' w' \<and> ow_cursor w' = durable p'"
    by (auto simp: run_store_iteration_def ready_inv_def ready_send_def Let_def)
next
  assume less: "ow_cursor w < durable p"
  then have rec: "deliver_record E s p w = (s', p', w', flag)"
    using run inv by (auto simp: run_store_iteration_def ready_inv_def Let_def split: if_splits)
  show "ow_ready w' \<noteq> Some (Inr ())" if "flag \<noteq> Continue"
    using rec that unready by (auto simp: deliver_record_def ready_send_def Let_def split: sum.splits prod.splits)
  show "ow_ready w' = None \<and> ready_inv E st i s' p' w' \<and> ow_cursor w' = ow_cursor w + 1 \<and> durable p' = durable p"
    if go: "flag = Continue"
  proof -
    have keep: "ow_ready w' = None" "ow_startup_end w' = ow_startup_end w" "ow_engine_id w' = ow_engine_id w"
      using rec go unready by (auto simp: deliver_record_def Let_def split: sum.splits prod.splits)
    obtain r where d: "mark_delivered (ow_cursor w + 1) s = Inr s'" "p' = p\<lparr>pg_delivered := ow_cursor w + 1\<rparr>"
      "ow_cursor w' = ow_cursor w + 1"
      by (rule deliver_record_cases [OF rec refl]) (use go in auto)
    have cur: "distinct (map fst (delivery_rows s))" "delivered s = Inr (ow_cursor w)" using inv by (simp_all add: ready_inv_def)
    note m = mark_delivered_Inr [OF cur d(1)] and rows = mark_delivered_rows [OF d(1)]
    have "ow_cursor w + 1 \<le> int (length (record_rows s))" using less inv by (simp add: ready_inv_def)
    then have "recover (ol_decimal E) (ol_codec E) s' = Inr (st, i)" using m inv unfolding ready_inv_def by blast
    moreover have "last_sequence s' = last_sequence s" using rows by (simp add: last_sequence_def)
    moreover have "delivered s' = Inr (ow_cursor w + 1)" using m by blast
    ultimately show ?thesis using inv keep d rows less by (simp add: ready_inv_def)
  qed
qed

lemma await_ready_delivers:
  assumes "ready_inv E st i s p w" "ow_ready w = None" "await_ready E n s p w = Some (s', p', w', flag)" "ow_ready w' = Some (Inr u)"
  shows "flag = Continue \<and> ready_inv E st i s' p' w' \<and> ow_cursor w' = durable p'"
  using assms
proof (induction n arbitrary: s p w)
  case (Suc n)
  obtain s1 p1 w1 flag1 where it: "run_store_iteration E (durable p) (journal_done p) (durable p) s p w = (s1, p1, w1, flag1)"
    by (rule prod_cases4)
  note st = ready_step [OF Suc.prems(1,2) it]
  have le: "ow_cursor w \<le> durable p" using Suc.prems(1) by (simp add: ready_inv_def)
  show ?case
  proof (cases "ow_cursor w = durable p")
    case True
    with st(1) it Suc.prems(3) show ?thesis by simp
  next
    case False
    with le have less: "ow_cursor w < durable p" by simp
    show ?thesis
    proof (cases flag1)
      case Continue
      note one = st(2) [OF less this]
      then have "await_ready E n s1 p1 w1 = Some (s', p', w', flag)" using Continue it Suc.prems(3) by simp
      with Suc.IH one Suc.prems(4) show ?thesis by blast
    next
      case (Stopped r)
      with st(3) [OF less] it Suc.prems(3,4) show ?thesis by simp
    qed
  qed
qed simp

lemma await_ready_ends:
  assumes "ready_inv E st i s p w" "ow_ready w = None" "nat (durable p - ow_cursor w) < n"
  shows "\<exists>r. await_ready E n s p w = Some r"
  using assms
proof (induction n arbitrary: s p w)
  case (Suc n)
  obtain s1 p1 w1 flag1 where it: "run_store_iteration E (durable p) (journal_done p) (durable p) s p w = (s1, p1, w1, flag1)"
    by (rule prod_cases4)
  note st = ready_step [OF Suc.prems(1,2) it]
  show ?case
  proof (cases "flag1 = Continue \<and> ow_cursor w < durable p")
    case True
    with st(2) have one: "ow_ready w1 = None" "ready_inv E st i s1 p1 w1" "ow_cursor w1 = ow_cursor w + 1" "durable p1 = durable p" by auto
    with Suc.prems(3) True have "nat (durable p1 - ow_cursor w1) < n" by linarith
    with Suc.IH one True it show ?thesis by simp
  next
    case False
    have "ow_cursor w \<le> durable p" using Suc.prems(1) by (simp add: ready_inv_def)
    with False st(1) it show ?thesis by (cases flag1) auto
  qed
qed simp

lemma spawn_start_inv:
  assumes "recover (ol_decimal E) (ol_codec E) s = Inr (st, i)" "last_sequence s = Inr d" "delivered s = Inr c"
    and "distinct (map fst (delivery_rows s))" "run_store_start E i d s k = (w, Continue)"
  shows "ready_inv E st i s (Progress_new d c) w \<and> ow_ready w = None"
proof -
  have d: "d = int (length (record_rows s))" by (rule recover_sequence [OF assms(1,2)])
  obtain n cursor where "delivered s = Inr cursor" "cursor \<le> n" "n = int (length (record_rows s))"
    by (rule recover_Inr [OF assms(1)])
  with assms d show ?thesis
    by (auto simp: run_store_start_def ready_inv_def Progress_new_def Let_def split: sum.splits prod.splits)
qed

end

lemma await_ready_mono: "await_ready E n s p w = Some r \<Longrightarrow> n \<le> m \<Longrightarrow> await_ready E m s p w = Some r"
proof (induction n arbitrary: m s p w)
  case (Suc n)
  then obtain k where "m = Suc k" "n \<le> k" by (metis Suc_le_D Suc_le_mono)
  with Suc show ?case by (auto split: prod.splits progress_flag.splits if_splits)
qed simp

lemma start_mono:
  assumes "start E n db hs en = Some r" "n \<le> m"
  shows "start E m db hs en = Some r"
proof -
  have "spawn E m i s p k = Some x" if "spawn E n i s p k = Some x" for i s p k x
    using that by (auto simp: spawn_def intro: await_ready_mono [OF _ assms(2)] split: prod.splits progress_flag.splits)
  then have "start_standard E m db hs en = Some r" if "start_standard E n db hs en = Some r"
    using that unfolding start_standard_def
    by (auto simp: Let_def split: prod.splits sum.splits if_splits option.split_asm)
  with assms(1) show ?thesis by (auto simp: start_def split: if_splits option.splits EngineMode.splits)
qed

section \<open>The workers of a stopping engine\<close>

text \<open>
  Everything the core executed is durable and answered. In a stopping engine the core has ended, so every
  iteration of the journal worker takes items or ends; when it ends without an error, this holds.
\<close>

definition all_durable :: "('d, 'k) outlet \<Rightarrow> 'd EngineState \<Rightarrow> ('d, 'k) System \<Rightarrow> bool" where
  "all_durable E st0 s \<longleftrightarrow>
     journal_queue s = [] \<and> (\<exists>reqs i. jw_replies (sy_journal s) = map finish reqs \<and>
       served (ol_decimal E) st0 reqs (w_state (sy_core s)) \<and>
       recover (ol_decimal E) (ol_codec E) (jw_store (sy_journal s)) = Inr (w_state (sy_core s), i))"

context engine_pipeline
begin

lemma join_journal_ends:
  assumes "sys_inv E confirmed st0 c0 log0 s" "sy_journal_live s" "\<not> sy_core_live s" "length (journal_queue s) < n"
  shows "\<exists>t r. (\<forall>m \<ge> n. join_journal E now env m s = Some (t, r)) \<and> sys_inv E confirmed st0 c0 log0 t \<and>
    journal_done (jw_progress (sy_journal t)) \<and> sy_output_live t = sy_output_live s \<and> \<not> sy_core_live t \<and> (r = Inr () \<longrightarrow> all_durable E st0 t)"
  using assms
proof (induction n arbitrary: s env)
  case (Suc n)
  obtain committed arrived where env: "env 0 = (committed, arrived)" by fastforce
  let ?t = "journal_turn E now committed arrived s" and ?j = "(sy_journal s)\<lparr>jw_closed := w_closed (sy_core s)\<rparr>"
  obtain rest j' flag where it: "journal_iteration (ol_codec E) now committed arrived (sy_core_live s) (journal_queue s) ?j =
      (rest, j', flag)" by (rule prod_cases3)
  have turn: "?t = s\<lparr>sy_core := (set_queue rest (sy_core s))\<lparr>w_closed := jw_closed j'\<rparr>, sy_journal := j', sy_journal_live := (flag = Continue)\<rparr>"
    by (simp add: journal_turn_def it)
  have inv: "sys_inv E confirmed st0 c0 log0 ?t" by (rule journal_keeps [OF Suc.prems(1,2)])
  obtain q where q: "w_output (sy_core s) = Some q"
    using Suc.prems(1) by (auto simp: sys_inv_def queue_inv_def split: option.splits)
  have queue: "journal_queue ?t = rest" using q by (simp add: turn)
  have later: "join_journal E now env (Suc m) s = (case flag of
      Stopped r \<Rightarrow> Some (?t, r) | Continue \<Rightarrow> join_journal E now (\<lambda>k. env (Suc k)) m ?t)" for m
    by (simp add: env it split: progress_flag.splits)
  show ?case
  proof (cases flag)
    case Continue
    have "journal_queue s \<noteq> []" using it Continue Suc.prems(3) by (auto simp: journal_iteration_def)
    with it obtain batch where "journal_group arrived (journal_queue s) = (batch, rest)"
      by (auto simp: journal_iteration_def split: prod.splits sum.splits)
    then have "length rest < length (journal_queue s)"
      using journal_group_split journal_group_bounds \<open>journal_queue s \<noteq> []\<close> by fastforce
    with queue Suc.prems(4) have less: "length (journal_queue ?t) < n" by simp
    have live: "sy_journal_live ?t" "\<not> sy_core_live ?t" "sy_output_live ?t = sy_output_live s"
      using Suc.prems(3) Continue by (simp_all add: turn)
    from Suc.IH [OF inv live(1,2) less, of "\<lambda>k. env (Suc k)"] live(3) obtain t r where
      t: "\<forall>m \<ge> n. join_journal E now (\<lambda>k. env (Suc k)) m ?t = Some (t, r)" "sys_inv E confirmed st0 c0 log0 t"
      "journal_done (jw_progress (sy_journal t))" "sy_output_live t = sy_output_live s" "\<not> sy_core_live t" "r = Inr () \<longrightarrow> all_durable E st0 t" by blast
    have "join_journal E now env m s = Some (t, r)" if "Suc n \<le> m" for m
      using that t(1) later [of "m - 1"] Continue by (cases m) simp_all
    with t show ?thesis by blast
  next
    case (Stopped r)
    note st = journal_iteration_stops [OF it [unfolded Stopped]]
    have "all_durable E st0 ?t" if ok: "r = Inr ()"
    proof -
      have empty: "journal_queue s = []" "rest = []" using st(6,7) ok by auto
      from Suc.prems(1,2) obtain reqs st i where "jw_replies (sy_journal s) = map finish reqs" "served (ol_decimal E) st0 reqs st"
        "served (ol_decimal E) st (journal_queue s) (w_state (sy_core s))"
        "recover (ol_decimal E) (ol_codec E) (jw_store (sy_journal s)) = Inr (st, i)"
        by (auto simp: sys_inv_def journal_inv_def)
      with empty st(1,2) queue show ?thesis unfolding all_durable_def by (auto simp: turn elim: served_NilE)
    qed
    moreover have "join_journal E now env m s = Some (?t, r)" if "Suc n \<le> m" for m
      using that later [of "m - 1"] Stopped by (cases m) simp_all
    moreover have "journal_done (jw_progress (sy_journal ?t))" "sy_output_live ?t = sy_output_live s" "\<not> sy_core_live ?t"
      using st(3) Suc.prems(3) by (simp_all add: turn)
    ultimately show ?thesis using inv by blast
  qed
qed simp

text \<open>The output worker of a stopping engine: every iteration delivers a record or ends.\<close>

lemma join_output_ends:
  assumes "sys_inv E confirmed st0 c0 log0 s" "sy_output_live s" "journal_done (jw_progress (sy_journal s))"
    and "nat (durable (jw_progress (sy_journal s)) - ow_cursor (sy_output s)) < n"
  shows "\<exists>t r. (\<forall>m \<ge> n. join_output E m s = Some (t, r)) \<and> sys_inv E confirmed st0 c0 log0 t \<and>
    (all_durable E st0 s \<longrightarrow> all_durable E st0 t) \<and> sy_core_live t = sy_core_live s \<and>
    (r = Inr () \<longrightarrow> pending_output_count (jw_progress (sy_journal t)) = 0 \<and>
       delivered (jw_store (sy_journal t)) = Inr (durable (jw_progress (sy_journal t))))"
  using assms
proof (induction n arbitrary: s)
  case (Suc n)
  let ?p = "jw_progress (sy_journal s)" and ?o = "sy_output s" and ?s = "jw_store (sy_journal s)"
  let ?t = "output_turn E (durable ?p) (journal_done ?p) (durable ?p) s"
  obtain s' p' w' flag where it: "run_store_iteration E (durable ?p) (journal_done ?p) (durable ?p) ?s ?p ?o = (s', p', w', flag)"
    by (rule prod_cases4)
  have turn: "sy_journal ?t = (sy_journal s)\<lparr>jw_store := s', jw_progress := p'\<rparr>" "sy_output ?t = w'"
    "sy_output_live ?t = (flag = Continue)" "w_state (sy_core ?t) = w_state (sy_core s)" "sy_core_live ?t = sy_core_live s"
    by (simp_all add: output_turn_def it)
  have inv: "sys_inv E confirmed st0 c0 log0 ?t" by (rule output_keeps [OF Suc.prems(1,2)]) simp
  have dur: "all_durable E st0 ?t" if "all_durable E st0 s"
  proof -
    from that obtain reqs i where d: "journal_queue s = []" "jw_replies (sy_journal s) = map finish reqs"
      "served (ol_decimal E) st0 reqs (w_state (sy_core s))"
      "recover (ol_decimal E) (ol_codec E) ?s = Inr (w_state (sy_core s), i)" by (auto simp: all_durable_def)
    from inv obtain st i' where rec: "recover (ol_decimal E) (ol_codec E) (jw_store (sy_journal ?t)) = Inr (st, i')"
      by (auto simp: sys_inv_def journal_inv_def)
    have "st = w_state (sy_core s)" by (rule recover_same_rows [OF d(4) rec]) (simp_all only: output_turn_frame)
    with d rec show ?thesis unfolding all_durable_def by (auto simp only: output_turn_frame turn(4))
  qed
  have le: "ow_cursor ?o \<le> durable ?p" using Suc.prems(1) by (simp add: sys_inv_def output_inv_def)
  have later: "join_output E (Suc m) s = (case flag of Stopped r \<Rightarrow> Some (?t, r) | Continue \<Rightarrow> join_output E m ?t)" for m
    by (simp add: Let_def it split: progress_flag.splits)
  show ?case
  proof (cases flag)
    case Continue
    have less: "ow_cursor ?o < durable ?p"
      using it Continue Suc.prems(3) le by (cases "ow_cursor ?o = durable ?p") (auto simp: run_store_iteration_def Let_def split: if_splits)
    obtain w0 where w0: "deliver_record E ?s ?p w0 = (s', p', w', Continue)" "ow_cursor w0 = ow_cursor ?o"
      using it less Continue by (auto simp: run_store_iteration_def Let_def split: if_splits)
    obtain r where "p' = ?p\<lparr>pg_delivered := ow_cursor w0 + 1\<rparr>" "ow_cursor w' = ow_cursor w0 + 1"
      by (rule deliver_record_cases [OF w0(1) refl]) auto
    with w0(2) have p': "durable p' = durable ?p" "journal_done p'" "ow_cursor w' = ow_cursor ?o + 1" using Suc.prems(3) by simp_all
    have "nat (durable (jw_progress (sy_journal ?t)) - ow_cursor (sy_output ?t)) < n"
      using p' turn Suc.prems(4) less by simp
    moreover have "journal_done (jw_progress (sy_journal ?t))" "sy_output_live ?t" using p'(2) turn Continue by simp_all
    ultimately obtain t r where
      t: "\<forall>m \<ge> n. join_output E m ?t = Some (t, r)" "sys_inv E confirmed st0 c0 log0 t"
      "all_durable E st0 ?t \<longrightarrow> all_durable E st0 t" "sy_core_live t = sy_core_live ?t"
      "r = Inr () \<longrightarrow> pending_output_count (jw_progress (sy_journal t)) = 0 \<and>
         delivered (jw_store (sy_journal t)) = Inr (durable (jw_progress (sy_journal t)))"
      using Suc.IH [OF inv] by blast
    have "join_output E m s = Some (t, r)" if "Suc n \<le> m" for m
      using that t(1) later [of "m - 1"] Continue by (cases m) simp_all
    with t dur turn(5) show ?thesis by blast
  next
    case (Stopped r)
    have "ow_cursor w' = durable p'" if "r = Inr ()"
    proof (cases "ow_cursor ?o < durable ?p")
      case True
      obtain w0 where "deliver_record E ?s ?p w0 = (s', p', w', Stopped r)"
        using it True Stopped by (auto simp: run_store_iteration_def Let_def split: if_splits)
      then show ?thesis by (rule deliver_record_cases [OF _ refl]) (use that in auto)
    next
      case False
      with le it Stopped show ?thesis by (auto simp: run_store_iteration_def Let_def split: if_splits)
    qed
    then have "r = Inr () \<longrightarrow> pending_output_count (jw_progress (sy_journal ?t)) = 0 \<and>
       delivered (jw_store (sy_journal ?t)) = Inr (durable (jw_progress (sy_journal ?t)))"
      using inv turn by (auto simp: sys_inv_def output_inv_def pending_output_count_def)
    moreover have "join_output E m s = Some (?t, r)" if "Suc n \<le> m" for m
      using that later [of "m - 1"] Stopped by (cases m) simp_all
    ultimately show ?thesis using inv dur turn(5) by blast
  qed
qed simp

end

section \<open>Properties\<close>

lemma open_journal_keys:
  assumes "open_journal L C db hs = (hs', Inr s)" "\<And>f. hs_journal hs = Some f \<Longrightarrow> distinct (map fst (delivery_rows f))"
  shows "distinct (map fst (delivery_rows s)) \<and> hs_journal hs' = Some s \<and> hs_broker hs' = hs_broker hs \<and>
    hs_producer_ok hs' = hs_producer_ok hs \<and> hs_spawn_ok hs' = hs_spawn_ok hs"
proof -
  have opened: "distinct (map fst (delivery_rows t))" if "store_open env f = Inr t" "distinct (map fst (delivery_rows f))" for env f t
    using that by (auto simp: store_open_def configure_def ensure_Inr_iff Let_def map_of_eq_None_iff image_iff split: if_splits)
  have initial: "delivery_rows t = delivery_rows f" if "first_genesis L C db new_id f = Inr t" for new_id f t
    using that by (auto simp: first_genesis_def initialize_def Let_def res_bind_Inr_iff ensure_Inr_iff)
  from assms(1) obtain f0 t where t: "store_open (hs_pragmas hs) f0 = Inr t"
    "f0 = (case hs_journal hs of Some f \<Rightarrow> f | None \<Rightarrow> empty_store)" "delivery_rows s = delivery_rows t"
    and rest: "hs_journal hs' = Some s" "hs_broker hs' = hs_broker hs" "hs_producer_ok hs' = hs_producer_ok hs" "hs_spawn_ok hs' = hs_spawn_ok hs"
    by (auto simp: open_journal_def Ownership_acquire_def ensure_Inr_iff Let_def dest: initial
        split: if_splits sum.splits prod.splits bool.splits)
  have "distinct (map fst (delivery_rows f0))" using assms(2) t(2) by (auto simp: empty_store_def split: option.splits)
  with opened t rest show ?thesis by metis
qed

text \<open>Neither the opening of an initialised journal nor the wait for the output worker changes what is recovered.\<close>

lemma await_ready_rows:
  "await_ready E n s p w = Some (s', p', w', flag) \<Longrightarrow> record_rows s' = record_rows s \<and> genesis_rows s' = genesis_rows s"
proof (induction n arbitrary: s p w)
  case (Suc n)
  obtain s1 p1 w1 flag1 where it: "run_store_iteration E (durable p) (journal_done p) (durable p) s p w = (s1, p1, w1, flag1)"
    by (rule prod_cases4)
  then have rows: "record_rows s1 = record_rows s \<and> genesis_rows s1 = genesis_rows s" by (rule run_store_iteration_rows)
  from Suc.prems it have "(s', p', w', flag) = (s1, p1, w1, flag1) \<or> await_ready E n s1 p1 w1 = Some (s', p', w', flag)"
    by (auto split: progress_flag.splits if_splits)
  with Suc.IH rows show ?case by auto
qed simp

lemma open_journal_rows:
  assumes "open_journal L C db hs = (hs', Inr s)" "hs_journal hs = Some f" "genesis_rows f \<noteq> []"
  shows "record_rows s = record_rows f \<and> genesis_rows s = genesis_rows f"
  using assms
  by (auto simp: open_journal_def Ownership_acquire_def store_open_def configure_def initialized_def ensure_Inr_iff Let_def
      split: if_splits sum.splits prod.splits bool.splits)

lemma start_recovers:
  assumes "start E n db hs en = Some (hs', en', Inr ())" "hp_mode en = Standard"
    and "hs_journal hs = Some f" "recover (ol_decimal E) (ol_codec E) f = Inr (st, i)"
  shows "\<exists>s. hp_workers en' = Some s \<and> w_state (sy_core s) = st \<and>
    record_rows (jw_store (sy_journal s)) = record_rows f \<and> genesis_rows (jw_store (sy_journal s)) = genesis_rows f"
proof -
  from assms(1,2) have std: "start_standard E n db hs en = Some (hs', en', Inr ())"
    by (auto simp: start_def split: if_splits option.splits)
  from std obtain hs1 s st1 i1 where opn: "open_journal (ol_decimal E) (ol_codec E) db hs = (hs1, Inr s)"
    and rec: "recover (ol_decimal E) (ol_codec E) s = Inr (st1, i1)"
    by (auto simp: start_standard_def split: prod.splits sum.splits)
  have "genesis_rows f \<noteq> []" using assms(4) by (auto simp: recover_def query_row_def res_bind_Inr_iff)
  note rows = open_journal_rows [OF opn assms(3) this]
  have st1: "st1 = st" by (rule recover_same_rows [OF assms(4) rec]) (use rows in simp_all)
  from std opn rec obtain p s' p' w flag en2 where sp: "spawn E n i1 s p (hs_broker hs1) = Some (s', p', w, flag)"
    and en': "en' = launch s' p' w flag st1 en2"
    by (auto simp: start_standard_def Let_def split: if_splits option.splits prod.splits sum.splits)
  have "record_rows s' = record_rows s \<and> genesis_rows s' = genesis_rows s"
    using sp by (auto simp: spawn_def dest: await_ready_rows split: prod.splits progress_flag.splits)
  with rows st1 show ?thesis
    by (auto simp: en' launch_def journal_start_def finish_journal_def core_of_def split: prod.splits sum.splits)
qed

lemma start_workers_started:
  assumes "engine_pipeline E confirmed" "start E n db hs en = Some (hs', en', Inr ())" "hp_mode en = Standard"
    and "\<And>f. hs_journal hs = Some f \<Longrightarrow> distinct (map fst (delivery_rows f))"
  shows "hp_running en' \<and> hp_ownership en' \<and>
    (\<exists>s. hp_workers en' = Some s \<and> started E s \<and> hs_journal hs' = Some (jw_store (sy_journal s)) \<and>
       ow_cursor (sy_output s) = durable (jw_progress (sy_journal s)))"
proof -
  from assms(2,3) have closed: "\<not> h_closed (hp_handle en)" and std: "start_standard E n db hs en = Some (hs', en', Inr ())"
    by (auto simp: start_def split: if_splits option.splits)
  from std obtain hs1 s st i where opn: "open_journal (ol_decimal E) (ol_codec E) db hs = (hs1, Inr s)"
    and rec: "recover (ol_decimal E) (ol_codec E) s = Inr (st, i)"
    by (auto simp: start_standard_def split: prod.splits sum.splits)
  from std opn rec obtain d c where seq: "last_sequence s = Inr d" "delivered s = Inr c"
    by (auto simp: start_standard_def Let_def res_bind_Inr_iff split: sum.splits)
  from std opn rec seq obtain s' p' w flag u where sp: "spawn E n i s (Progress_new d c) (hs_broker hs1) = Some (s', p', w, flag)"
    and ready: "ow_ready w = Some (Inr u)" and hs': "hs_journal hs' = Some s'"
    and en': "en' = launch s' p' w flag st (en\<lparr>hp_state := Some st, hp_ownership := True, hp_progress := Some p', hp_output := Some w,
        hp_handle := (hp_handle en)\<lparr>h_closed := (h_closed (hp_handle en) \<or> flag \<noteq> Continue)\<rparr>\<rparr>)"
    by (auto simp: start_standard_def Let_def split: if_splits option.splits prod.splits sum.splits)
  note keys = open_journal_keys [OF opn assms(4), THEN conjunct1]
  have "\<exists>w0. run_store_start E i d s (hs_broker hs1) = (w0, Continue) \<and> await_ready E n s (Progress_new d c) w0 = Some (s', p', w, flag)"
  proof -
    have "durable (Progress_new d c) = d" by (simp add: Progress_new_def)
    moreover have "ow_ready w0 = None" if "run_store_start E i d s (hs_broker hs1) = (w0, Stopped r)" for w0 r
      using that by (auto simp: run_store_start_def Let_def split: sum.splits prod.splits)
    ultimately show ?thesis using sp ready by (fastforce simp: spawn_def split: prod.splits progress_flag.splits)
  qed
  then obtain w0 where w0: "run_store_start E i d s (hs_broker hs1) = (w0, Continue)"
    "await_ready E n s (Progress_new d c) w0 = Some (s', p', w, flag)" by blast
  from engine_pipeline.spawn_start_inv [OF assms(1) rec seq keys w0(1)]
    engine_pipeline.await_ready_delivers [OF assms(1) _ _ w0(2) ready]
  have inv: "flag = Continue" "ready_inv E st i s' p' w" "ow_cursor w = durable p'" by blast+
  then show ?thesis
    using closed hs' by (auto simp: en' launch_def journal_start_def started_def ready_inv_def core_of_def)
qed

lemma start_threads:
  "start E n db hs en = Some (hs', en', Inr ()) \<Longrightarrow> hp_mode en = Standard \<Longrightarrow> hp_threads en'"
  by (auto simp: start_def start_standard_def launch_def Let_def split: if_splits option.splits prod.splits sum.splits)

lemma start_succeeds:
  assumes "open_journal (ol_decimal E) (ol_codec E) db hs = (hs1, Inr s)" "recover (ol_decimal E) (ol_codec E) s = Inr (st, i)"
    and "last_sequence s = Inr d" "delivered s = Inr c" "hs_producer_ok hs1" "hs_spawn_ok hs1"
    and "spawn E n i s (Progress_new d c) (hs_broker hs1) = Some (s', p', w, flag)" "ow_ready w = Some (Inr u)"
  shows "\<exists>hs' en'. start E n db hs (new_with_mode Standard) = Some (hs', en', Inr ())"
proof -
  have "\<exists>hs' en'. start_standard E n db hs (new_with_mode Standard) = Some (hs', en', Inr ())"
    unfolding start_standard_def by (simp add: assms Let_def)
  then show ?thesis by (auto simp: start_def new_with_mode_def)
qed

text \<open>
  C12. A successful start connects the three workers correctly. Whatever the operating system, the
  database and the broker answered on the way: when \<open>start\<close> returns success, the engine runs and owns
  its directory, the core has exactly the state the journal recovers to, the journal worker continues
  at the journal's last sequence, every record written before has been delivered, and the workers are
  in the state from which the properties of the running engine are proved.
\<close>

theorem start_connects_workers:
  assumes "engine_pipeline E confirmed" "start E n db hs en = Some (hs', en', Inr ())" "hp_mode en = Standard"
    and "\<And>f. hs_journal hs = Some f \<Longrightarrow> distinct (map fst (delivery_rows f))"
  shows "hp_running en' \<and> hp_ownership en' \<and>
    (\<exists>s. hp_workers en' = Some s \<and> started E s \<and> hs_journal hs' = Some (jw_store (sy_journal s)) \<and>
       ow_cursor (sy_output s) = durable (jw_progress (sy_journal s)))"
  using start_workers_started [OF assms] .

definition sample_host :: "broker host" where
  "sample_host =
     \<lparr>hs_directory_ok = True, hs_lock_exists = True, hs_lock_opens = True, hs_lock_free = True, hs_journal = Some sample_store,
      hs_pragmas = \<lparr>journal_mode = ''wal'', synchronous = 2, integrity_check = ''ok''\<rparr>, hs_new_id = ''e2'', hs_producer_ok = True,
      hs_spawn_ok = True, hs_broker = \<lparr>brk_log = [], brk_count = 0, brk_script = (\<lambda>_. None)\<rparr>\<rparr>"

lemma sample_start:
  assumes "case open_journal ref_decimal sample_codec db (sample_host\<lparr>hs_journal := Some f\<rparr>) of (hs1, Inr s) \<Rightarrow> s = f | _ \<Rightarrow> False"
    and "distinct (map fst (delivery_rows f))"
    and "case recover ref_decimal sample_codec f of Inr (st, i) \<Rightarrow> i = ''e1'' | Inl _ \<Rightarrow> False"
    and "last_sequence f = Inr d" "delivered f = Inr d"
    and "case spawn sample_outlet 2 ''e1'' f (Progress_new d d) (hs_broker sample_host) of
      Some (_, _, w, _) \<Rightarrow> ow_ready w = Some (Inr ()) | None \<Rightarrow> False"
  shows "\<exists>hs' en'. start sample_outlet 2 db (sample_host\<lparr>hs_journal := Some f\<rparr>) (new_with_mode Standard) = Some (hs', en', Inr ())"
proof -
  have E: "ol_decimal sample_outlet = ref_decimal" "ol_codec sample_outlet = sample_codec" by (simp_all add: sample_outlet_def)
  from assms(1) obtain hs1 where opn: "open_journal ref_decimal sample_codec db (sample_host\<lparr>hs_journal := Some f\<rparr>) = (hs1, Inr f)"
    by (auto split: prod.splits sum.splits)
  have keys: "distinct (map fst (delivery_rows g))" if "hs_journal (sample_host\<lparr>hs_journal := Some f\<rparr>) = Some g" for g
    using that assms(2) by simp
  have hs1: "hs_broker hs1 = hs_broker sample_host" "hs_producer_ok hs1" "hs_spawn_ok hs1"
    using open_journal_keys [OF opn keys] by (simp_all add: sample_host_def)
  from assms(3) obtain st where rec: "recover ref_decimal sample_codec f = Inr (st, ''e1'')" by (auto split: sum.splits)
  from assms(6) obtain s' p' w flag where sp: "spawn sample_outlet 2 ''e1'' f (Progress_new d d) (hs_broker hs1) = Some (s', p', w, flag)"
    "ow_ready w = Some (Inr ())" by (auto simp: hs1 split: option.splits)
  show ?thesis by (rule start_succeeds [OF _ _ assms(4,5) hs1(2,3) sp]) (simp_all add: E opn rec)
qed

theorem start_connects_workers_witness:
  "\<exists>hs' en' s. start sample_outlet 2 None (sample_host\<lparr>hs_journal := Some sample_store\<rparr>) (new_with_mode Standard) = Some (hs', en', Inr ()) \<and>
     hp_workers en' = Some s \<and> started sample_outlet s"
proof -
  let ?en = "new_with_mode Standard :: (refdec, broker) HighPerformanceEngine"
  have "distinct (map fst (delivery_rows sample_store))" by code_simp
  then have keys: "distinct (map fst (delivery_rows f))" if "hs_journal (sample_host\<lparr>hs_journal := Some sample_store\<rparr>) = Some f" for f
    using that by simp
  have "\<exists>hs' en'. start sample_outlet 2 None (sample_host\<lparr>hs_journal := Some sample_store\<rparr>) ?en = Some (hs', en', Inr ())"
    by (rule sample_start [where d = 0]) code_simp+
  then obtain hs' en' where run: "start sample_outlet 2 None (sample_host\<lparr>hs_journal := Some sample_store\<rparr>) ?en = Some (hs', en', Inr ())"
    by blast
  have "hp_mode ?en = Standard" by (simp add: new_with_mode_def)
  from start_connects_workers [OF running.engine_pipeline_axioms run this keys] run show ?thesis by blast
qed



lemma halt_outcome:
  assumes "engine_pipeline E confirmed" "started E s0" "reachable E now s0 s" "sy_core_live s" "sy_journal_live s" "sy_output_live s"
  shows "\<exists>m t r. (\<forall>n \<ge> m. halt E now env ended True n s = Some (t, r)) \<and>
    r \<notin> {Inl (Error ''Journal queue was not drained''), Inl (Error ''Durable output remains pending'')} \<and>
    (r = Inr () \<longrightarrow> \<not> sy_core_live t \<and> journal_queue t = [] \<and>
       (\<exists>reqs i. jw_replies (sy_journal t) = map finish reqs \<and> served (ol_decimal E) (w_state (sy_core s0)) reqs (w_state (sy_core t)) \<and>
          recover (ol_decimal E) (ol_codec E) (jw_store (sy_journal t)) = Inr (w_state (sy_core t), i)) \<and>
       delivered (jw_store (sy_journal t)) = Inr (durable (jw_progress (sy_journal t))) \<and>
       durable (jw_progress (sy_journal t)) = int (length (record_rows (jw_store (sy_journal t)))))"
proof -
  let ?st0 = "w_state (sy_core s0)" and ?c0 = "ow_cursor (sy_output s0)" and ?log0 = "confirmed (ow_broker (sy_output s0))"
  let ?s1 = "s\<lparr>sy_core := (sy_core s)\<lparr>w_closed := True, w_running := False\<rparr>\<rparr>"
  let ?w = "(sy_core ?s1)\<lparr>w_closed := True\<rparr>"
  let ?s2 = "?s1\<lparr>sy_core := ?w, sy_core_live := False\<rparr>"
  have r1: "reachable E now s0 ?s1" by (rule reachable.step [OF assms(3) sys_step.halt])
  have stop: "loop_iteration (ol_decimal E) False True (sy_core ?s1) = Inr (?w, False)" by (simp add: loop_iteration_def)
  have "reachable E now s0 ?s2"
    by (rule reachable.step [OF r1 sys_step.core [OF _ stop]]) (use assms(4) in simp)
  note inv = engine_pipeline.reachable_inv [OF assms(1) this assms(2)]
  have live: "sy_journal_live ?s2" "\<not> sy_core_live ?s2" "sy_output_live ?s2" using assms(5,6) by simp_all
  let ?m1 = "Suc (length (journal_queue ?s2))"
  obtain s3 jr where j: "\<forall>n \<ge> ?m1. join_journal E now env n ?s2 = Some (s3, jr)" "sys_inv E confirmed ?st0 ?c0 ?log0 s3"
    "journal_done (jw_progress (sy_journal s3))" "sy_output_live s3" "\<not> sy_core_live s3" "jr = Inr () \<longrightarrow> all_durable E ?st0 s3"
    using engine_pipeline.join_journal_ends [OF assms(1) inv live(1,2) lessI] live(3) by blast
  let ?m2 = "Suc (nat (durable (jw_progress (sy_journal s3)) - ow_cursor (sy_output s3)))"
  obtain t outr where o: "\<forall>n \<ge> ?m2. join_output E n s3 = Some (t, outr)" "sys_inv E confirmed ?st0 ?c0 ?log0 t"
    "all_durable E ?st0 s3 \<longrightarrow> all_durable E ?st0 t" "sy_core_live t = sy_core_live s3"
    "outr = Inr () \<longrightarrow> pending_output_count (jw_progress (sy_journal t)) = 0 \<and>
       delivered (jw_store (sy_journal t)) = Inr (durable (jw_progress (sy_journal t)))"
    using engine_pipeline.join_output_ends [OF assms(1) j(2,4,3) lessI] by blast
  define r where "r = (case (worker_error ''Journal'' jr, worker_error ''Output'' outr) of
      (_, Some e) \<Rightarrow> Inl (Error e) | (Some e, None) \<Rightarrow> Inl (Error e)
    | (None, None) \<Rightarrow> ensure (journal_queue t = []) ''Journal queue was not drained''
        (ensure (pending_output_count (jw_progress (sy_journal t)) = 0) ''Durable output remains pending'' (Inr ())))"
  have "join_core E (closing s) = (?s2, None)" using stop assms(4) by (simp add: join_core_def closing_def)
  then have "halt E now env ended True n s = Some (t, r)" if "max ?m1 ?m2 \<le> n" for n
    using that j(1,4) o(1) assms(4,5)
    by (auto simp: halt_def Let_def r_def split: option.splits)
  moreover have "r = Inr () \<and> jr = Inr () \<and> outr = Inr () \<or>
      (r \<noteq> Inr () \<and> r \<notin> {Inl (Error ''Journal queue was not drained''), Inl (Error ''Durable output remains pending'')})"
    using j(6) o(3,5)
    by (auto simp: r_def worker_error_def all_durable_def split: sum.splits failure.splits)
  moreover have "durable (jw_progress (sy_journal t)) = int (length (record_rows (jw_store (sy_journal t))))"
    using o(2) by (auto simp: sys_inv_def journal_inv_def)
  ultimately show ?thesis
    using j(5,6) o(3,4,5) unfolding all_durable_def by (intro exI [of _ "max ?m1 ?m2"] exI [of _ t] exI [of _ r]) blast
qed

text \<open>
  C11. A shutdown drains the engine. From every state the running workers can reach, \<open>halt\<close> comes to an
  end, whatever the commits and the broker do: it needs at most one iteration for each queued item and each
  undelivered record and one more each. Its two final checks never fail: it reports an error only when a
  worker failed. When it reports success, the core has stopped, everything it executed is durable and
  answered, recovering the journal gives exactly its last state, and every record has been delivered.
\<close>

theorem halt_drains:
  assumes "engine_pipeline E confirmed" "started E s0" "reachable E now s0 s" "sy_core_live s" "sy_journal_live s" "sy_output_live s"
  shows "\<exists>m t r. (\<forall>n \<ge> m. halt E now env ended True n s = Some (t, r)) \<and>
    r \<notin> {Inl (Error ''Journal queue was not drained''), Inl (Error ''Durable output remains pending'')} \<and>
    (r = Inr () \<longrightarrow> \<not> sy_core_live t \<and> journal_queue t = [] \<and>
       (\<exists>reqs i. jw_replies (sy_journal t) = map finish reqs \<and> served (ol_decimal E) (w_state (sy_core s0)) reqs (w_state (sy_core t)) \<and>
          recover (ol_decimal E) (ol_codec E) (jw_store (sy_journal t)) = Inr (w_state (sy_core t), i)) \<and>
       delivered (jw_store (sy_journal t)) = Inr (durable (jw_progress (sy_journal t))))"
  using halt_outcome [OF assms, of env ended] by metis

theorem halt_drains_witness:
  "sy_core_live sample_run \<and>
   (\<exists>m t r. \<forall>n \<ge> m. halt sample_outlet (\<lambda>_. 0) (\<lambda>_. (True, 1)) (Inr (), Inr ()) True n sample_run = Some (t, r))"
proof -
  have live: "sy_core_live sample_run" "sy_journal_live sample_run" "sy_output_live sample_run" by code_simp+
  from halt_drains [OF running.engine_pipeline_axioms sample_started sample_reachable live] live(1) show ?thesis by blast
qed

text \<open>Stopping a running engine is the shutdown of its workers; the file keeps what they wrote.\<close>

lemma stop_running:
  assumes "hp_workers en = Some s" "hp_threads en" "halt E now env ended True n s = Some (t, r)"
  shows "\<exists>hs' en'. stop E now env ended n hs en = Some (hs', en', r) \<and> hs_journal hs' = Some (jw_store (sy_journal t)) \<and> hp_workers en' = Some t"
  using assms by (simp add: stop_def Let_def)

text \<open>
  A stopped engine never runs again: whatever the shutdown reported, the engine refuses every later start,
  without touching the directory, so its state can only come back through a new engine and the journal.
\<close>

lemma stop_closes:
  "stop E now env ended n hs en = Some (hs', en', r) \<Longrightarrow> \<not> hp_running en' \<and> h_closed (hp_handle en') \<and> \<not> hp_ownership en'"
  by (auto simp: stop_def Let_def split: option.splits sum.splits)

lemma stopped_engine_refuses_start:
  assumes "stop E now env ended n hs en = Some (hs', en', r)"
  shows "start E m db hs'' en' = Some (hs'', en', Inl (Error ''Stopped engine cannot be restarted; create a new instance''))"
  using stop_closes [OF assms] by (simp add: start_def split: option.splits)

end
