(* ===== verification/Server.thy ===== *)
theory Server
  imports Gateway Lifecycle
begin

text \<open>
  The process (\<open>main.rs\<close>) and the creation of its router (\<open>routes/mod.rs\<close>): the settings are checked before anything
  is started, then the engine starts, then the server listens; when the server ends, the engine is stopped.

  The environment of the process is the record \<open>environment\<close>. An \<open>expect\<close>, \<open>assert\<close> or \<open>unwrap\<close> that fails ends
  the process; \<open>boot_error\<close> says which one it was. Leaving \<open>main\<close> drops the engine, which stops it.
\<close>

section \<open>Definitions\<close>

record environment =
  ev_service_token :: "string option"
  ev_database_url :: "string option"
  ev_lazy_ok :: "string \<Rightarrow> bool"
  ev_audit_token :: "string option"
  ev_bind_ok :: bool

datatype boot_error =
    MissingServiceToken | InvalidServiceToken | MissingDatabaseUrl | InvalidDatabaseUrl | InvalidAuditSettings
  | StartFailed failure | BindFailed

definition create_router :: "'d codec \<Rightarrow> string \<Rightarrow> string res" where
  "create_router C service_token =
     (if \<not> (32 \<le> length service_token \<and> length service_token \<le> 1024) then Inl (Panic ''service key length'')
      else case ServiceToken_parse C service_token of
        Inr expected \<Rightarrow> Inr expected
      | Inl _ \<Rightarrow> Inl (Panic ''service key''))"

record ('d, 'k) server =
  sv_engine :: "('d, 'k) HighPerformanceEngine"
  sv_key :: string
  sv_audit :: "string option"

definition boot_settings :: "'d codec \<Rightarrow> environment \<Rightarrow> boot_error + (string \<times> string option)" where
  "boot_settings C ev =
     (case ev_service_token ev of
        None \<Rightarrow> Inl MissingServiceToken
      | Some token \<Rightarrow>
          if \<not> (32 \<le> length token \<and> length token \<le> 1024) then Inl InvalidServiceToken
          else (case ev_database_url ev of
            None \<Rightarrow> Inl MissingDatabaseUrl
          | Some url \<Rightarrow>
              if \<not> ev_lazy_ok ev url then Inl InvalidDatabaseUrl
              else (case AuditReader_new C (ev_audit_token ev) of
                Inl _ \<Rightarrow> Inl InvalidAuditSettings
              | Inr audit \<Rightarrow> Inr (token, audit))))"

text \<open>The engine that is dropped when \<open>main\<close> ends early.\<close>

definition drop_engine ::
    "('d, 'k) outlet \<Rightarrow> (int \<Rightarrow> datetime) \<Rightarrow> (nat \<Rightarrow> bool \<times> nat) \<Rightarrow> unit res \<times> unit res \<Rightarrow> nat \<Rightarrow> boot_error \<Rightarrow>
     'k host \<Rightarrow> ('d, 'k) HighPerformanceEngine \<Rightarrow> ('k host \<times> (boot_error + ('d, 'k) server)) option" where
  "drop_engine E now turns ended n e hs en =
     (case stop E now turns ended n hs en of None \<Rightarrow> None | Some (hs', _, _) \<Rightarrow> Some (hs', Inl e))"

definition boot ::
    "('d, 'k) outlet \<Rightarrow> (int \<Rightarrow> datetime) \<Rightarrow> (nat \<Rightarrow> bool \<times> nat) \<Rightarrow> unit res \<times> unit res \<Rightarrow> nat \<Rightarrow> environment \<Rightarrow> Platform \<Rightarrow>
     'k host \<Rightarrow> ('k host \<times> (boot_error + ('d, 'k) server)) option" where
  "boot E now turns ended n ev db hs =
     (case boot_settings (ol_codec E) ev of
        Inl e \<Rightarrow> Some (hs, Inl e)
      | Inr (token, audit) \<Rightarrow>
          (case start E n (Some db) hs (new_with_mode Standard) of
             None \<Rightarrow> None
           | Some (hs', en, Inl e) \<Rightarrow> drop_engine E now turns ended n (StartFailed e) hs' en
           | Some (hs', en, Inr _) \<Rightarrow>
               (case create_router (ol_codec E) token of
                  Inl _ \<Rightarrow> drop_engine E now turns ended n InvalidServiceToken hs' en
                | Inr key \<Rightarrow>
                    if \<not> ev_bind_ok ev then drop_engine E now turns ended n BindFailed hs' en
                    else Some (hs', Inr \<lparr>sv_engine = en, sv_key = key, sv_audit = audit\<rparr>))))"

text \<open>
  While the server runs only its workers change. When serving fails, \<open>main\<close> panics, and dropping the engine stops it.
\<close>

definition serving :: "('d, 'k) System \<Rightarrow> ('d, 'k) server \<Rightarrow> ('d, 'k) server" where
  "serving s sv = sv\<lparr>sv_engine := (sv_engine sv)\<lparr>hp_workers := Some s\<rparr>\<rparr>"

definition shut_down ::
    "('d, 'k) outlet \<Rightarrow> (int \<Rightarrow> datetime) \<Rightarrow> (nat \<Rightarrow> bool \<times> nat) \<Rightarrow> unit res \<times> unit res \<Rightarrow> nat \<Rightarrow> bool \<Rightarrow>
     'k host \<Rightarrow> ('d, 'k) server \<Rightarrow> ('k host \<times> ('d, 'k) server \<times> unit res) option" where
  "shut_down E now turns ended n served_ok hs sv =
     (case stop E now turns ended n hs (sv_engine sv) of
        None \<Rightarrow> None
      | Some (hs', en, r) \<Rightarrow>
          Some (hs', sv\<lparr>sv_engine := en\<rparr>,
            if \<not> served_ok then Inl (Panic ''HTTP server failed'')
            else case r of Inr _ \<Rightarrow> Inr () | Inl _ \<Rightarrow> Inl (Panic ''Engine shutdown left pending work'')))"

section \<open>What a started server is\<close>

text \<open>Without valid settings nothing is touched: neither the directory nor the journal nor the platform.\<close>

lemma boot_checks_settings_first:
  "boot_settings (ol_codec E) ev = Inl e \<Longrightarrow> boot E now turns ended n ev db hs = Some (hs, Inl e)"
  by (simp add: boot_def)

lemma boot_settings_Inr:
  "boot_settings C ev = Inr (token, audit) \<Longrightarrow> ev_service_token ev = Some token \<and> create_router C token = Inr (sha256 C token)"
  by (auto simp: boot_settings_def create_router_def ServiceToken_parse_def ensure_def split: option.splits if_splits sum.splits)

lemma boot_Inr:
  assumes "boot E now turns ended n ev db hs = Some (hs', Inr sv)"
  obtains token where "start E n (Some db) hs (new_with_mode Standard) = Some (hs', sv_engine sv, Inr ())"
    "ev_service_token ev = Some token" "sv_key sv = sha256 (ol_codec E) token"
proof -
  from assms obtain token audit where set: "boot_settings (ol_codec E) ev = Inr (token, audit)"
    by (auto simp: boot_def split: sum.splits)
  note k = boot_settings_Inr [OF set]
  from assms set k have "start E n (Some db) hs (new_with_mode Standard) = Some (hs', sv_engine sv, Inr ())"
    "sv_key sv = sha256 (ol_codec E) token"
    by (auto simp: boot_def drop_engine_def split: option.splits sum.splits if_splits)
  with k that show thesis by blast
qed

text \<open>A command reaches its handler with the key of the environment, and never with a key of another digest.\<close>

lemma served_with_key:
  assumes "boot E now turns ended n ev db hs = Some (hs', Inr sv)" "ev_service_token ev = Some token"
  shows "command_router (ol_codec E) (sv_key sv) (Some token) handler = Inr (handler ())"
    and "\<forall>k. provided = Some k \<longrightarrow> sha256 (ol_codec E) k \<noteq> sha256 (ol_codec E) token \<Longrightarrow>
      command_router (ol_codec E) (sv_key sv) provided handler = Inl 401"
proof -
  from assms have key: "sv_key sv = sha256 (ol_codec E) token" by (auto elim: boot_Inr)
  have "32 \<le> length token \<and> length token \<le> 1024"
    using assms by (auto simp: boot_def boot_settings_def split: option.splits if_splits sum.splits)
  then show "command_router (ol_codec E) (sv_key sv) (Some token) handler = Inr (handler ())"
    by (simp add: command_router_def token_matches_def key)
  show "command_router (ol_codec E) (sv_key sv) provided handler = Inl 401"
    if "\<forall>k. provided = Some k \<longrightarrow> sha256 (ol_codec E) k \<noteq> sha256 (ol_codec E) token"
    using that by (auto simp: command_router_def token_matches_def key split: option.splits)
qed

end
