(* ===== verification/Order_Repository.thy ===== *)
theory Order_Repository
  imports Gateway
begin

text \<open>
  The stored orders of the platform (\<open>shared/database/repositories/cex/order_repository.rs\<close>): the statements over
  the table \<open>orders\<close>, and the exact reading of its rows.

  The table is a list of rows. Its numeric columns hold multiples of \<open>1e-9\<close> and are kept as that integer.
  PostgreSQL is the record \<open>postgres\<close>: which statement fails, named by the context of its error, how a bound
  decimal is stored in a column (\<open>None\<close> when it is out of range), the text of a numeric, which rows the constraints
  of the table reject, the next value of the sequence, the collation of texts, and the order in which
  rows with equal sort keys come. \<open>NULL\<close> sorts last in an ascending and first in a descending order, unless the
  statement says otherwise. A statement commits on its own: a row that was written stays written when reading
  it back fails.
\<close>

section \<open>Rows\<close>

record 'd OrderCreate =
  oc_user_id :: u64
  oc_order_type :: string
  oc_order_side :: string
  oc_base_mint :: string
  oc_quote_mint :: string
  oc_price :: "'d option"
  oc_amount :: 'd

record orders_row =
  t_id :: int
  t_user_id :: int
  t_order_type :: string
  t_order_side :: string
  t_base_mint :: string
  t_quote_mint :: string
  t_price :: "int option"
  t_amount :: int
  t_filled_amount :: int
  t_filled_quote_amount :: int
  t_status :: string
  t_created_at :: datetime
  t_updated_at :: datetime

record 'd postgres =
  pg_fails :: "string \<Rightarrow> bool"
  pg_numeric :: "string \<Rightarrow> 'd \<Rightarrow> int option"
  pg_text :: "string \<Rightarrow> int \<Rightarrow> string"
  pg_rejects :: "orders_row \<Rightarrow> bool"
  pg_next_id :: "orders_row list \<Rightarrow> int"
  pg_collate :: "string \<Rightarrow> string \<Rightarrow> bool"
  pg_scan :: "orders_row list \<Rightarrow> orders_row list"

definition as_i64 :: "u64 \<Rightarrow> int" where
  "as_i64 n = sint n"

definition read_decimal :: "'d decimal_lib \<Rightarrow> string \<Rightarrow> string \<Rightarrow> 'd res" where
  "read_decimal L v column = parse_numeric L v column"

definition row_to_order :: "'d decimal_lib \<Rightarrow> 'd postgres \<Rightarrow> orders_row \<Rightarrow> 'd Order res" where
  "row_to_order L P r =
     res_bind (read_optional_decimal L (map_option (pg_text P ''price'') (t_price r)) ''exact_price'') (\<lambda>price.
     res_bind (read_decimal L (pg_text P ''amount'' (t_amount r)) ''exact_amount'') (\<lambda>amount.
     res_bind (read_decimal L (pg_text P ''filled_amount'' (t_filled_amount r)) ''exact_filled_amount'') (\<lambda>filled.
     res_bind (read_decimal L (pg_text P ''filled_quote_amount'' (t_filled_quote_amount r)) ''exact_filled_quote_amount'')
       (\<lambda>filled_quote.
       Inr \<lparr>od_id = word_of_int (t_id r), od_user_id = word_of_int (t_user_id r), od_order_type = t_order_type r,
            od_order_side = t_order_side r, od_base_mint = t_base_mint r, od_quote_mint = t_quote_mint r, od_price = price,
            od_amount = amount, od_filled_amount = filled, od_filled_quote_amount = filled_quote, od_status = t_status r,
            od_created_at = t_created_at r, od_updated_at = t_updated_at r\<rparr>))))"

text \<open>
  In the JSON of an order an identifier is a text (\<open>models/order.rs\<close>). Reading it follows \<open>u64::from_str\<close>: digits with
  at most one plus sign before them, within the range of the type.
\<close>

definition serialize_u64_as_string :: "u64 \<Rightarrow> string" where
  "serialize_u64_as_string n = nat_str (uint n)"

definition deserialize_string_to_u64 :: "string \<Rightarrow> u64 option" where
  "deserialize_string_to_u64 s =
     (let digits = (case s of [] \<Rightarrow> [] | c # cs \<Rightarrow> if c = CHR ''+'' then cs else s) in
      if digits = [] \<or> \<not> list_all is_ascii_digit digits \<or> u64_max < digits_val digits then None
      else Some (word_of_int (digits_val digits)))"

definition query :: "'d postgres \<Rightarrow> string \<Rightarrow> 'a res \<Rightarrow> 'a res" where
  "query P what r = with_context what (ensure (\<not> pg_fails P what) ''statement failed'' r)"

section \<open>Writing\<close>

definition new_row :: "'d decimal_lib \<Rightarrow> 'd postgres \<Rightarrow> (nat \<Rightarrow> datetime) \<Rightarrow> 'd OrderCreate \<Rightarrow> orders_row list \<Rightarrow> orders_row res" where
  "new_row L P now oc table =
     (let overflow = ''numeric field overflow'' in
      res_bind (case oc_price oc of None \<Rightarrow> Inr None
                | Some d \<Rightarrow> res_bind (ok_or overflow (pg_numeric P ''price'' d)) (\<lambda>n. Inr (Some n))) (\<lambda>price.
      res_bind (ok_or overflow (pg_numeric P ''amount'' (oc_amount oc))) (\<lambda>amount.
      res_bind (ok_or overflow (pg_numeric P ''filled_amount'' (dec_zero L))) (\<lambda>filled.
      res_bind (ok_or overflow (pg_numeric P ''filled_quote_amount'' (dec_zero L))) (\<lambda>filled_quote.
        Inr \<lparr>t_id = pg_next_id P table, t_user_id = as_i64 (oc_user_id oc), t_order_type = oc_order_type oc,
             t_order_side = oc_order_side oc, t_base_mint = oc_base_mint oc, t_quote_mint = oc_quote_mint oc, t_price = price,
             t_amount = amount, t_filled_amount = filled, t_filled_quote_amount = filled_quote, t_status = ''pending'',
             t_created_at = now 0, t_updated_at = now 1\<rparr>)))))"

definition repo_create ::
    "'d decimal_lib \<Rightarrow> 'd postgres \<Rightarrow> (nat \<Rightarrow> datetime) \<Rightarrow> 'd OrderCreate \<Rightarrow> orders_row list \<Rightarrow> orders_row list \<times> 'd Order res" where
  "repo_create L P now oc table =
     (case query P ''Failed to create order''
             (res_bind (new_row L P now oc table) (\<lambda>r.
              ensure (\<not> pg_rejects P r \<and> t_id r \<notin> t_id ` set table) ''violates constraint'' (Inr r))) of
        Inl e \<Rightarrow> (table, Inl e)
      | Inr r \<Rightarrow> (table @ [r], row_to_order L P r))"

text \<open>\<open>UPDATE .. WHERE id = .. AND guard RETURNING ..\<close>: \<open>fetch_one\<close> is an error when no row is left.\<close>

definition update_row ::
    "'d decimal_lib \<Rightarrow> 'd postgres \<Rightarrow> string \<Rightarrow> u64 \<Rightarrow> (orders_row \<Rightarrow> bool) \<Rightarrow> (orders_row \<Rightarrow> orders_row res) \<Rightarrow>
     orders_row list \<Rightarrow> orders_row list \<times> 'd Order res" where
  "update_row L P what order_id guard change table =
     (case query P what
             (res_bind (ok_or ''no rows returned by a query that expected to return at least one row''
                (find (\<lambda>r. t_id r = as_i64 order_id \<and> guard r) table)) (\<lambda>old.
              res_bind (change old) (\<lambda>r. ensure (\<not> pg_rejects P r) ''violates constraint'' (Inr r)))) of
        Inl e \<Rightarrow> (table, Inl e)
      | Inr r \<Rightarrow> (map (\<lambda>x. if t_id x = t_id r then r else x) table, row_to_order L P r))"

definition update_status ::
    "'d decimal_lib \<Rightarrow> 'd postgres \<Rightarrow> datetime \<Rightarrow> u64 \<Rightarrow> string \<Rightarrow> orders_row list \<Rightarrow> orders_row list \<times> 'd Order res" where
  "update_status L P now order_id status =
     update_row L P ''Failed to update order status'' order_id (\<lambda>_. True)
       (\<lambda>r. Inr (r\<lparr>t_status := status, t_updated_at := now\<rparr>))"

text \<open>The comparisons of the statement are on the bound value, before it is rounded to the column.\<close>

definition filled_status :: "'d decimal_lib \<Rightarrow> 'd \<Rightarrow> orders_row \<Rightarrow> string" where
  "filled_status L filled r =
     (if of_int (t_amount r) \<le> dec_val L filled * of_int FACTOR then ''filled''
      else if 0 < dec_val L filled then ''partial'' else t_status r)"

definition update_filled_amount ::
    "'d decimal_lib \<Rightarrow> 'd postgres \<Rightarrow> datetime \<Rightarrow> u64 \<Rightarrow> 'd \<Rightarrow> orders_row list \<Rightarrow> orders_row list \<times> 'd Order res" where
  "update_filled_amount L P now order_id filled =
     update_row L P ''Failed to update order filled amount'' order_id (\<lambda>_. True)
       (\<lambda>r. res_bind (ok_or ''numeric field overflow'' (pg_numeric P ''filled_amount'' filled)) (\<lambda>n.
          Inr (r\<lparr>t_filled_amount := n, t_status := filled_status L filled r, t_updated_at := now\<rparr>)))"

definition is_active :: "orders_row \<Rightarrow> bool" where
  "is_active r \<longleftrightarrow> t_status r \<in> {''pending'', ''partial''}"

definition repo_cancel_order ::
    "'d decimal_lib \<Rightarrow> 'd postgres \<Rightarrow> datetime \<Rightarrow> u64 \<Rightarrow> orders_row list \<Rightarrow> orders_row list \<times> 'd Order res" where
  "repo_cancel_order L P now order_id =
     update_row L P ''Failed to cancel order. Order may not exist or already be filled/cancelled'' order_id is_active
       (\<lambda>r. Inr (r\<lparr>t_status := ''cancelled'', t_updated_at := now\<rparr>))"

section \<open>Reading\<close>

text \<open>\<open>ORDER BY\<close>: a list of sort keys, each a total preorder on rows; later keys break the ties of earlier ones.\<close>

type_synonym 'a sort_key = "'a \<Rightarrow> 'a \<Rightarrow> bool"

fun before :: "'a sort_key list \<Rightarrow> 'a sort_key" where
  "before [] x y \<longleftrightarrow> True"
| "before (k # ks) x y \<longleftrightarrow> k x y \<and> (k y x \<longrightarrow> before ks x y)"

fun insert_by :: "'a sort_key \<Rightarrow> 'a \<Rightarrow> 'a list \<Rightarrow> 'a list" where
  "insert_by le x [] = [x]"
| "insert_by le x (y # ys) = (if le x y then x # y # ys else y # insert_by le x ys)"

definition order_by :: "'a sort_key list \<Rightarrow> 'a list \<Rightarrow> 'a list" where
  "order_by ks rows = foldr (insert_by (before ks)) rows []"

fun null_le :: "bool \<Rightarrow> bool \<Rightarrow> int option \<Rightarrow> int option \<Rightarrow> bool" where
  "null_le nulls_first desc None None = True"
| "null_le nulls_first desc None (Some _) = nulls_first"
| "null_le nulls_first desc (Some _) None = (\<not> nulls_first)"
| "null_le nulls_first desc (Some a) (Some b) = (if desc then b \<le> a else a \<le> b)"

definition asc :: "(orders_row \<Rightarrow> int option) \<Rightarrow> orders_row sort_key" where
  "asc f x y = null_le False False (f x) (f y)"

definition desc :: "(orders_row \<Rightarrow> int option) \<Rightarrow> orders_row sort_key" where
  "desc f x y = null_le True True (f x) (f y)"

definition desc_nulls_last :: "(orders_row \<Rightarrow> int option) \<Rightarrow> orders_row sort_key" where
  "desc_nulls_last f x y = null_le False True (f x) (f y)"

definition by_text :: "'d postgres \<Rightarrow> (orders_row \<Rightarrow> string) \<Rightarrow> orders_row sort_key" where
  "by_text P f x y = pg_collate P (f x) (f y)"

definition price_if :: "string \<Rightarrow> orders_row \<Rightarrow> int option" where
  "price_if kind r = (if t_order_type r = kind then t_price r else None)"

definition created :: "orders_row \<Rightarrow> int option" where
  "created r = Some (t_created_at r)"

definition select_rows :: "'d postgres \<Rightarrow> (orders_row \<Rightarrow> bool) \<Rightarrow> orders_row sort_key list \<Rightarrow> orders_row list \<Rightarrow> orders_row list" where
  "select_rows P cond ks table = order_by ks (filter cond (pg_scan P table))"

definition limit_rows :: "int \<Rightarrow> int \<Rightarrow> 'a list \<Rightarrow> 'a list res" where
  "limit_rows limit skip rows =
     ensure (0 \<le> limit \<and> 0 \<le> skip) ''LIMIT and OFFSET must not be negative'' (Inr (take (nat limit) (drop (nat skip) rows)))"

definition get_by_id :: "'d decimal_lib \<Rightarrow> 'd postgres \<Rightarrow> u64 \<Rightarrow> orders_row list \<Rightarrow> 'd Order option res" where
  "get_by_id L P order_id table =
     res_bind (query P ''Failed to fetch order by id'' (Inr (find (\<lambda>r. t_id r = as_i64 order_id) table))) (\<lambda>found.
       case found of None \<Rightarrow> Inr None | Some r \<Rightarrow> res_bind (row_to_order L P r) (\<lambda>o'. Inr (Some o')))"

definition or_else :: "'a option \<Rightarrow> 'a \<Rightarrow> 'a" where
  "or_else v d = (case v of None \<Rightarrow> d | Some x \<Rightarrow> x)"

definition get_all_by_user ::
    "'d decimal_lib \<Rightarrow> 'd postgres \<Rightarrow> u64 \<Rightarrow> int option \<Rightarrow> int option \<Rightarrow> orders_row list \<Rightarrow> 'd Order list res" where
  "get_all_by_user L P user_id limit skip table =
     res_bind (query P ''Failed to fetch orders by user''
       (limit_rows (or_else limit 100) (or_else skip 0) (select_rows P (\<lambda>r. t_user_id r = as_i64 user_id) [desc created] table)))
       (res_map (row_to_order L P))"

definition get_by_user_and_status ::
    "'d decimal_lib \<Rightarrow> 'd postgres \<Rightarrow> u64 \<Rightarrow> string \<Rightarrow> int option \<Rightarrow> int option \<Rightarrow> orders_row list \<Rightarrow> 'd Order list res" where
  "get_by_user_and_status L P user_id status limit skip table =
     res_bind (query P ''Failed to fetch orders by user and status''
       (limit_rows (or_else limit 100) (or_else skip 0)
         (select_rows P (\<lambda>r. t_user_id r = as_i64 user_id \<and> t_status r = status) [desc created] table)))
       (res_map (row_to_order L P))"

definition in_book :: "string \<Rightarrow> string \<Rightarrow> string \<Rightarrow> orders_row \<Rightarrow> bool" where
  "in_book base q kind r \<longleftrightarrow>
     t_base_mint r = base \<and> t_quote_mint r = q \<and> t_order_type r = kind \<and> is_active r \<and> t_price r \<noteq> None"

definition repo_get_orderbook ::
    "'d decimal_lib \<Rightarrow> 'd postgres \<Rightarrow> string \<Rightarrow> string \<Rightarrow> int option \<Rightarrow> orders_row list \<Rightarrow> ('d Order list \<times> 'd Order list) res" where
  "repo_get_orderbook L P base q limit table =
     (let n = or_else limit 50 in
      res_bind (query P ''Failed to fetch buy orders for orderbook''
        (limit_rows n 0 (select_rows P (in_book base q ''buy'') [desc t_price, asc created] table))) (\<lambda>buys.
      res_bind (query P ''Failed to fetch sell orders for orderbook''
        (limit_rows n 0 (select_rows P (in_book base q ''sell'') [asc t_price, asc created] table))) (\<lambda>sells.
      res_bind (res_map (row_to_order L P) buys) (\<lambda>bs.
      res_bind (res_map (row_to_order L P) sells) (\<lambda>ss. Inr (bs, ss))))))"

definition get_active_orders ::
    "'d decimal_lib \<Rightarrow> 'd postgres \<Rightarrow> string \<Rightarrow> string \<Rightarrow> string option \<Rightarrow> orders_row list \<Rightarrow> 'd Order list res" where
  "get_active_orders L P base q kind table =
     res_bind (query P ''Failed to fetch active orders''
       (Inr (select_rows P
          (\<lambda>r. t_base_mint r = base \<and> t_quote_mint r = q \<and> (case kind of None \<Rightarrow> True | Some k \<Rightarrow> t_order_type r = k) \<and> is_active r)
          [desc (price_if ''buy''), asc (price_if ''sell''), asc created] table)))
       (res_map (row_to_order L P))"

definition get_all_active_orders :: "'d decimal_lib \<Rightarrow> 'd postgres \<Rightarrow> orders_row list \<Rightarrow> 'd Order list res" where
  "get_all_active_orders L P table =
     res_bind (query P ''Failed to fetch all active orders''
       (Inr (select_rows P is_active
          [by_text P t_base_mint, by_text P t_quote_mint, desc_nulls_last (price_if ''buy''), asc (price_if ''sell''), asc created] table)))
       (res_map (row_to_order L P))"

section \<open>Identifiers as texts\<close>

lemma identifier_text_roundtrip: "deserialize_string_to_u64 (serialize_u64_as_string n) = Some n"
proof -
  obtain c cs where t: "nat_str (uint n) = c # cs" by (cases "nat_str (uint n)") auto
  have d: "list_all is_ascii_digit (nat_str (uint n))" by (rule nat_str_digits) simp
  have "c \<noteq> CHR ''+''" using d by (auto simp: t is_ascii_digit_def)
  then have digits: "(case nat_str (uint n) of [] \<Rightarrow> [] | c # cs \<Rightarrow> if c = CHR ''+'' then cs else nat_str (uint n)) = nat_str (uint n)"
    by (simp add: t)
  have "uint n \<le> u64_max" using uint_bounded [of n] by (simp add: u64_max_def)
  then show ?thesis
    using d by (simp add: deserialize_string_to_u64_def serialize_u64_as_string_def digits)
qed

section \<open>Sorting\<close>

text \<open>What a sort key promises; sorting by it then works.\<close>

locale total_preorder =
  fixes le :: "'a \<Rightarrow> 'a \<Rightarrow> bool"
  assumes total: "le x y \<or> le y x"
    and transitive: "le x y \<Longrightarrow> le y z \<Longrightarrow> le x z"
begin

lemma mset_insert_by: "mset (insert_by le x ys) = add_mset x (mset ys)"
  by (induction ys) auto

lemma sorted_insert_by: "sorted_wrt le ys \<Longrightarrow> sorted_wrt le (insert_by le x ys)"
proof (induction ys)
  case (Cons y ys)
  have "set (insert_by le x ys) = insert x (set ys)"
    using arg_cong [OF mset_insert_by, of set_mset] by simp
  with Cons total [of x y] show ?case by (auto intro: transitive)
qed simp

lemma sorting: "mset (foldr (insert_by le) ys []) = mset ys \<and> sorted_wrt le (foldr (insert_by le) ys [])"
  by (induction ys) (simp_all add: mset_insert_by sorted_insert_by)

end

lemma before_total_preorder: "(\<And>k. k \<in> set ks \<Longrightarrow> total_preorder k) \<Longrightarrow> total_preorder (before ks)"
proof (induction ks)
  case Nil
  show ?case by unfold_locales simp_all
next
  case (Cons k ks)
  then have k: "total_preorder k" and ks: "total_preorder (before ks)" by simp_all
  show ?case
  proof
    show "before (k # ks) x y \<or> before (k # ks) y x" for x y
      using total_preorder.total [OF k, of x y] total_preorder.total [OF ks, of x y] by auto
    show "before (k # ks) x z" if "before (k # ks) x y" "before (k # ks) y z" for x y z
      using that total_preorder.transitive [OF k] total_preorder.transitive [OF ks] by (auto; blast)
  qed
qed

lemma null_le_total: "null_le nulls_first down a b \<or> null_le nulls_first down b a"
  by (cases a; cases b) auto

lemma null_le_trans: "null_le nulls_first down a b \<Longrightarrow> null_le nulls_first down b c \<Longrightarrow> null_le nulls_first down a c"
  by (cases a; cases b; cases c) (auto split: if_splits)

lemma null_le_preorder: "total_preorder (\<lambda>x y. null_le nulls_first down (f x) (f y))"
  by unfold_locales (rule null_le_total, rule null_le_trans)

lemma sort_key_preorder: "total_preorder (asc f)" "total_preorder (desc f)" "total_preorder (desc_nulls_last f)"
  unfolding asc_def [abs_def] desc_def [abs_def] desc_nulls_last_def [abs_def] by (rule null_le_preorder)+

interpretation bids: total_preorder "before [desc t_price, asc created]"
  by (rule before_total_preorder) (auto simp: sort_key_preorder)

interpretation asks: total_preorder "before [asc t_price, asc created]"
  by (rule before_total_preorder) (auto simp: sort_key_preorder)

text \<open>Price-time priority of two rows of one side that have a price.\<close>

definition row_priority :: "bool \<Rightarrow> orders_row \<Rightarrow> orders_row \<Rightarrow> bool" where
  "row_priority buy x y \<longleftrightarrow>
     (case (t_price x, t_price y) of
        (Some p, Some q) \<Rightarrow> (if buy then q < p else p < q) \<or> p = q \<and> t_created_at x \<le> t_created_at y
      | _ \<Rightarrow> False)"

lemma select_sorted:
  assumes "total_preorder (before ks)" "mset (pg_scan P table) = mset table"
  shows "mset (select_rows P cond ks table) = mset (filter cond table)" "sorted_wrt (before ks) (select_rows P cond ks table)"
  using total_preorder.sorting [OF assms(1), of "filter cond (pg_scan P table)"] assms(2)
  by (simp_all add: select_rows_def order_by_def)

lemma select_side:
  assumes "total_preorder (before [k, asc created])" "mset (pg_scan P table) = mset table"
    and "\<And>x y. t_price x \<noteq> None \<Longrightarrow> t_price y \<noteq> None \<Longrightarrow> before [k, asc created] x y \<Longrightarrow> row_priority buy x y"
  shows "mset (select_rows P (in_book base q kind) [k, asc created] table) = mset (filter (in_book base q kind) table) \<and>
    sorted_wrt (row_priority buy) (select_rows P (in_book base q kind) [k, asc created] table)"
proof -
  let ?rows = "select_rows P (in_book base q kind) [k, asc created] table"
  note s = select_sorted [OF assms(1,2), of "in_book base q kind"]
  have "t_price x \<noteq> None" if "x \<in> set ?rows" for x
    using that mset_eq_setD [OF s(1)] by (simp add: in_book_def)
  then have "sorted_wrt (row_priority buy) ?rows"
    by (intro sorted_wrt_mono_rel [OF _ s(2)] assms(3))
  with s(1) show ?thesis by simp
qed

lemma select_bids:
  assumes "mset (pg_scan P table) = mset table"
  shows "mset (select_rows P (in_book base q ''buy'') [desc t_price, asc created] table) = mset (filter (in_book base q ''buy'') table) \<and>
    sorted_wrt (row_priority True) (select_rows P (in_book base q ''buy'') [desc t_price, asc created] table)"
  by (rule select_side [OF bids.total_preorder_axioms assms]) (auto simp: row_priority_def desc_def asc_def created_def)

lemma select_asks:
  assumes "mset (pg_scan P table) = mset table"
  shows "mset (select_rows P (in_book base q ''sell'') [asc t_price, asc created] table) = mset (filter (in_book base q ''sell'') table) \<and>
    sorted_wrt (row_priority False) (select_rows P (in_book base q ''sell'') [asc t_price, asc created] table)"
  by (rule select_side [OF asks.total_preorder_axioms assms]) (auto simp: row_priority_def asc_def created_def)

section \<open>What the statements do\<close>

lemma query_Inr_iff [res_elims]: "query P what r = Inr x \<longleftrightarrow> \<not> pg_fails P what \<and> r = Inr x"
  by (simp add: query_def with_context_Inr_iff ensure_Inr_iff)

lemma as_i64_word: "- (2 ^ 63) \<le> n \<Longrightarrow> n < 2 ^ 63 \<Longrightarrow> as_i64 (word_of_int n) = n"
  by (simp add: as_i64_def sint_sbintrunc' signed_take_bit_int_eq_self)

lemma find_snoc: "(\<And>x. x \<in> set xs \<Longrightarrow> \<not> Q x) \<Longrightarrow> find Q (xs @ [y]) = (if Q y then Some y else None)"
  by (induction xs) auto

lemma word_as_i64: "word_of_int (as_i64 w) = w"
  by (simp add: as_i64_def)

text \<open>
  The book query answers with the best orders of each side: the rows it reads are the first ones of all matching
  rows in price-time priority, as many as the limit allows.
\<close>

lemma orderbook_priority:
  assumes "mset (pg_scan P table) = mset table" "repo_get_orderbook L P base q limit table = Inr (bs, ss)"
  shows "\<exists>buys sells more_buys more_sells.
    res_map (row_to_order L P) buys = Inr bs \<and> res_map (row_to_order L P) sells = Inr ss \<and>
    mset (buys @ more_buys) = mset (filter (in_book base q ''buy'') table) \<and>
    mset (sells @ more_sells) = mset (filter (in_book base q ''sell'') table) \<and>
    sorted_wrt (row_priority True) (buys @ more_buys) \<and> sorted_wrt (row_priority False) (sells @ more_sells) \<and>
    int (length bs) = min (or_else limit 50) (int (length (buys @ more_buys))) \<and>
    int (length ss) = min (or_else limit 50) (int (length (sells @ more_sells)))"
proof -
  let ?n = "or_else limit 50"
  let ?B = "select_rows P (in_book base q ''buy'') [desc t_price, asc created] table"
  let ?S = "select_rows P (in_book base q ''sell'') [asc t_price, asc created] table"
  from assms(2) have n: "0 \<le> ?n" and b: "res_map (row_to_order L P) (take (nat ?n) ?B) = Inr bs"
    and s: "res_map (row_to_order L P) (take (nat ?n) ?S) = Inr ss"
    by (auto simp: repo_get_orderbook_def limit_rows_def Let_def res_bind_Inr_iff query_Inr_iff ensure_Inr_iff)
  have "int (length bs) = min ?n (int (length ?B))" "int (length ss) = min ?n (int (length ?S))"
    using b s n by (auto simp: res_map_Inr_iff dest!: list_all2_lengthD)
  with b s select_bids [OF assms(1), of base q] select_asks [OF assms(1), of base q] show ?thesis
    by (intro exI [of _ "take (nat ?n) ?B"] exI [of _ "take (nat ?n) ?S"] exI [of _ "drop (nat ?n) ?B"] exI [of _ "drop (nat ?n) ?S"])
      simp
qed

text \<open>Reading back what was created gives the same order.\<close>

lemma created_order_is_found:
  assumes "repo_create L P now oc table = (table', Inr o')" "- (2 ^ 63) \<le> pg_next_id P table" "pg_next_id P table < 2 ^ 63"
    and "\<not> pg_fails P ''Failed to fetch order by id''"
  shows "get_by_id L P (od_id o') table' = Inr (Some o') \<and> od_status o' = ''pending'' \<and> od_user_id o' = oc_user_id oc"
proof -
  from assms(1) obtain r where r: "new_row L P now oc table = Inr r" "t_id r \<notin> t_id ` set table" "table' = table @ [r]"
    "row_to_order L P r = Inr o'"
    by (auto simp: repo_create_def res_bind_Inr_iff query_Inr_iff ensure_Inr_iff split: sum.splits)
  have row: "t_id r = pg_next_id P table" "t_status r = ''pending''" "t_user_id r = as_i64 (oc_user_id oc)"
    using r(1) by (auto simp: new_row_def Let_def res_bind_Inr_iff)
  have o': "od_id o' = word_of_int (t_id r)" "od_status o' = t_status r" "od_user_id o' = word_of_int (t_user_id r)"
    using r(4) by (auto simp: row_to_order_def res_bind_Inr_iff)
  have "as_i64 (od_id o') = t_id r" using as_i64_word assms(2,3) by (simp add: o' row)
  moreover have "find (\<lambda>x. t_id x = t_id r) table' = Some r"
    unfolding r(3) using r(2) by (subst find_snoc) (auto simp: image_iff)
  ultimately show ?thesis
    using assms(4) r(4) o' row word_as_i64 by (simp add: get_by_id_def query_def)
qed

text \<open>A cancellation takes an active order, once: repeating it is refused and changes nothing.\<close>

lemma repo_cancel_once:
  assumes "repo_cancel_order L P now order_id table = (table', Inr o')" "distinct (map t_id table)"
  shows "(\<exists>r \<in> set table. t_id r = as_i64 order_id \<and> is_active r) \<and> od_status o' = ''cancelled'' \<and>
    repo_cancel_order L P now' order_id table' =
      (table', Inl (Error ''Failed to cancel order. Order may not exist or already be filled/cancelled''))"
proof -
  from assms(1) obtain old where old: "find (\<lambda>r. t_id r = as_i64 order_id \<and> is_active r) table = Some old"
    and table': "table' = map (\<lambda>x. if t_id x = t_id old then old\<lparr>t_status := ''cancelled'', t_updated_at := now\<rparr> else x) table"
    and o': "row_to_order L P (old\<lparr>t_status := ''cancelled'', t_updated_at := now\<rparr>) = Inr o'"
    by (auto simp: repo_cancel_order_def update_row_def res_bind_Inr_iff query_Inr_iff ensure_Inr_iff ok_or_Inr_iff split: sum.splits)
  from old have f: "old \<in> set table" "t_id old = as_i64 order_id" "is_active old"
    by (auto simp: find_Some_iff)
  have "find (\<lambda>r. t_id r = as_i64 order_id \<and> is_active r) table' = None"
    using f(2) by (auto simp: table' find_None_iff is_active_def)
  moreover have "od_status o' = ''cancelled''" using o' by (auto simp: row_to_order_def res_bind_Inr_iff)
  ultimately show ?thesis
    using f by (auto simp: repo_cancel_order_def update_row_def query_def ensure_def with_context_def ok_or_def)
qed

section \<open>Exact amounts\<close>

text \<open>
  What the columns of the schema promise (\<open>DECIMAL(30, 9)\<close>): an amount with at most nine decimals is stored as it is,
  and its text has all nine of them.
\<close>

locale numeric_columns = decimal_library L for L :: "'d decimal_lib" +
  fixes P :: "'d postgres"
  assumes stores: "column \<in> {''price'', ''amount'', ''filled_amount''} \<Longrightarrow> units L d = Inr n \<Longrightarrow> pg_numeric P column d = Some n"
    and shows_text: "column \<in> {''price'', ''amount'', ''filled_amount''} \<Longrightarrow> 0 \<le> n \<Longrightarrow>
      pg_text P column n = nat_str (n div FACTOR) @ ''.'' @ zero_padded 9 (n mod FACTOR)"
begin

lemma read_exact:
  assumes "column \<in> {''price'', ''amount'', ''filled_amount''}" "units L d = Inr n"
  shows "\<exists>d'. read_decimal L (pg_text P column n) name = Inr d' \<and> dec_val L d' = dec_val L d"
proof -
  have n: "0 \<le> n" using assms(2) by (simp add: units_Inr_iff)
  then have "normalized_numeric (pg_text P column n) = decimal_text n"
    by (simp add: shows_text [OF assms(1)] normalized_numeric_def decimal_text_def int_str_def pos_imp_zdiv_neg_iff)
  moreover obtain d' where "decimal L n = Inr d'" "dec_val L d' = dec_val L d"
    using decimal_of_units [OF assms(2)] by blast
  ultimately show ?thesis
    by (auto simp: read_decimal_def parse_numeric_def decimal_def ok_or_Inr_iff)
qed

lemma created_order_is_exact:
  assumes "is_ok (units L (oc_amount oc))" "case oc_price oc of None \<Rightarrow> True | Some p \<Rightarrow> is_ok (units L p)"
    and "repo_create L P now oc table = (table', Inr o')"
  shows "dec_eq L (od_amount o') (oc_amount oc) \<and> dec_eq_opt L (od_price o') (oc_price oc)"
proof -
  from assms(3) obtain r where r: "new_row L P now oc table = Inr r" "row_to_order L P r = Inr o'"
    by (auto simp: repo_create_def res_bind_Inr_iff query_Inr_iff ensure_Inr_iff split: sum.splits)
  from r(1) have row: "pg_numeric P ''amount'' (oc_amount oc) = Some (t_amount r)"
    "case oc_price oc of None \<Rightarrow> t_price r = None | Some p \<Rightarrow> \<exists>n. pg_numeric P ''price'' p = Some n \<and> t_price r = Some n"
    by (auto simp: new_row_def Let_def res_bind_Inr_iff ok_or_Inr_iff split: option.splits)
  obtain n where n: "units L (oc_amount oc) = Inr n" using assms(1) by (auto simp: is_ok_iff)
  with row(1) have "t_amount r = n" using stores [of "''amount''"] by simp
  moreover obtain a where a: "read_decimal L (pg_text P ''amount'' n) ''exact_amount'' = Inr a" "dec_val L a = dec_val L (oc_amount oc)"
    using read_exact [OF _ n, of "''amount''"] by blast
  ultimately have "dec_val L (od_amount o') = dec_val L (oc_amount oc)"
    using r(2) by (auto simp: row_to_order_def res_bind_Inr_iff)
  moreover have "map_option (dec_val L) (od_price o') = map_option (dec_val L) (oc_price oc)"
  proof (cases "oc_price oc")
    case None
    with row(2) r(2) show ?thesis by (auto simp: row_to_order_def read_optional_decimal_def res_bind_Inr_iff)
  next
    case (Some p)
    then obtain m where m: "units L p = Inr m" using assms(2) by (auto simp: is_ok_iff)
    with row(2) Some have "t_price r = Some m" using stores [of "''price''"] by auto
    moreover obtain d where "read_decimal L (pg_text P ''price'' m) ''exact_price'' = Inr d" "dec_val L d = dec_val L p"
      using read_exact [OF _ m, of "''price''"] by blast
    ultimately show ?thesis
      using r(2) Some by (auto simp: row_to_order_def read_optional_decimal_def read_decimal_def res_bind_Inr_iff)
  qed
  ultimately show ?thesis by (simp add: eq_val eq_opt_val)
qed

end

definition reference_pg :: "refdec postgres" where
  "reference_pg =
     \<lparr>pg_fails = (\<lambda>_. False), pg_numeric = (\<lambda>_ d. case units ref_decimal d of Inr n \<Rightarrow> Some n | Inl _ \<Rightarrow> None),
      pg_text = (\<lambda>_ n. nat_str (n div FACTOR) @ ''.'' @ zero_padded 9 (n mod FACTOR)), pg_rejects = (\<lambda>_. False),
      pg_next_id = (\<lambda>table. int (length table) + 1), pg_collate = (\<lambda>_ _. True), pg_scan = (\<lambda>table. table)\<rparr>"

interpretation reference_columns: numeric_columns ref_decimal reference_pg
  by unfold_locales (simp_all add: reference_pg_def)

end
