(* ===== verification/Bench_Engine.thy ===== *)
theory Bench_Engine
  imports Lifecycle
begin

text \<open>
  The parts of the engine that no request reaches: the benchmark engine (\<open>runtime/bench_engine.rs\<close>), the
  benchmark functions of \<open>runtime/engine.rs\<close>, and the operations of \<open>engine/balance_cache.rs\<close> and
  \<open>engine/orderbook.rs\<close> that only benchmarks and tests use. The benchmark engine applies orders with
  the same function as the core; the lemmas show that it measures what the core does.

  The operators \<open>+\<close>, \<open>-\<close> and \<open>/\<close> of \<open>rust_decimal\<close> are parameters; they panic when the result overflows.
\<close>

section \<open>Operators\<close>

record 'd decimal_ops =
  op_add :: "'d \<Rightarrow> 'd \<Rightarrow> 'd option"
  op_subtract :: "'d \<Rightarrow> 'd \<Rightarrow> 'd option"
  op_divide :: "'d \<Rightarrow> 'd \<Rightarrow> 'd option"
  op_two :: 'd

definition operator :: "string \<Rightarrow> 'd option \<Rightarrow> 'd res" where
  "operator name v = (case v of Some d \<Rightarrow> Inr d | None \<Rightarrow> Inl (Panic (name @ '' overflowed'')))"

section \<open>Balances\<close>

definition with_available :: "'d decimal_lib \<Rightarrow> 'd \<Rightarrow> 'd Balance" where
  "with_available L amount = \<lparr>available = amount, locked = dec_zero L\<rparr>"

definition balance_total :: "'d decimal_ops \<Rightarrow> 'd Balance \<Rightarrow> 'd res" where
  "balance_total A b = operator ''Addition'' (op_add A (available b) (locked b))"

definition add_available ::
    "'d decimal_lib \<Rightarrow> 'd decimal_ops \<Rightarrow> u64 \<Rightarrow> string \<Rightarrow> 'd \<Rightarrow> 'd BalanceCache \<Rightarrow> 'd BalanceCache res" where
  "add_available L A user_id mint delta c =
     (let b = (case get_balance user_id mint c of None \<Rightarrow> Balance_new L | Some b \<Rightarrow> b) in
      res_bind (operator ''Addition'' (op_add A (available b) delta)) (\<lambda>v.
        Inr (get_balance_mut L user_id mint (\<lambda>b. b\<lparr>available := (if dec_lt L v (dec_zero L) then dec_zero L else v)\<rparr>) c)))"

section \<open>Queries of a book\<close>

definition get_spread :: "'d decimal_ops \<Rightarrow> 'd OrderBook \<Rightarrow> 'd option res" where
  "get_spread A book =
     (case (get_best_ask book, get_best_bid book) of
        (Some best_ask, Some bid) \<Rightarrow> res_bind (operator ''Subtraction'' (op_subtract A best_ask bid)) (\<lambda>v. Inr (Some v))
      | _ \<Rightarrow> Inr None)"

definition get_mid_price :: "'d decimal_ops \<Rightarrow> 'd OrderBook \<Rightarrow> 'd option res" where
  "get_mid_price A book =
     (case (get_best_ask book, get_best_bid book) of
        (Some best_ask, Some bid) \<Rightarrow>
          res_bind (operator ''Addition'' (op_add A best_ask bid)) (\<lambda>s.
          res_bind (operator ''Division'' (op_divide A s (op_two A))) (\<lambda>v. Inr (Some v)))
      | _ \<Rightarrow> Inr None)"

definition level_total :: "'d decimal_lib \<Rightarrow> 'd decimal_ops \<Rightarrow> 'd \<times> 'd OrderEntry list \<Rightarrow> ('d \<times> 'd) res" where
  "level_total L A level =
     (case level of (price, queue) \<Rightarrow>
        res_bind (res_fold (\<lambda>e total. operator ''Addition'' (op_add A total (o_remaining_amount e))) queue (dec_zero L))
          (\<lambda>total. Inr (price, total)))"

definition get_buy_orders :: "'d decimal_lib \<Rightarrow> 'd decimal_ops \<Rightarrow> nat \<Rightarrow> 'd OrderBook \<Rightarrow> ('d \<times> 'd) list res" where
  "get_buy_orders L A depth book = res_map (level_total L A) (take depth (rev (orders (buy_orders book))))"

definition get_sell_orders :: "'d decimal_lib \<Rightarrow> 'd decimal_ops \<Rightarrow> nat \<Rightarrow> 'd OrderBook \<Rightarrow> ('d \<times> 'd) list res" where
  "get_sell_orders L A depth book = res_map (level_total L A) (take depth (orders (sell_orders book)))"

section \<open>The benchmark engine\<close>

record 'd BenchEngine =
  be_orderbooks :: "'d books"
  be_executor :: "'d Executor"

definition BenchEngine_new :: "'d BenchEngine" where
  "BenchEngine_new = \<lparr>be_orderbooks = [], be_executor = Executor_new\<rparr>"

definition process_submit_order_bench ::
    "'d decimal_lib \<Rightarrow> 'd OrderEntry \<Rightarrow> 'd books \<Rightarrow> 'd Executor \<Rightarrow> 'd books \<times> 'd Executor \<times> 'd MatchResult list res" where
  "process_submit_order_bench L order books ex =
     (case submission_apply L order books ex of
        Inr (applied, books', ex') \<Rightarrow> (books', ex', Inr (as_matches applied))
      | Inl e \<Rightarrow> (books, ex, Inl e))"

definition submit_direct :: "'d decimal_lib \<Rightarrow> 'd OrderEntry \<Rightarrow> 'd BenchEngine \<Rightarrow> 'd BenchEngine \<times> 'd MatchResult list res" where
  "submit_direct L order b =
     (case process_submit_order_bench L order (be_orderbooks b) (be_executor b) of
        (books, ex, r) \<Rightarrow> (b\<lparr>be_orderbooks := books, be_executor := ex\<rparr>, r))"

definition bench_change_cache :: "('d BalanceCache \<Rightarrow> 'd BalanceCache) \<Rightarrow> 'd BenchEngine \<Rightarrow> 'd BenchEngine" where
  "bench_change_cache f b = b\<lparr>be_executor := (be_executor b)\<lparr>balance_cache := f (balance_cache (be_executor b))\<rparr>\<rparr>"

definition direct_set_balance :: "u64 \<Rightarrow> string \<Rightarrow> 'd \<Rightarrow> 'd \<Rightarrow> 'd BenchEngine \<Rightarrow> 'd BenchEngine" where
  "direct_set_balance user_id mint free held = bench_change_cache (set_balance user_id mint free held)"

definition direct_clear_balances :: "'d BenchEngine \<Rightarrow> 'd BenchEngine" where
  "direct_clear_balances = bench_change_cache cache_clear"

definition direct_clear_orderbooks :: "'d BenchEngine \<Rightarrow> 'd BenchEngine" where
  "direct_clear_orderbooks b = b\<lparr>be_orderbooks := []\<rparr>"

section \<open>The benchmark functions of the engine\<close>

definition bench_state :: "('d, 'k) HighPerformanceEngine \<Rightarrow> 'd EngineState res" where
  "bench_state en =
     (if hp_mode en \<noteq> Bench then Inl (Panic ''bench state requires Bench mode'')
      else if hp_running en then Inl (Panic ''running worker exclusively owns state'')
      else expect ''running worker exclusively owns state'' (hp_state en))"

definition bench_clear_balances :: "('d, 'k) HighPerformanceEngine \<Rightarrow> ('d, 'k) HighPerformanceEngine res" where
  "bench_clear_balances en =
     res_bind (bench_state en) (\<lambda>st. Inr (en\<lparr>hp_state := Some (with_cache (cache_clear (cache_of st)) st)\<rparr>))"

definition bench_clear_orderbooks :: "('d, 'k) HighPerformanceEngine \<Rightarrow> ('d, 'k) HighPerformanceEngine res" where
  "bench_clear_orderbooks en =
     res_bind (bench_state en) (\<lambda>st. Inr (en\<lparr>hp_state := Some (st\<lparr>orderbooks := []\<rparr>)\<rparr>))"

definition bench_set_balance ::
    "u64 \<Rightarrow> string \<Rightarrow> 'd \<Rightarrow> 'd \<Rightarrow> ('d, 'k) HighPerformanceEngine \<Rightarrow> ('d, 'k) HighPerformanceEngine res" where
  "bench_set_balance user asset free held en =
     res_bind (bench_state en) (\<lambda>st. Inr (en\<lparr>hp_state := Some (with_cache (set_balance user asset free held (cache_of st)) st)\<rparr>))"

definition bench_submit_direct ::
    "'d decimal_lib \<Rightarrow> 'd OrderEntry \<Rightarrow> ('d, 'k) HighPerformanceEngine \<Rightarrow>
     ('d, 'k) HighPerformanceEngine \<times> 'd MatchResult list res" where
  "bench_submit_direct L order en =
     (if hp_mode en \<noteq> Bench then (en, Inl (Error ''bench_submit_direct is only available in bench mode''))
      else case bench_state en of
        Inl e \<Rightarrow> (en, Inl e)
      | Inr st \<Rightarrow>
          (case process_submit_order_bench L order (orderbooks st) (executor st) of
             (books, ex, r) \<Rightarrow> (en\<lparr>hp_state := Some (st\<lparr>orderbooks := books, executor := ex\<rparr>)\<rparr>, r)))"

section \<open>What they show\<close>

text \<open>
  The benchmark engine and the core agree: for an order whose identifier is new, the books and balances after
  the direct submission are those after the core's command, and the matches are those of its outcome.
\<close>

lemma bench_agrees_with_core:
  assumes "hm_get (submissions st) (o_id order) = None"
    and "process_submit_order_bench L order (orderbooks st) (executor st) = (books, ex, r)"
    and "execute_submit L st order = (st', out)"
  shows "orderbooks st' = books \<and> executor st' = ex \<and>
    (\<forall>ms. r = Inr ms \<longrightarrow> (\<exists>applied. as_matches applied = ms \<and> out = res_bind (submitted L applied) (\<lambda>b. Inr (Some b)))) \<and>
    (\<forall>reason. r = Inl (Error reason) \<longrightarrow> out = Inr (Some (BatchRejected order reason)))"
  using assms
  by (auto simp: process_submit_order_bench_def execute_submit_def Let_def split: sum.splits prod.splits failure.splits)

lemma submit_direct_agrees:
  assumes "hp_mode en = Bench" "\<not> hp_running en" "hp_state en = Some st"
    and "be_orderbooks b = orderbooks st" "be_executor b = executor st"
    and "bench_submit_direct L order en = (en', r)" "submit_direct L order b = (b', r')"
  shows "r = r' \<and> (\<exists>st'. hp_state en' = Some st' \<and> be_orderbooks b' = orderbooks st' \<and> be_executor b' = executor st')"
  using assms by (auto simp: bench_submit_direct_def submit_direct_def bench_state_def split: prod.splits)

text \<open>A change of the free balance never leaves it negative, whatever the crate's addition returns.\<close>

lemma add_available_nonnegative:
  assumes "decimal_library L" "add_available L A user_id mint delta c = Inr c'"
  shows "\<exists>b. get_balance user_id mint c' = Some b \<and> dec_le L (dec_zero L) (available b)"
  using assms(2)
  by (auto simp: add_available_def get_balance_mut_def get_balance_def Let_def res_bind_Inr_iff
      decimal_library.lt_val [OF assms(1)] decimal_library.le_val [OF assms(1)])

text \<open>
  The depth of a side: the best price comes first, the prices are strictly ordered, and every level is listed up
  to the depth that was asked for.
\<close>

lemma level_total_price: "level_total L A level = Inr row \<Longrightarrow> fst row = fst level"
  by (auto simp: level_total_def res_bind_Inr_iff split: prod.splits)

lemma depth_prices: "res_map (level_total L A) levels = Inr rows \<Longrightarrow> map fst rows = map fst levels"
  by (induction levels arbitrary: rows) (auto simp: res_bind_Inr_iff dest!: level_total_price)

lemma get_buy_orders_descending:
  assumes "bt_ok L (orders (buy_orders book))" "get_buy_orders L A depth book = Inr rows"
  shows "sorted_wrt (\<lambda>p q. dec_lt L q p) (map fst rows) \<and> length rows = min depth (price_levels (buy_orders book)) \<and>
    (rows \<noteq> [] \<longrightarrow> get_best_bid book = Some (fst (hd rows)))"
proof -
  let ?levels = "orders (buy_orders book)"
  have prices: "map fst rows = take depth (rev (map fst ?levels))"
    using depth_prices assms(2) by (fastforce simp: get_buy_orders_def take_map rev_map)
  have "sorted_wrt (\<lambda>p q. dec_lt L q p) (map fst rows)"
    unfolding prices using assms(1) by (intro sorted_wrt_take) (simp add: bt_ok_def sorted_wrt_rev)
  moreover have "length rows = min depth (price_levels (buy_orders book))"
    using arg_cong [OF prices, of length] by (simp add: price_levels_def)
  moreover have "get_best_bid book = Some (fst (hd rows))" if "rows \<noteq> []"
  proof -
    have "take depth (rev (map fst ?levels)) \<noteq> []" using that prices by (metis map_is_Nil_conv)
    then have "fst (hd rows) = hd (rev (map fst ?levels))" "?levels \<noteq> []"
      using that prices hd_map [of rows fst] by (auto simp: hd_take)
    then show ?thesis
      by (auto simp: get_best_bid_def get_best_price_def hd_rev last_map split: list.splits)
  qed
  ultimately show ?thesis by blast
qed

lemma get_sell_orders_ascending:
  assumes "bt_ok L (orders (sell_orders book))" "get_sell_orders L A depth book = Inr rows"
  shows "sorted_wrt (dec_lt L) (map fst rows) \<and> length rows = min depth (price_levels (sell_orders book)) \<and>
    (rows \<noteq> [] \<longrightarrow> get_best_ask book = Some (fst (hd rows)))"
proof -
  let ?levels = "orders (sell_orders book)"
  have prices: "map fst rows = take depth (map fst ?levels)"
    using depth_prices assms(2) by (fastforce simp: get_sell_orders_def take_map)
  have "sorted_wrt (dec_lt L) (map fst rows)"
    unfolding prices using assms(1) by (intro sorted_wrt_take) (simp add: bt_ok_def)
  moreover have "length rows = min depth (price_levels (sell_orders book))"
    using arg_cong [OF prices, of length] by (simp add: price_levels_def)
  moreover have "get_best_ask book = Some (fst (hd rows))" if "rows \<noteq> []"
  proof -
    have "take depth (map fst ?levels) \<noteq> []" using that prices by (metis map_is_Nil_conv)
    then have "fst (hd rows) = hd (map fst ?levels)" "?levels \<noteq> []"
      using that prices hd_map [of rows fst] by (auto simp: hd_take)
    then show ?thesis
      by (auto simp: get_best_ask_def get_best_price_def hd_map split: list.splits)
  qed
  ultimately show ?thesis by blast
qed

end
